(* ===== verification/Prelude.thy ===== *)
theory Prelude
  imports Main "HOL-Library.Word" "HOL-Library.Monad_Syntax" "HOL-Library.Sublist"
begin

unbundle bit_operations_syntax

text \<open>
  Shared vocabulary of the development: the machine integer types of the firmware, checked
  access to C arrays and byte buffers, fixed-size array writes, NUL-terminated strings, the
  contents of a ring buffer, and the queue interfaces that the ring buffers of the firmware
  implement.

  Conventions. A C array is a list whose length is fixed by a well-formedness predicate. A read
  through a pointer is \<open>byte_at\<close> (or \<open>array_at\<close>), whose value \<open>None\<close> stands for an access outside
  the object: a model function of type \<open>'a option\<close> that uses them returns \<open>None\<close> exactly when the
  C code would leave the bounds of a buffer, so memory safety is the statement that it is never
  \<open>None\<close>. A \<open>size_t\<close> is a \<open>nat\<close>; a narrowing cast to \<open>uint16_t\<close> is written \<open>to_u16\<close>.
\<close>

section \<open>Machine types\<close>

type_synonym u8 = "8 word"
type_synonym u16 = "16 word"
type_synonym u32 = "32 word"
type_synonym i8 = "8 word"
type_synonym bd_addr = "u8 list"

text \<open>Rules of the form "the operation keeps the invariant", one collection per invariant.\<close>

named_theorems wf_intros
named_theorems healthy_intros

definition to_u16 :: "nat \<Rightarrow> nat" where
  "to_u16 n = n mod 65536"

lemma to_u16_id [simp]: "n < 65536 \<Longrightarrow> to_u16 n = n"
  by (simp add: to_u16_def)

lemma to_u16_less [simp]: "to_u16 n < 65536"
  by (simp add: to_u16_def)

section \<open>Checked array access\<close>

definition array_at :: "'a list \<Rightarrow> nat \<Rightarrow> 'a option" where
  "array_at xs i = (if i < length xs then Some (xs ! i) else None)"

definition array_put :: "'a list \<Rightarrow> nat \<Rightarrow> 'a \<Rightarrow> 'a list option" where
  "array_put xs i v = (if i < length xs then Some (xs[i := v]) else None)"

abbreviation byte_at :: "u8 list \<Rightarrow> nat \<Rightarrow> u8 option" where
  "byte_at \<equiv> array_at"

lemma array_at_Some [simp]: "i < length xs \<Longrightarrow> array_at xs i = Some (xs ! i)"
  by (simp add: array_at_def)

lemma array_at_eq_Some: "array_at xs i = Some x \<longleftrightarrow> i < length xs \<and> x = xs ! i"
  by (auto simp: array_at_def)

lemma array_at_eq_None [simp]: "array_at xs i = None \<longleftrightarrow> length xs \<le> i"
  by (auto simp: array_at_def)

lemma array_put_Some [simp]: "i < length xs \<Longrightarrow> array_put xs i v = Some (xs[i := v])"
  by (simp add: array_put_def)

lemma array_put_eq_Some: "array_put xs i v = Some ys \<longleftrightarrow> i < length xs \<and> ys = xs[i := v]"
  by (auto simp: array_put_def)

definition slice_at :: "'a list \<Rightarrow> nat \<Rightarrow> nat \<Rightarrow> 'a list option" where
  "slice_at xs i n = (if i + n \<le> length xs then Some (take n (drop i xs)) else None)"

lemma slice_at_Some [simp]: "i + n \<le> length xs \<Longrightarrow> slice_at xs i n = Some (take n (drop i xs))"
  by (simp add: slice_at_def)

lemma slice_at_eq_Some:
  "slice_at xs i n = Some ys \<longleftrightarrow> i + n \<le> length xs \<and> ys = take n (drop i xs)"
  by (auto simp: slice_at_def)

text \<open>\<open>memcpy\<close> to a position of an array.\<close>

definition bytes_put :: "'a list \<Rightarrow> nat \<Rightarrow> 'a list \<Rightarrow> 'a list option" where
  "bytes_put buf pos bs =
     (if pos + length bs \<le> length buf then Some (take pos buf @ bs @ drop (pos + length bs) buf) else None)"

lemma bytes_put_append:
  "n = length pre \<Longrightarrow> length bs \<le> length rest \<Longrightarrow>
   bytes_put (pre @ rest) n bs = Some (pre @ bs @ drop (length bs) rest)"
  by (simp add: bytes_put_def)

section \<open>Searching an array of records\<close>

lemma find_snoc: "find P (xs @ [x]) = (case find P xs of None \<Rightarrow> if P x then Some x else None | Some y \<Rightarrow> Some y)"
  by (induction xs) simp_all

text \<open>An index loop over the used part of an array is a search in that part.\<close>

lemma find_index_loop:
  "n \<le> length xs \<Longrightarrow>
   map_option (\<lambda>i. xs ! i) (find (\<lambda>i. P (xs ! i)) [0..<n]) = find P (take n xs)"
proof (induction n)
  case 0
  then show ?case by simp
next
  case (Suc n)
  then have "find P (take (Suc n) xs) = (case map_option (\<lambda>i. xs ! i) (find (\<lambda>i. P (xs ! i)) [0..<n])
      of None \<Rightarrow> if P (xs ! n) then Some (xs ! n) else None | Some y \<Rightarrow> Some y)"
    by (simp add: take_Suc_conv_app_nth find_snoc)
  then show ?case by (simp add: find_snoc split: option.split)
qed

lemma find_key_Some_iff:
  "distinct (map key xs) \<Longrightarrow> find (\<lambda>x. key x = k) xs = Some x \<longleftrightarrow> x \<in> set xs \<and> key x = k"
  by (induction xs) (auto simp: rev_image_eqI)

lemma find_key_None_iff: "find (\<lambda>x. key x = k) xs = None \<longleftrightarrow> k \<notin> key ` set xs"
  by (auto simp: find_None_iff)

lemma find_key_update:
  "i < length xs \<Longrightarrow> distinct (map key xs) \<Longrightarrow> key y = key (xs ! i) \<Longrightarrow>
   find (\<lambda>x. key x = k) (xs[i := y]) = (if k = key y then Some y else find (\<lambda>x. key x = k) xs)"
proof (induction xs arbitrary: i)
  case Nil
  then show ?case by simp
next
  case (Cons x xs)
  then show ?case by (cases i) (auto simp: image_iff)
qed

section \<open>Diagnostics\<close>

text \<open>
  A call of \<open>usb_serial_printf\<close> is recorded as its format string, without the line end that every
  message of the firmware has, and its arguments. \<open>log_line\<close> lists are in the order of the calls.
\<close>

datatype log_arg = LStr string | LNum nat | LInt int | LAddr bd_addr

type_synonym log_line = "string \<times> log_arg list"

section \<open>Fixed-size writes and C strings\<close>

text \<open>\<open>memcpy_to dst src\<close> is \<open>memcpy(dst, src, n)\<close> for a source of \<open>n\<close> bytes.\<close>

definition memcpy_to :: "'a list \<Rightarrow> 'a list \<Rightarrow> 'a list" where
  "memcpy_to dst src = src @ drop (length src) dst"

lemma length_memcpy_to [simp]:
  "length src \<le> length dst \<Longrightarrow> length (memcpy_to dst src) = length dst"
  by (simp add: memcpy_to_def)

lemma take_memcpy_to [simp]: "take (length src) (memcpy_to dst src) = src"
  by (simp add: memcpy_to_def)

abbreviation NUL :: char where
  "NUL \<equiv> CHR 0x00"

text \<open>The string a C function reads at the start of a buffer: everything before the first NUL.\<close>

definition c_string :: "char list \<Rightarrow> string" where
  "c_string cs = takeWhile (\<lambda>c. c \<noteq> NUL) cs"

definition nul_terminated :: "char list \<Rightarrow> bool" where
  "nul_terminated cs \<longleftrightarrow> NUL \<in> set cs"

lemma c_string_append_NUL [simp]: "NUL \<notin> set s \<Longrightarrow> c_string (s @ NUL # rest) = s"
  by (auto simp: c_string_def takeWhile_append)

lemma NUL_notin_c_string [simp]: "NUL \<notin> set (c_string cs)"
  by (auto simp: c_string_def dest: set_takeWhileD)

lemma length_c_string_le: "length (c_string cs) \<le> length cs"
  by (simp add: c_string_def length_takeWhile_le)

lemma length_c_string_less: "nul_terminated cs \<Longrightarrow> length (c_string cs) < length cs"
  unfolding nul_terminated_def c_string_def
  by (induction cs) auto

text \<open>\<open>strlen\<close>; \<open>None\<close> when there is no terminator.\<close>

fun c_strlen :: "char list \<Rightarrow> nat option" where
  "c_strlen [] = None"
| "c_strlen (c # cs) = (if c = NUL then Some 0 else map_option Suc (c_strlen cs))"

lemma c_strlen_string: "NUL \<notin> set t \<Longrightarrow> c_strlen (t @ NUL # rest) = Some (length t)"
  by (induction t) auto

lemma c_string_replicate_NUL [simp]: "c_string (replicate n NUL) = []"
  by (cases n) (simp_all add: c_string_def)

lemma nul_terminated_append_NUL [simp]: "nul_terminated (s @ NUL # rest)"
  by (simp add: nul_terminated_def)

lemma nul_terminated_replicate [simp]: "nul_terminated (replicate n NUL) \<longleftrightarrow> 0 < n"
  by (auto simp: nul_terminated_def)

section \<open>Ring buffers\<close>

text \<open>
  The three queues of the firmware (control requests, USB keyboard reports, CDC log bytes) keep an
  array, the index of the oldest entry and a count. Their contents, oldest first:
\<close>

definition ring_contents :: "'a list \<Rightarrow> nat \<Rightarrow> nat \<Rightarrow> 'a list" where
  "ring_contents slots hd_ix n = map (\<lambda>i. slots ! ((hd_ix + i) mod length slots)) [0..<n]"

lemma length_ring_contents [simp]: "length (ring_contents slots h n) = n"
  by (simp add: ring_contents_def)

lemma ring_contents_0 [simp]: "ring_contents slots h 0 = []"
  by (simp add: ring_contents_def)

lemma ring_contents_eq_Nil [simp]: "ring_contents slots h n = [] \<longleftrightarrow> n = 0"
  by (simp add: ring_contents_def)

lemma mod_add_neq:
  assumes "(i::nat) < n" and "n < N"
  shows "(h + i) mod N \<noteq> (h + n) mod N"
proof
  assume "(h + i) mod N = (h + n) mod N"
  then have "N dvd (h + n) - (h + i)"
    using mod_eq_dvd_iff_nat [of "h + i" "h + n" N] assms by (metis nat_add_left_cancel_le less_imp_le)
  then have "N dvd n - i" by simp
  then show False using assms by (meson dvd_imp_le less_imp_diff_less not_le zero_less_diff)
qed

lemma mod_add_neq':
  "(i::nat) < n \<Longrightarrow> n < N \<Longrightarrow> (h + n) mod N \<noteq> (h + i) mod N"
  using mod_add_neq by metis

lemma ring_contents_push:
  assumes "n < length slots"
  shows "ring_contents (slots[(h + n) mod length slots := x]) h (Suc n) =
         ring_contents slots h n @ [x]"
proof -
  from assms have "0 < length slots" by linarith
  then have "(h + n) mod length slots < length slots" by simp
  then show ?thesis
    using mod_add_neq' [OF _ assms, of _ h] by (auto simp: ring_contents_def nth_list_update)
qed

lemma ring_contents_pop:
  assumes "0 < n"
  shows "ring_contents slots h n =
         slots ! (h mod length slots) # ring_contents slots ((h + 1) mod length slots) (n - 1)"
proof -
  from assms have "[0..<n] = 0 # map Suc [0..<n - 1]"
    by (simp add: map_Suc_upt upt_rec [of 0 n])
  then show ?thesis
    by (simp add: ring_contents_def mod_simps)
qed

section \<open>Queue interfaces\<close>

text \<open>
  What a client of a queue relies on. \<open>deq\<close> is a C function that returns \<open>false\<close> (here \<open>None\<close>) on
  an empty queue and otherwise writes the oldest element to its out-parameter.
\<close>

datatype 'a queue_op = Enq 'a | Deq

fun drain :: "('q \<Rightarrow> ('a \<times> 'q) option) \<Rightarrow> nat \<Rightarrow> 'q \<Rightarrow> 'a list \<times> 'q" where
  "drain deq 0 q = ([], q)"
| "drain deq (Suc k) q =
     (case deq q of
        None \<Rightarrow> ([], q)
      | Some (x, q') \<Rightarrow> (let (xs, r) = drain deq k q' in (x # xs, r)))"

fun queue_run ::
    "('q \<Rightarrow> 'a \<Rightarrow> bool \<times> 'q) \<Rightarrow> ('q \<Rightarrow> ('a \<times> 'q) option) \<Rightarrow> 'a queue_op list \<Rightarrow> 'q \<Rightarrow>
     'a list \<times> 'a list \<times> 'q" where
  "queue_run enq deq [] q = ([], [], q)"
| "queue_run enq deq (Enq x # ops) q =
     (let (ok, q') = enq q x; (acc, out, r) = queue_run enq deq ops q'
      in (if ok then x # acc else acc, out, r))"
| "queue_run enq deq (Deq # ops) q =
     (case deq q of
        None \<Rightarrow> queue_run enq deq ops q
      | Some (x, q') \<Rightarrow> (let (acc, out, r) = queue_run enq deq ops q' in (acc, x # out, r)))"

fun put_run ::
    "('q \<Rightarrow> 'a \<Rightarrow> 'q) \<Rightarrow> ('q \<Rightarrow> ('a \<times> 'q) option) \<Rightarrow> 'a queue_op list \<Rightarrow> 'q \<Rightarrow> 'a list \<times> 'q" where
  "put_run put deq [] q = ([], q)"
| "put_run put deq (Enq x # ops) q = put_run put deq ops (put q x)"
| "put_run put deq (Deq # ops) q =
     (case deq q of
        None \<Rightarrow> put_run put deq ops q
      | Some (x, q') \<Rightarrow> (let (out, r) = put_run put deq ops q' in (x # out, r)))"

fun enqueued :: "'a queue_op list \<Rightarrow> 'a list" where
  "enqueued [] = []"
| "enqueued (Enq x # ops) = x # enqueued ops"
| "enqueued (Deq # ops) = enqueued ops"

locale queue_consumer =
  fixes contents :: "'q \<Rightarrow> 'a list"
    and invar :: "'q \<Rightarrow> bool"
    and deq :: "'q \<Rightarrow> ('a \<times> 'q) option"
  assumes deq_empty: "invar q \<Longrightarrow> contents q = [] \<Longrightarrow> deq q = None"
    and deq_nonempty: "invar q \<Longrightarrow> contents q = x # xs \<Longrightarrow>
      \<exists>q'. deq q = Some (x, q') \<and> contents q' = xs \<and> invar q'"
begin

lemma deq_SomeD:
  assumes "invar q" and "deq q = Some (x, q')"
  shows "contents q = x # contents q'" and "invar q'"
  using assms deq_empty [of q] deq_nonempty [of q] by (cases "contents q"; force)+

lemma deq_NoneD: "invar q \<Longrightarrow> deq q = None \<Longrightarrow> contents q = []"
  using deq_nonempty [of q] by (cases "contents q") force+

lemma drain_contents:
  "invar q \<Longrightarrow> drain deq k q = (xs, r) \<Longrightarrow> contents q = xs @ contents r \<and> invar r"
proof (induction k arbitrary: q xs r)
  case 0
  then show ?case by simp
next
  case (Suc k)
  show ?case
  proof (cases "deq q")
    case None
    with Suc.prems show ?thesis by simp
  next
    case (Some p)
    obtain x q' where p: "p = (x, q')" by (cases p)
    obtain ys r' where d: "drain deq k q' = (ys, r')" by (cases "drain deq k q'")
    from deq_SomeD [OF Suc.prems(1)] Some p have q: "contents q = x # contents q'" "invar q'"
      by simp_all
    from Suc.IH [OF q(2) d] Suc.prems(2) Some p d q(1) show ?thesis by simp
  qed
qed

lemma drain_length:
  "invar q \<Longrightarrow> drain deq k q = (xs, r) \<Longrightarrow> length xs = min k (length (contents q))"
proof (induction k arbitrary: q xs r)
  case 0
  then show ?case by simp
next
  case (Suc k)
  show ?case
  proof (cases "deq q")
    case None
    with Suc.prems deq_NoneD show ?thesis by simp
  next
    case (Some p)
    obtain x q' where p: "p = (x, q')" by (cases p)
    obtain ys r' where d: "drain deq k q' = (ys, r')" by (cases "drain deq k q'")
    from deq_SomeD [OF Suc.prems(1)] Some p have q: "contents q = x # contents q'" "invar q'"
      by simp_all
    from Suc.IH [OF q(2) d] Suc.prems(2) Some p d q(1) show ?thesis by auto
  qed
qed

lemma drain_all:
  assumes "invar q" and "length (contents q) \<le> k"
  shows "\<exists>r. drain deq k q = (contents q, r) \<and> contents r = [] \<and> invar r \<and> deq r = None"
proof -
  obtain xs r where d: "drain deq k q = (xs, r)" by (cases "drain deq k q")
  from drain_contents [OF assms(1) d] drain_length [OF assms(1) d] assms(2)
  have "contents q = xs" and "contents r = []" and "invar r" by auto
  with d deq_empty show ?thesis by auto
qed

end

text \<open>A queue that refuses new elements when it is full.\<close>

locale rejecting_queue = queue_consumer contents invar deq
  for contents :: "'q \<Rightarrow> 'a list" and invar :: "'q \<Rightarrow> bool" and deq :: "'q \<Rightarrow> ('a \<times> 'q) option" +
  fixes enq :: "'q \<Rightarrow> 'a \<Rightarrow> bool \<times> 'q"
    and capacity :: nat
  assumes capacity_bound: "invar q \<Longrightarrow> length (contents q) \<le> capacity"
    and enq_full: "invar q \<Longrightarrow> length (contents q) = capacity \<Longrightarrow> enq q x = (False, q)"
    and enq_space: "invar q \<Longrightarrow> length (contents q) < capacity \<Longrightarrow>
      \<exists>q'. enq q x = (True, q') \<and> contents q' = contents q @ [x] \<and> invar q'"
begin

lemma enq_accepts_iff: "invar q \<Longrightarrow> fst (enq q x) \<longleftrightarrow> length (contents q) < capacity"
  using capacity_bound [of q] enq_full [of q x] enq_space [of q x]
  by (cases "length (contents q) = capacity") auto

lemma enq_result:
  assumes "invar q" and "enq q x = (ok, q')"
  shows "invar q' \<and> contents q' = (if ok then contents q @ [x] else contents q)"
  using assms capacity_bound [of q] enq_full [of q x] enq_space [of q x]
  by (cases "length (contents q) = capacity") auto

text \<open>First in, first out, whatever the interleaving: what was delivered followed by what is still
  queued is what was queued at the start followed by what was accepted.\<close>

lemma run_fifo:
  "invar q \<Longrightarrow> queue_run enq deq ops q = (acc, out, r) \<Longrightarrow>
   invar r \<and> contents q @ acc = out @ contents r"
proof (induction ops arbitrary: q acc out r)
  case Nil
  then show ?case by simp
next
  case (Cons op ops)
  show ?case
  proof (cases op)
    case (Enq x)
    obtain ok q' where e: "enq q x = (ok, q')" by (cases "enq q x")
    obtain acc' out' r' where run: "queue_run enq deq ops q' = (acc', out', r')"
      by (cases "queue_run enq deq ops q'")
    from enq_result [OF Cons.prems(1) e] Cons.IH [OF _ run] Cons.prems(2) Enq e run
    show ?thesis by (auto split: if_splits)
  next
    case Deq
    show ?thesis
    proof (cases "deq q")
      case None
      with Cons Deq show ?thesis by simp
    next
      case (Some p)
      obtain x q' where p: "p = (x, q')" by (cases p)
      obtain acc' out' r' where run: "queue_run enq deq ops q' = (acc', out', r')"
        by (cases "queue_run enq deq ops q'")
      from deq_SomeD [OF Cons.prems(1)] Some p have "contents q = x # contents q'" "invar q'"
        by simp_all
      with Cons.IH [OF _ run] Cons.prems(2) Deq Some p run show ?thesis by auto
    qed
  qed
qed

end

text \<open>A queue that drops everything it holds when an element arrives and it is full.\<close>

locale dropping_queue = queue_consumer contents invar deq
  for contents :: "'q \<Rightarrow> 'a list" and invar :: "'q \<Rightarrow> bool" and deq :: "'q \<Rightarrow> ('a \<times> 'q) option" +
  fixes put :: "'q \<Rightarrow> 'a \<Rightarrow> 'q"
    and capacity :: nat
  assumes put_invar: "invar q \<Longrightarrow> invar (put q x)"
    and put_contents: "invar q \<Longrightarrow>
      contents (put q x) = (if length (contents q) = capacity then [x] else contents q @ [x])"
begin

lemma put_last: "invar q \<Longrightarrow> contents (put q x) \<noteq> [] \<and> last (contents (put q x)) = x"
  by (simp add: put_contents)

lemma put_all_suffix:
  "invar q \<Longrightarrow>
   invar (foldl put q xs) \<and> (\<exists>dropped. contents q @ xs = dropped @ contents (foldl put q xs))"
proof (induction xs rule: rev_induct)
  case Nil
  then show ?case by auto
next
  case (snoc x xs)
  then obtain dropped where inv: "invar (foldl put q xs)"
    and eq: "contents q @ xs = dropped @ contents (foldl put q xs)" by blast
  let ?r = "foldl put q xs"
  have "contents q @ xs @ [x] = (contents q @ xs) @ [x]" by simp
  also have "\<dots> = (if length (contents ?r) = capacity then dropped @ contents ?r else dropped) @
      contents (put ?r x)"
    unfolding eq by (simp add: put_contents [OF inv])
  finally have "\<exists>d. contents q @ xs @ [x] = d @ contents (put ?r x)" ..
  with put_invar [OF inv] show ?case by simp
qed

text \<open>Whatever the interleaving, elements come out in the order in which they were put, and the
  newest one is never the one that is lost.\<close>

lemma run_order:
  "invar q \<Longrightarrow> put_run put deq ops q = (out, r) \<Longrightarrow>
   invar r \<and> subseq (out @ contents r) (contents q @ enqueued ops) \<and>
   (contents q @ enqueued ops \<noteq> [] \<longrightarrow>
      out @ contents r \<noteq> [] \<and> last (out @ contents r) = last (contents q @ enqueued ops))"
proof (induction ops arbitrary: q out r)
  case Nil
  then show ?case by simp
next
  case (Cons op ops)
  show ?case
  proof (cases op)
    case (Enq x)
    let ?e = "enqueued ops"
    from put_contents [OF Cons.prems(1), of x]
    have sub: "subseq (contents (put q x) @ ?e) (contents q @ x # ?e)"
      and lst: "last (contents (put q x) @ ?e) = last (contents q @ x # ?e)"
      and ne: "contents (put q x) @ ?e \<noteq> []"
      by (auto split: if_splits)
    from Cons.IH [OF put_invar [OF Cons.prems(1), of x], of out r] Cons.prems(2) Enq
    have "invar r" "subseq (out @ contents r) (contents (put q x) @ ?e)"
      "out @ contents r \<noteq> []" "last (out @ contents r) = last (contents (put q x) @ ?e)"
      using ne by auto
    with sub lst Enq show ?thesis by (auto intro: subseq_order.trans)
  next
    case Deq
    show ?thesis
    proof (cases "deq q")
      case None
      with Cons Deq show ?thesis by simp
    next
      case (Some p)
      obtain x q' where p: "p = (x, q')" by (cases p)
      obtain out' r' where run: "put_run put deq ops q' = (out', r')"
        by (cases "put_run put deq ops q'")
      from deq_SomeD [OF Cons.prems(1)] Some p
      have q: "contents q = x # contents q'" "invar q'" by simp_all
      from Cons.prems(2) Deq Some p run have eq: "out = x # out'" "r = r'" by simp_all
      from Cons.IH [OF q(2) run] q(1) eq Deq show ?thesis
        by (cases "contents q' @ enqueued ops") auto
    qed
  qed
qed

end

section \<open>Bounded tables\<close>

text \<open>
  What a client of a table with a fixed number of entries relies on. \<open>put t k u\<close> inserts or updates
  the entry of \<open>k\<close>; \<open>merge k u old\<close> is the entry it writes, from the entry found before, if any.
\<close>

definition try_put :: "('t \<Rightarrow> 'k \<Rightarrow> 'u \<Rightarrow> 't option) \<Rightarrow> 't \<Rightarrow> 'k \<times> 'u \<Rightarrow> 't" where
  "try_put put t p = (case put t (fst p) (snd p) of None \<Rightarrow> t | Some t' \<Rightarrow> t')"

locale bounded_table =
  fixes lookup :: "'t \<Rightarrow> 'k \<Rightarrow> 'v option"
    and invar :: "'t \<Rightarrow> bool"
    and put :: "'t \<Rightarrow> 'k \<Rightarrow> 'u \<Rightarrow> 't option"
    and merge :: "'k \<Rightarrow> 'u \<Rightarrow> 'v option \<Rightarrow> 'v"
    and capacity :: nat
  assumes dom_bound: "invar t \<Longrightarrow> finite (dom (lookup t)) \<and> card (dom (lookup t)) \<le> capacity"
    and put_SomeD: "invar t \<Longrightarrow> put t k u = Some t' \<Longrightarrow>
      invar t' \<and> lookup t' = (lookup t)(k \<mapsto> merge k u (lookup t k))"
    and put_None_iff: "invar t \<Longrightarrow>
      put t k u = None \<longleftrightarrow> lookup t k = None \<and> card (dom (lookup t)) = capacity"
begin

lemma try_put_invar: "invar t \<Longrightarrow> invar (try_put put t p)"
  using put_SomeD by (auto simp: try_put_def split: option.split)

lemma try_put_dom:
  assumes "invar t"
  shows "dom (lookup t) \<subseteq> dom (lookup (try_put put t p))"
    and "dom (lookup (try_put put t p)) \<subseteq> insert (fst p) (dom (lookup t))"
  using put_SomeD [OF assms] by (auto simp: try_put_def split: option.splits)

lemma try_put_present:
  assumes "invar t" and "finite K" and "dom (lookup t) \<subseteq> K" and "fst p \<in> K" and "card K \<le> capacity"
  shows "fst p \<in> dom (lookup (try_put put t p))"
proof (cases "put t (fst p) (snd p)")
  case None
  with put_None_iff [OF assms(1)] have no: "fst p \<notin> dom (lookup t)"
    and full: "card (dom (lookup t)) = capacity" by auto
  from assms no have "dom (lookup t) \<subset> K" by auto
  with assms(2) have "card (dom (lookup t)) < card K" by (rule psubset_card_mono)
  with full assms(5) show ?thesis by simp
next
  case (Some t')
  with put_SomeD [OF assms(1) Some] show ?thesis by (simp add: try_put_def)
qed

text \<open>A sequence of insertions never loses an entry, and as long as there is room for all the keys
  every one of them ends up in the table.\<close>

lemma fold_try_put:
  assumes "invar t"
  shows "invar (foldl (try_put put) t ps) \<and> dom (lookup t) \<subseteq> dom (lookup (foldl (try_put put) t ps))
         \<and> dom (lookup (foldl (try_put put) t ps)) \<subseteq> dom (lookup t) \<union> fst ` set ps"
proof (induction ps rule: rev_induct)
  case Nil
  with assms show ?case by simp
next
  case (snoc p ps)
  let ?t = "foldl (try_put put) t ps"
  from snoc have inv: "invar ?t" by blast
  have "fst ` set (ps @ [p]) = insert (fst p) (fst ` set ps)" by simp
  with snoc try_put_invar [OF inv, of p] try_put_dom [OF inv, of p] show ?case
    by (simp only: foldl_append foldl.simps) blast
qed

lemma fold_try_put_all:
  assumes "invar t" and "card (dom (lookup t) \<union> fst ` set ps) \<le> capacity"
  shows "fst ` set ps \<subseteq> dom (lookup (foldl (try_put put) t ps))"
  using assms(2)
proof (induction ps rule: rev_induct)
  case Nil
  then show ?case by simp
next
  case (snoc p ps)
  let ?t = "foldl (try_put put) t ps" and ?K = "dom (lookup t) \<union> fst ` set (ps @ [p])"
  have fin: "finite ?K" using dom_bound [OF assms(1)] by simp
  have "card (dom (lookup t) \<union> fst ` set ps) \<le> card ?K"
    using fin by (intro card_mono) auto
  with snoc have IH: "fst ` set ps \<subseteq> dom (lookup ?t)" by simp
  from fold_try_put [OF assms(1), of ps] have inv: "invar ?t" and sub: "dom (lookup ?t) \<subseteq> ?K"
    by auto
  from try_put_present [OF inv fin sub _ snoc.prems] IH try_put_dom(1) [OF inv, of p]
  show ?case by auto
qed

end

section \<open>Event-driven systems\<close>

text \<open>
  A program that reacts to events: \<open>step e s\<close> is the state after the event, or \<open>None\<close> when its
  handler would leave the bounds of an object. \<open>guard s e\<close> says that the environment may deliver the
  event in this state.
\<close>

fun run_events :: "('e \<Rightarrow> 's \<Rightarrow> 's option) \<Rightarrow> 'e list \<Rightarrow> 's \<Rightarrow> 's option" where
  "run_events step [] s = Some s"
| "run_events step (e # es) s = do { s \<leftarrow> step e s; run_events step es s }"

fun allowed_run :: "('e \<Rightarrow> 's \<Rightarrow> 's option) \<Rightarrow> ('s \<Rightarrow> 'e \<Rightarrow> bool) \<Rightarrow> 'e list \<Rightarrow> 's \<Rightarrow> bool" where
  "allowed_run step guard [] s = True"
| "allowed_run step guard (e # es) s =
     (guard s e \<and> (case step e s of None \<Rightarrow> True | Some s' \<Rightarrow> allowed_run step guard es s'))"

lemma run_events_append:
  "run_events step (es @ fs) s = Option.bind (run_events step es s) (run_events step fs)"
  by (induction es arbitrary: s) (simp_all split: Option.bind_split)

lemma allowed_run_True: "allowed_run step (\<lambda>_ _. True) es s"
  by (induction es arbitrary: s) (auto split: option.split)

lemma allowed_run_all: "\<forall>e\<in>set es. P e \<Longrightarrow> allowed_run step (\<lambda>_ e. P e) es s"
  by (induction es arbitrary: s) (auto split: option.split)

lemma allowed_run_take: "allowed_run step guard es s \<Longrightarrow> allowed_run step guard (take n es) s"
proof (induction es arbitrary: n s)
  case (Cons e es)
  then show ?case by (cases n) (auto split: option.splits)
qed simp

locale event_system =
  fixes step :: "'e \<Rightarrow> 's \<Rightarrow> 's option"
    and guard :: "'s \<Rightarrow> 'e \<Rightarrow> bool"
    and invar :: "'s \<Rightarrow> bool"
  assumes progress: "invar s \<Longrightarrow> guard s e \<Longrightarrow> \<exists>s'. step e s = Some s' \<and> invar s'"
begin

lemma run_progress:
  "invar s \<Longrightarrow> allowed_run step guard es s \<Longrightarrow> \<exists>s'. run_events step es s = Some s' \<and> invar s'"
proof (induction es arbitrary: s)
  case Nil
  then show ?case by simp
next
  case (Cons e es)
  from progress [OF Cons.prems(1)] Cons.prems(2) obtain s' where "step e s = Some s'" "invar s'" by auto
  with Cons show ?case by simp
qed

lemma run_invar:
  assumes "invar s" and "allowed_run step guard es s" and "run_events step es s = Some s'"
  shows "invar s'"
  using run_progress [OF assms(1,2)] assms(3) by auto

end

end
