(* ===== verification/Bt_State.thy ===== *)
theory Bt_State
  imports Prelude "HOL-Library.Sublist"
begin

text \<open>
  The connection states of \<open>src/bt/bt_state.h\<close>, their names and the table of expected transitions
  of \<open>src/bt/bt_state.c\<close>. \<open>STATE_UNKNOWN\<close> stands for every value of the C enumeration's integer
  type that is no enumerator; the \<open>default\<close> branches of the source handle it.
\<close>

section \<open>States and transitions\<close>

datatype bt_state =
    STATE_INITIALIZING
  | STATE_IDLE
  | STATE_INQUIRY
  | STATE_CONNECTING
  | STATE_CONNECTED
  | STATE_SERVICE_DISCOVERY
  | STATE_AUTHENTICATING
  | STATE_READY
  | STATE_DISCONNECTED
  | STATE_OPENING_CONTROL
  | STATE_SETTING_BOOT_PROTOCOL
  | STATE_OPENING_INTERRUPT
  | STATE_HID_CONNECTED
  | STATE_UNKNOWN

fun bt_state_name :: "bt_state \<Rightarrow> string" where
  "bt_state_name STATE_INITIALIZING = ''Initializing''"
| "bt_state_name STATE_IDLE = ''Idle''"
| "bt_state_name STATE_INQUIRY = ''Inquiry''"
| "bt_state_name STATE_CONNECTING = ''Connecting''"
| "bt_state_name STATE_CONNECTED = ''Connected''"
| "bt_state_name STATE_SERVICE_DISCOVERY = ''ServiceDiscovery''"
| "bt_state_name STATE_AUTHENTICATING = ''Authenticating''"
| "bt_state_name STATE_READY = ''Ready''"
| "bt_state_name STATE_DISCONNECTED = ''Disconnected''"
| "bt_state_name STATE_OPENING_CONTROL = ''OpeningControl''"
| "bt_state_name STATE_SETTING_BOOT_PROTOCOL = ''SettingBootProtocol''"
| "bt_state_name STATE_OPENING_INTERRUPT = ''OpeningInterrupt''"
| "bt_state_name STATE_HID_CONNECTED = ''HIDConnected''"
| "bt_state_name STATE_UNKNOWN = ''Unknown''"

definition bt_state_transition_allowed :: "bt_state \<Rightarrow> bt_state \<Rightarrow> bool" where
  "bt_state_transition_allowed fr to =
     (if fr = to then True
      else if to = STATE_IDLE \<or> to = STATE_DISCONNECTED then True
      else (case fr of
          STATE_IDLE \<Rightarrow> to = STATE_INQUIRY \<or> to = STATE_CONNECTING
        | STATE_INQUIRY \<Rightarrow> to = STATE_CONNECTING
        | STATE_CONNECTING \<Rightarrow> to = STATE_CONNECTED
        | STATE_CONNECTED \<Rightarrow> to = STATE_AUTHENTICATING
        | STATE_AUTHENTICATING \<Rightarrow> to = STATE_SERVICE_DISCOVERY
        | STATE_SERVICE_DISCOVERY \<Rightarrow> to = STATE_OPENING_CONTROL
        | STATE_OPENING_CONTROL \<Rightarrow> to = STATE_SETTING_BOOT_PROTOCOL
        | STATE_SETTING_BOOT_PROTOCOL \<Rightarrow> to = STATE_OPENING_INTERRUPT
        | STATE_OPENING_INTERRUPT \<Rightarrow> to = STATE_HID_CONNECTED
        | STATE_DISCONNECTED \<Rightarrow> to = STATE_IDLE
        | _ \<Rightarrow> False))"

text \<open>The type is finite, so statements about all states are decided by evaluation.\<close>

instantiation bt_state :: enum
begin

definition enum_bt_state :: "bt_state list" where
  "enum_bt_state =
     [STATE_INITIALIZING, STATE_IDLE, STATE_INQUIRY, STATE_CONNECTING, STATE_CONNECTED,
      STATE_SERVICE_DISCOVERY, STATE_AUTHENTICATING, STATE_READY, STATE_DISCONNECTED,
      STATE_OPENING_CONTROL, STATE_SETTING_BOOT_PROTOCOL, STATE_OPENING_INTERRUPT,
      STATE_HID_CONNECTED, STATE_UNKNOWN]"

definition enum_all_bt_state :: "(bt_state \<Rightarrow> bool) \<Rightarrow> bool" where
  "enum_all_bt_state P = list_all P enum_class.enum"

definition enum_ex_bt_state :: "(bt_state \<Rightarrow> bool) \<Rightarrow> bool" where
  "enum_ex_bt_state P = list_ex P enum_class.enum"

instance
proof
  show univ: "(UNIV :: bt_state set) = set enum_class.enum"
    unfolding enum_bt_state_def by (auto intro: bt_state.exhaust)
  show "distinct (enum_class.enum :: bt_state list)"
    by (simp add: enum_bt_state_def)
  show "enum_class.enum_all P \<longleftrightarrow> Ball (UNIV :: bt_state set) P" for P
    unfolding univ by (simp add: enum_all_bt_state_def list_all_iff)
  show "enum_class.enum_ex P \<longleftrightarrow> Bex (UNIV :: bt_state set) P" for P
    unfolding univ by (simp add: enum_ex_bt_state_def list_ex_iff)
qed

end

section \<open>Lemmas\<close>

lemma transition_to_self [simp, intro]: "bt_state_transition_allowed s s"
  by (simp add: bt_state_transition_allowed_def)

lemma transition_to_idle [simp, intro]: "bt_state_transition_allowed s STATE_IDLE"
  by (simp add: bt_state_transition_allowed_def)

lemma transition_to_disconnected [simp, intro]: "bt_state_transition_allowed s STATE_DISCONNECTED"
  by (simp add: bt_state_transition_allowed_def)

lemma bt_state_name_inject [simp]: "bt_state_name s = bt_state_name t \<longleftrightarrow> s = t"
  by (cases s; cases t) simp_all

lemma bt_state_name_no_NUL: "NUL \<notin> set (bt_state_name s)"
  by (cases s) simp_all

text \<open>The states on the way to a forwarding connection, in order.\<close>

definition connection_stages :: "bt_state list" where
  "connection_stages =
     [STATE_CONNECTING, STATE_CONNECTED, STATE_AUTHENTICATING, STATE_SERVICE_DISCOVERY,
      STATE_OPENING_CONTROL, STATE_SETTING_BOOT_PROTOCOL, STATE_OPENING_INTERRUPT,
      STATE_HID_CONNECTED]"

fun transition_path :: "bt_state list \<Rightarrow> bool" where
  "transition_path [] = True"
| "transition_path [s] = True"
| "transition_path (s # t # p) =
     (bt_state_transition_allowed s t \<and> transition_path (t # p))"

lemma transition_path_snoc:
  "transition_path (p @ [s, t]) \<longleftrightarrow>
   transition_path (p @ [s]) \<and> bt_state_transition_allowed s t"
  by (induction p rule: transition_path.induct) (auto simp: neq_Nil_conv)

text \<open>The only way into a stage is the stage before it.\<close>

lemma stage_predecessor:
  assumes "n < length connection_stages" and "0 < n"
    and "bt_state_transition_allowed s (connection_stages ! n)"
  shows "s = connection_stages ! n \<or> s = connection_stages ! (n - 1)"
proof -
  from assms(1,2) have "n \<in> {1, 2, 3, 4, 5, 6, 7}"
    by (auto simp: connection_stages_def)
  with assms(3) show ?thesis
    by (elim insertE) (cases s; simp add: bt_state_transition_allowed_def connection_stages_def)+
qed

lemma take_Suc_subseq_snoc:
  assumes "subseq (take n xs) p" and "n < length xs"
  shows "subseq (take (Suc n) xs) (p @ [xs ! n])"
  using assms by (simp add: take_Suc_conv_app_nth list_emb_append_mono)

lemma path_passes_stages:
  assumes "transition_path (STATE_IDLE # p)" and "p \<noteq> []"
    and "last p = connection_stages ! n" and "n < length connection_stages"
  shows "subseq (take (Suc n) connection_stages) p"
  using assms
proof (induction p arbitrary: n rule: rev_induct)
  case Nil
  then show ?case by simp
next
  case (snoc t p)
  note t = snoc.prems(3)
  show ?case
  proof (cases "p = []")
    case True
    with snoc.prems have "bt_state_transition_allowed STATE_IDLE (connection_stages ! n)"
      by simp
    moreover have "n \<in> {0, 1, 2, 3, 4, 5, 6, 7}"
      using snoc.prems(4) by (auto simp: connection_stages_def)
    ultimately have "n = 0"
      by (elim insertE)
        (simp_all add: bt_state_transition_allowed_def connection_stages_def)
    with True t show ?thesis by (simp add: connection_stages_def)
  next
    case False
    then obtain q s where p: "p = q @ [s]" by (meson rev_exhaust)
    with snoc.prems(1) have path: "transition_path (STATE_IDLE # p)"
      and step: "bt_state_transition_allowed s (connection_stages ! n)"
      using transition_path_snoc [of "STATE_IDLE # q" s t] t by auto
    show ?thesis
    proof (cases "n = 0")
      case True
      with t show ?thesis by (simp add: connection_stages_def list_emb_append2)
    next
      case n: False
      from stage_predecessor [OF snoc.prems(4) _ step] n
      consider "s = connection_stages ! n" | "s = connection_stages ! (n - 1)" by auto
      then show ?thesis
      proof cases
        case 1
        with p have "subseq (take (Suc n) connection_stages) p"
          using snoc.IH [OF path False _ snoc.prems(4)] by simp
        then show ?thesis by (rule list_emb_prefix)
      next
        case 2
        with p n snoc.prems(4) have "subseq (take n connection_stages) p"
          using snoc.IH [OF path False, of "n - 1"] by simp
        from take_Suc_subseq_snoc [OF this snoc.prems(4)] t show ?thesis by simp
      qed
    qed
  qed
qed

section \<open>Properties\<close>

text \<open>
  C15. Authentication, service discovery and the channel set-up cannot be skipped: every sequence
  of expected transitions that starts in Idle and ends in HIDConnected passes through Connecting,
  Connected, Authenticating, ServiceDiscovery, OpeningControl, SettingBootProtocol and
  OpeningInterrupt, in this order.
\<close>

theorem hid_connected_needs_every_stage:
  assumes "transition_path (STATE_IDLE # p)" and "p \<noteq> []" and "last p = STATE_HID_CONNECTED"
  shows "subseq connection_stages p"
  using path_passes_stages [OF assms(1,2), of 7] assms(3)
  by (simp add: connection_stages_def)

theorem hid_connected_needs_every_stage_witness:
  "subseq connection_stages
     (STATE_INQUIRY # STATE_CONNECTING # STATE_IDLE # connection_stages)"
  by (rule hid_connected_needs_every_stage)
    (simp_all add: connection_stages_def bt_state_transition_allowed_def)


end
