(* ===== verification/Control_Request_Queue.thy ===== *)
theory Control_Request_Queue
  imports Prelude
begin

text \<open>
  The request type of \<open>src/include/bluetooth_control.h\<close> and the bounded queue of
  \<open>src/bt/control_request_queue.c\<close>, through which the CDC console and the HTTP server hand work to
  \<open>bluetooth_task\<close>. The two pointer arguments are objects here, so the \<open>NULL\<close> guards of push and pop
  have no counterpart. The queue is an instance of \<open>rejecting_queue\<close>.
\<close>

section \<open>Data\<close>

datatype bluetooth_control_action =
    BLUETOOTH_CONTROL_HELP
  | BLUETOOTH_CONTROL_STATUS
  | BLUETOOTH_CONTROL_SCAN
  | BLUETOOTH_CONTROL_CONNECT
  | BLUETOOTH_CONTROL_DISCONNECT
  | BLUETOOTH_CONTROL_RECONNECT
  | BLUETOOTH_CONTROL_FORGET

record bluetooth_control_request =
  rq_action :: bluetooth_control_action
  rq_address :: bd_addr

definition CONTROL_REQUEST_QUEUE_CAPACITY :: nat where
  "CONTROL_REQUEST_QUEUE_CAPACITY = 8"

record control_request_queue =
  crq_requests :: "bluetooth_control_request list"
  crq_head :: nat
  crq_count :: nat

text \<open>An all-zero request, as \<open>memset\<close> and \<open>= {0}\<close> leave it.\<close>

definition zero_request :: bluetooth_control_request where
  "zero_request = \<lparr>rq_action = BLUETOOTH_CONTROL_HELP, rq_address = replicate 6 0\<rparr>"

section \<open>Operations\<close>

definition control_request_queue_init :: control_request_queue where
  "control_request_queue_init =
     \<lparr>crq_requests = replicate CONTROL_REQUEST_QUEUE_CAPACITY zero_request,
      crq_head = 0, crq_count = 0\<rparr>"

definition control_request_queue_push ::
    "control_request_queue \<Rightarrow> bluetooth_control_request \<Rightarrow> bool \<times> control_request_queue" where
  "control_request_queue_push queue request =
     (if crq_count queue = CONTROL_REQUEST_QUEUE_CAPACITY then (False, queue)
      else
        (let tl_ix = (crq_head queue + crq_count queue) mod CONTROL_REQUEST_QUEUE_CAPACITY
         in (True, queue\<lparr>crq_requests := (crq_requests queue)[tl_ix := request],
                         crq_count := crq_count queue + 1\<rparr>)))"

definition control_request_queue_pop ::
    "control_request_queue \<Rightarrow> (bluetooth_control_request \<times> control_request_queue) option" where
  "control_request_queue_pop queue =
     (if crq_count queue = 0 then None
      else Some (crq_requests queue ! crq_head queue,
                 queue\<lparr>crq_head := (crq_head queue + 1) mod CONTROL_REQUEST_QUEUE_CAPACITY,
                       crq_count := crq_count queue - 1\<rparr>))"

section \<open>Invariant and contents\<close>

definition crq_wf :: "control_request_queue \<Rightarrow> bool" where
  "crq_wf q \<longleftrightarrow> length (crq_requests q) = CONTROL_REQUEST_QUEUE_CAPACITY \<and>
     crq_head q < CONTROL_REQUEST_QUEUE_CAPACITY \<and> crq_count q \<le> CONTROL_REQUEST_QUEUE_CAPACITY"

definition crq_contents :: "control_request_queue \<Rightarrow> bluetooth_control_request list" where
  "crq_contents q = ring_contents (crq_requests q) (crq_head q) (crq_count q)"

lemma capacity_pos [simp]: "0 < CONTROL_REQUEST_QUEUE_CAPACITY"
  by (simp add: CONTROL_REQUEST_QUEUE_CAPACITY_def)

lemma crq_init_wf [simp]: "crq_wf control_request_queue_init"
  by (simp add: crq_wf_def control_request_queue_init_def)

lemma crq_init_contents [simp]: "crq_contents control_request_queue_init = []"
  by (simp add: crq_contents_def control_request_queue_init_def)

lemma length_crq_contents [simp]: "length (crq_contents q) = crq_count q"
  by (simp add: crq_contents_def)

interpretation crq: rejecting_queue crq_contents crq_wf control_request_queue_pop
  control_request_queue_push CONTROL_REQUEST_QUEUE_CAPACITY
proof (unfold_locales, goal_cases)
  case (1 q)
  then show ?case by (simp add: control_request_queue_pop_def crq_contents_def)
next
  case (2 q x xs)
  then have "0 < crq_count q" by (cases "crq_count q") (auto simp: crq_contents_def)
  with 2 show ?case
    by (auto simp: control_request_queue_pop_def crq_contents_def crq_wf_def
        ring_contents_pop [of "crq_count q"])
next
  case (3 q)
  then show ?case by (simp add: crq_wf_def)
next
  case (4 q x)
  then show ?case by (simp add: control_request_queue_push_def)
next
  case (5 q x)
  then show ?case
    using ring_contents_push [of "crq_count q" "crq_requests q" "crq_head q" x]
    by (simp add: control_request_queue_push_def crq_contents_def crq_wf_def Let_def)
qed

section \<open>Properties\<close>

text \<open>
  C30. Whatever the interleaving of submissions and removals on a fresh queue, requests leave it in
  the order in which they were accepted, none is lost or duplicated, and the ring stays well formed.
\<close>

theorem control_queue_fifo:
  assumes "queue_run control_request_queue_push control_request_queue_pop ops
             control_request_queue_init = (acc, out, r)"
  shows "acc = out @ crq_contents r \<and> crq_wf r"
  using crq.run_fifo [OF crq_init_wf assms] by simp

theorem control_queue_fifo_witness:
  "\<exists>acc out r.
     queue_run control_request_queue_push control_request_queue_pop
       [Enq zero_request, Deq, Deq] control_request_queue_init = (acc, out, r) \<and>
     acc = out @ crq_contents r \<and> crq_wf r"
proof -
  obtain acc out r where run:
    "queue_run control_request_queue_push control_request_queue_pop
       [Enq zero_request, Deq, Deq] control_request_queue_init = (acc, out, r)"
    by (cases "queue_run control_request_queue_push control_request_queue_pop
       [Enq zero_request, Deq, Deq] control_request_queue_init")
  with control_queue_fifo [OF run] show ?thesis by blast
qed

text \<open>
  A submission is refused exactly when eight requests are waiting, and a refused submission
  leaves the queue as it was; an accepted one is appended behind the waiting ones.
\<close>

theorem control_queue_push_result:
  assumes "crq_wf q"
  shows "control_request_queue_push q x = (False, q) \<and> length (crq_contents q) = 8 \<or>
         (\<exists>q'. control_request_queue_push q x = (True, q') \<and> crq_wf q' \<and>
               crq_contents q' = crq_contents q @ [x] \<and> length (crq_contents q) < 8)"
proof (cases "length (crq_contents q) = CONTROL_REQUEST_QUEUE_CAPACITY")
  case True
  with crq.enq_full [OF assms] show ?thesis
    by (simp add: CONTROL_REQUEST_QUEUE_CAPACITY_def)
next
  case False
  with crq.capacity_bound [OF assms] have "length (crq_contents q) < CONTROL_REQUEST_QUEUE_CAPACITY"
    by simp
  with crq.enq_space [OF assms this, of x] show ?thesis
    by (auto simp: CONTROL_REQUEST_QUEUE_CAPACITY_def)
qed

theorem control_queue_push_result_witness:
  "\<exists>q'. control_request_queue_push control_request_queue_init zero_request = (True, q') \<and>
        crq_contents q' = [zero_request]"
  using control_queue_push_result [OF crq_init_wf, of zero_request] by auto

end
