(* ===== verification/Printf.thy ===== *)
theory Printf
  imports Prelude
begin

text \<open>
  The part of C's formatted output that the firmware uses: the conversions \<open>%d\<close>, \<open>%u\<close>, \<open>%lu\<close>,
  \<open>%c\<close>, \<open>%s\<close> and \<open>%x\<close>, \<open>%lx\<close>, \<open>%X\<close> with a zero-padded width, and \<open>vsnprintf\<close> into a character array.
  \<open>None\<close> is a conversion that does not fit its argument, or a write outside the array. The texts of
  bytes and addresses that the commands and the status document share are defined here as well.
\<close>

section \<open>Digits\<close>

definition upper_digit :: "nat \<Rightarrow> char" where
  "upper_digit n = (if n < 10 then char_of (48 + n) else char_of (55 + n))"

definition lower_digit :: "nat \<Rightarrow> char" where
  "lower_digit n = (if n < 10 then char_of (48 + n) else char_of (87 + n))"

text \<open>The text of an address, for a choice of hexadecimal digits.\<close>

definition byte_text :: "(nat \<Rightarrow> char) \<Rightarrow> u8 \<Rightarrow> string" where
  "byte_text dg b = [dg (unat b div 16), dg (unat b mod 16)]"

fun address_text :: "(nat \<Rightarrow> char) \<Rightarrow> u8 list \<Rightarrow> string" where
  "address_text dg [] = []"
| "address_text dg [b] = byte_text dg b"
| "address_text dg (b # bs) = byte_text dg b @ CHR '':'' # address_text dg bs"

function digits :: "(nat \<Rightarrow> char) \<Rightarrow> nat \<Rightarrow> nat \<Rightarrow> string" where
  "digits dg base n =
     (if n < base \<or> base < 2 then [dg n] else digits dg base (n div base) @ [dg (n mod base)])"
  by pat_completeness auto

termination by (relation "measure (\<lambda>(dg, base, n). n)") auto

declare digits.simps [simp del]

abbreviation decimal :: "nat \<Rightarrow> string" where
  "decimal \<equiv> digits lower_digit 10"

definition decimal_int :: "int \<Rightarrow> string" where
  "decimal_int i = (if i < 0 then CHR ''-'' # decimal (nat (- i)) else decimal (nat i))"

definition zero_pad :: "nat \<Rightarrow> string \<Rightarrow> string" where
  "zero_pad width s = replicate (width - length s) CHR ''0'' @ s"

section \<open>Conversions\<close>

fun format_arg :: "char \<Rightarrow> log_arg \<Rightarrow> string option" where
  "format_arg k (LStr s) = (if k = CHR ''s'' then Some s else None)"
| "format_arg k (LAddr a) = (if k = CHR ''s'' then Some (address_text upper_digit a) else None)"
| "format_arg k (LInt i) = (if k = CHR ''d'' then Some (decimal_int i) else None)"
| "format_arg k (LNum n) =
     (if k = CHR ''u'' \<or> k = CHR ''d'' then Some (decimal n)
      else if k = CHR ''x'' then Some (digits lower_digit 16 n)
      else if k = CHR ''X'' then Some (digits upper_digit 16 n)
      else if k = CHR ''c'' then Some [char_of n]
      else None)"

text \<open>The width, the conversion character and the rest of the format behind a \<open>%\<close>.\<close>

fun conversion :: "string \<Rightarrow> (nat \<times> char \<times> string) option" where
  "conversion (z # w # k # cs) =
     (if z = CHR ''0''
      then if k \<noteq> CHR ''l'' then Some (of_char w - 48, k, cs)
           else case cs of [] \<Rightarrow> None | k # cs \<Rightarrow> Some (of_char w - 48, k, cs)
      else if z = CHR ''l'' then Some (0, w, k # cs)
      else Some (0, z, w # k # cs))"
| "conversion (z # cs) = Some (0, z, cs)"
| "conversion [] = None"

lemma conversion_length: "conversion cs = Some (w, k, rest) \<Longrightarrow> length rest < length cs"
  by (induction cs rule: conversion.induct) (auto split: if_splits list.splits)

function format_text :: "string \<Rightarrow> log_arg list \<Rightarrow> string option" where
  "format_text [] args = Some []"
| "format_text (c # cs) args =
     (if c \<noteq> CHR ''%'' then map_option (Cons c) (format_text cs args)
      else case conversion cs of
             None \<Rightarrow> None
           | Some (width, k, rest) \<Rightarrow>
               (case args of
                  [] \<Rightarrow> None
                | a # args \<Rightarrow> do {
                    t \<leftarrow> format_arg k a;
                    r \<leftarrow> format_text rest args;
                    Some (zero_pad width t @ r)
                  }))"
  by pat_completeness auto

termination
  by (relation "measure (\<lambda>(cs, args). length cs)") (auto dest: conversion_length)

section \<open>Arrays of characters\<close>

text \<open>\<open>vsnprintf(buf + at, n, ...)\<close>: the characters that fit, and the terminator.\<close>

definition vsnprintf_at :: "char list \<Rightarrow> nat \<Rightarrow> nat \<Rightarrow> string \<Rightarrow> char list option" where
  "vsnprintf_at buf at n tx =
     (if n = 0 then Some buf else bytes_put buf at (take (n - 1) tx @ [NUL]))"

section \<open>Lemmas\<close>

lemma zero_pad_0 [simp]: "zero_pad 0 s = s"
  by (simp add: zero_pad_def)

lemma digits_nonempty [simp]: "digits dg base n \<noteq> []"
  by (subst digits.simps) simp

lemma digits_small: "n < base \<Longrightarrow> digits dg base n = [dg n]"
  by (simp add: digits.simps)

lemma less_16_cases:
  "(n::nat) < 16 \<Longrightarrow> n \<in> {0, 1, 2, 3, 4, 5, 6, 7, 8, 9, 10, 11, 12, 13, 14, 15}"
  by (simp add: numeral_eq_Suc less_Suc_eq) (blast)?

lemma lower_digit_0 [simp]: "lower_digit 0 = CHR ''0''" "upper_digit 0 = CHR ''0''"
  by code_simp+

text \<open>Two hexadecimal digits of a byte.\<close>

lemma zero_pad_2_byte:
  "dg 0 = CHR ''0'' \<Longrightarrow> zero_pad 2 (digits dg 16 (unat b)) = byte_text dg (b :: u8)"
proof -
  assume z: "dg 0 = CHR ''0''"
  have "unat b < 256" using unsigned_less [of b] by simp
  then have d: "unat b div 16 < 16" by simp
  show ?thesis
  proof (cases "unat b < 16")
    case True
    with z show ?thesis by (simp add: digits_small zero_pad_def byte_text_def)
  next
    case False
    then have "digits dg 16 (unat b) = [dg (unat b div 16), dg (unat b mod 16)]"
      using digits_small [OF d, of dg] by (subst digits.simps) simp
    then show ?thesis by (simp add: zero_pad_def byte_text_def)
  qed
qed

lemma length_digits_le: "2 \<le> base \<Longrightarrow> n < base ^ k \<Longrightarrow> 0 < k \<Longrightarrow> length (digits dg base n) \<le> k"
proof (induction k arbitrary: n)
  case (Suc k)
  show ?case
  proof (cases "n < base")
    case True
    then show ?thesis by (simp add: digits_small)
  next
    case False
    then have "0 < k" using Suc.prems by (cases k) auto
    moreover have "n div base < base ^ k" using Suc.prems by (simp add: less_mult_imp_div_less mult.commute)
    ultimately have "length (digits dg base (n div base)) \<le> k" using Suc by simp
    with False Suc.prems show ?thesis by (subst digits.simps) simp
  qed
qed simp

text \<open>The number that decimal digits stand for.\<close>

definition digit_value :: "char \<Rightarrow> nat" where
  "digit_value c = of_char c - 48"

definition is_digit :: "char \<Rightarrow> bool" where
  "is_digit c \<longleftrightarrow> 48 \<le> (of_char c :: nat) \<and> (of_char c :: nat) \<le> 57"

lemma digit_value_lower [simp]: "n < 10 \<Longrightarrow> digit_value (lower_digit n) = n"
  by (simp add: digit_value_def lower_digit_def)

lemma is_digit_lower [simp]: "n < 10 \<Longrightarrow> is_digit (lower_digit n)"
  by (simp add: is_digit_def lower_digit_def)

lemma decimal_is_digits: "\<forall>c\<in>set (decimal n). is_digit c"
  by (induction lower_digit "10::nat" n rule: digits.induct) (subst digits.simps, auto)

lemma decimal_value: "foldl (\<lambda>a c. a * 10 + digit_value c) 0 (decimal n) = n"
  by (induction lower_digit "10::nat" n rule: digits.induct) (subst digits.simps, auto)

lemma length_address_text: "b \<noteq> [] \<Longrightarrow> length (address_text dg b) = 3 * length b - 1"
  by (induction dg b rule: address_text.induct) (simp_all add: byte_text_def)

end
