(* ===== verification/Control_Command.thy ===== *)
theory Control_Command
  imports Printf
begin

unbundle bit_operations_syntax

text \<open>
  \<open>src/bt/control_command.c\<close>: the parser of the CDC console's commands. A \<open>const char *\<close> is the
  list of characters from the pointer to the end of its buffer; reading past that end is \<open>None\<close>.
\<close>

section \<open>C character and string functions\<close>

abbreviation char_code :: "char \<Rightarrow> nat" where
  "char_code \<equiv> of_char"

definition c_tolower :: "char \<Rightarrow> char" where
  "c_tolower ch = (if 65 \<le> char_code ch \<and> char_code ch \<le> 90
                   then char_of (char_code ch + 32) else ch)"

text \<open>\<open>strncmp(a, b, n) == 0\<close>; a string literal is passed with its terminator.\<close>

fun c_strncmp_eq :: "char list \<Rightarrow> char list \<Rightarrow> nat \<Rightarrow> bool option" where
  "c_strncmp_eq a b 0 = Some True"
| "c_strncmp_eq (x # a) (y # b) (Suc n) =
     (if x \<noteq> y then Some False
      else if x = NUL then Some True
      else c_strncmp_eq a b n)"
| "c_strncmp_eq _ _ (Suc n) = None"

definition blank :: "char \<Rightarrow> bool" where
  "blank c \<longleftrightarrow> c = CHR '' '' \<or> c = CHR 0x09"

section \<open>Definitions\<close>

datatype control_command_type =
    CONTROL_COMMAND_NONE
  | CONTROL_COMMAND_HELP
  | CONTROL_COMMAND_STATUS
  | CONTROL_COMMAND_SCAN
  | CONTROL_COMMAND_CONNECT
  | CONTROL_COMMAND_DISCONNECT
  | CONTROL_COMMAND_RECONNECT
  | CONTROL_COMMAND_FORGET
  | CONTROL_COMMAND_INVALID

record control_command =
  cmd_type :: control_command_type
  cmd_address :: bd_addr

definition hex_value :: "char \<Rightarrow> int" where
  "hex_value ch =
     (if char_code CHR ''0'' \<le> char_code ch \<and> char_code ch \<le> char_code CHR ''9''
      then int (char_code ch) - int (char_code CHR ''0'')
      else (let ch = c_tolower ch
            in if char_code CHR ''a'' \<le> char_code ch \<and> char_code ch \<le> char_code CHR ''f''
               then int (char_code ch) - int (char_code CHR ''a'') + 10
               else -1))"

text \<open>The loop of \<open>parse_address\<close> from index \<open>i\<close> on; \<open>k\<close> counts the remaining rounds.\<close>

fun parse_address_loop :: "nat \<Rightarrow> nat \<Rightarrow> char list \<Rightarrow> bd_addr \<Rightarrow> (bool \<times> bd_addr) option" where
  "parse_address_loop 0 i text address = do {
     c \<leftarrow> array_at text 0;
     Some (c = NUL, address)
   }"
| "parse_address_loop (Suc k) i text address = do {
     c0 \<leftarrow> array_at text 0;
     c1 \<leftarrow> array_at text 1;
     let high = hex_value c0;
     let low = hex_value c1;
     if high < 0 \<or> low < 0 then Some (False, address)
     else do {
       let address = address[i := word_of_int (push_bit 4 high OR low)];
       let text = drop 2 text;
       if i \<noteq> 5
       then do {
         c \<leftarrow> array_at text 0;
         if c \<noteq> CHR '':'' then Some (False, address)
         else parse_address_loop k (i + 1) (drop 1 text) address
       }
       else parse_address_loop k (i + 1) text address
     }
   }"

definition parse_address :: "char list \<Rightarrow> bd_addr \<Rightarrow> (bool \<times> bd_addr) option" where
  "parse_address text address = parse_address_loop 6 0 text address"

fun skip_blanks :: "char list \<Rightarrow> char list option" where
  "skip_blanks [] = None"
| "skip_blanks (c # cs) = (if blank c then skip_blanks cs else Some (c # cs))"

fun trim_length :: "char list \<Rightarrow> nat \<Rightarrow> nat" where
  "trim_length line 0 = 0"
| "trim_length line (Suc n) = (if blank (line ! n) then trim_length line n else Suc n)"

text \<open>One keyword test of the chain: the length first, then the characters.\<close>

definition is_keyword :: "char list \<Rightarrow> nat \<Rightarrow> string \<Rightarrow> bool option" where
  "is_keyword line len word =
     (if len = length word then c_strncmp_eq line (word @ [NUL]) len else Some False)"

definition control_command_parse :: "char list option \<Rightarrow> (bool \<times> control_command) option" where
  "control_command_parse line_ptr =
     (let command = \<lparr>cmd_type = CONTROL_COMMAND_NONE, cmd_address = replicate 6 0\<rparr>
      in case line_ptr of
        None \<Rightarrow> Some (False, command)
      | Some line0 \<Rightarrow> do {
          line \<leftarrow> skip_blanks line0;
          len0 \<leftarrow> c_strlen line;
          let len = trim_length line len0;
          help \<leftarrow> is_keyword line len ''help'';
          if help then Some (True, command\<lparr>cmd_type := CONTROL_COMMAND_HELP\<rparr>) else do {
          status \<leftarrow> is_keyword line len ''status'';
          if status then Some (True, command\<lparr>cmd_type := CONTROL_COMMAND_STATUS\<rparr>) else do {
          scan \<leftarrow> is_keyword line len ''scan'';
          if scan then Some (True, command\<lparr>cmd_type := CONTROL_COMMAND_SCAN\<rparr>) else do {
          disconnect \<leftarrow> is_keyword line len ''disconnect'';
          if disconnect then Some (True, command\<lparr>cmd_type := CONTROL_COMMAND_DISCONNECT\<rparr>) else do {
          reconnect \<leftarrow> is_keyword line len ''reconnect'';
          if reconnect then Some (True, command\<lparr>cmd_type := CONTROL_COMMAND_RECONNECT\<rparr>) else do {
          forget \<leftarrow> is_keyword line len ''forget'';
          if forget then Some (True, command\<lparr>cmd_type := CONTROL_COMMAND_FORGET\<rparr>) else do {
          prefix \<leftarrow> (if len = 25 then c_strncmp_eq line (''connect '' @ [NUL]) 8 else Some False);
          (ok, address) \<leftarrow> (if prefix then parse_address (drop 8 line) (cmd_address command)
                            else Some (False, cmd_address command));
          if ok
          then Some (True, command\<lparr>cmd_address := address, cmd_type := CONTROL_COMMAND_CONNECT\<rparr>)
          else Some (False, command\<lparr>cmd_address := address, cmd_type := CONTROL_COMMAND_INVALID\<rparr>)
          }}}}}}})"

definition control_command_help :: string where
  "control_command_help =
     ''Commands: help, status, scan, connect XX:XX:XX:XX:XX:XX, disconnect, reconnect, forget''"

section \<open>Reference specification\<close>

lemma hex_value_upper_digit [simp]: "n < 16 \<Longrightarrow> hex_value (upper_digit n) = int n"
  by (drule less_16_cases)
    (elim insertE; simp add: hex_value_def upper_digit_def c_tolower_def Let_def)

lemma hex_value_lower_digit [simp]: "n < 16 \<Longrightarrow> hex_value (lower_digit n) = int n"
  by (drule less_16_cases)
    (elim insertE; simp add: hex_value_def lower_digit_def c_tolower_def Let_def)

definition trim_right :: "string \<Rightarrow> string" where
  "trim_right t = rev (dropWhile blank (rev t))"

text \<open>What the parser computes, on C strings instead of memory.\<close>

definition command_spec :: "string \<Rightarrow> bool \<times> control_command" where
  "command_spec s =
     (let command = \<lparr>cmd_type = CONTROL_COMMAND_NONE, cmd_address = replicate 6 0\<rparr>;
          line = dropWhile blank s;
          text = trim_right line
      in if text = ''help'' then (True, command\<lparr>cmd_type := CONTROL_COMMAND_HELP\<rparr>)
         else if text = ''status'' then (True, command\<lparr>cmd_type := CONTROL_COMMAND_STATUS\<rparr>)
         else if text = ''scan'' then (True, command\<lparr>cmd_type := CONTROL_COMMAND_SCAN\<rparr>)
         else if text = ''disconnect'' then (True, command\<lparr>cmd_type := CONTROL_COMMAND_DISCONNECT\<rparr>)
         else if text = ''reconnect'' then (True, command\<lparr>cmd_type := CONTROL_COMMAND_RECONNECT\<rparr>)
         else if text = ''forget'' then (True, command\<lparr>cmd_type := CONTROL_COMMAND_FORGET\<rparr>)
         else if length text = 25 \<and> take 8 text = ''connect ''
         then (case parse_address (drop 8 line @ [NUL]) (cmd_address command) of
                 Some (True, address) \<Rightarrow>
                   (True, command\<lparr>cmd_address := address, cmd_type := CONTROL_COMMAND_CONNECT\<rparr>)
               | Some (False, address) \<Rightarrow>
                   (False, command\<lparr>cmd_address := address, cmd_type := CONTROL_COMMAND_INVALID\<rparr>)
               | None \<Rightarrow> (False, command))
         else (False, command\<lparr>cmd_type := CONTROL_COMMAND_INVALID\<rparr>))"

section \<open>Lemmas\<close>

lemma not_blank_NUL [simp]: "\<not> blank NUL"
  by (simp add: blank_def)

lemma skip_blanks_string: "skip_blanks (s @ NUL # rest) = Some (dropWhile blank s @ NUL # rest)"
  by (induction s) simp_all

lemma trim_right_snoc [simp]:
  "trim_right (t @ [c]) = (if blank c then trim_right t else t @ [c])"
  by (simp add: trim_right_def)

lemma trim_right_Nil [simp]: "trim_right [] = []"
  by (simp add: trim_right_def)

lemma trim_right_prefix: "prefix (trim_right t) t"
  by (induction t rule: rev_induct) (auto intro: prefix_order.trans)

lemma trim_length_string: "trim_length (t @ r) (length t) = length (trim_right t)"
proof (induction t arbitrary: r rule: rev_induct)
  case Nil
  then show ?case by simp
next
  case (snoc c t)
  from snoc [of "c # r"] show ?case by (simp add: nth_append)
qed

lemma strncmp_literal:
  "length w \<le> length a \<Longrightarrow> NUL \<notin> set w \<Longrightarrow>
   c_strncmp_eq a (w @ [NUL]) (length w) = Some (take (length w) a = w)"
proof (induction w arbitrary: a)
  case Nil
  then show ?case by simp
next
  case (Cons x w)
  then show ?case by (cases a) auto
qed

lemma prefix_take_append:
  "prefix u t \<Longrightarrow> take (length u) (t @ r) = u \<and> length u \<le> length (t @ r)"
  by (auto simp: prefix_def)

lemma is_keyword_string:
  assumes "NUL \<notin> set w"
  shows "is_keyword (t @ r) (length (trim_right t)) w = Some (trim_right t = w)"
proof (cases "length (trim_right t) = length w")
  case True
  note prefix_take_append [OF trim_right_prefix, of t r, unfolded True]
  then show ?thesis
    using strncmp_literal [of w "t @ r", OF _ assms] True
    by (simp add: is_keyword_def del: take_append length_append)
next
  case False
  then show ?thesis by (auto simp: is_keyword_def)
qed

lemma parse_address_loop_local:
  "k + i = 6 \<Longrightarrow> (if k = 0 then 1 else 3 * k) \<le> length text \<Longrightarrow>
   parse_address_loop k i (text @ ext) a = parse_address_loop k i text a \<and>
   parse_address_loop k i text a \<noteq> None"
proof (induction k arbitrary: i "text" a)
  case 0
  then show ?case by (cases "text") simp_all
next
  case (Suc k)
  from Suc.prems(2) obtain c0 c1 t where tx: "text = c0 # c1 # t" "3 * k + 1 \<le> length t"
    by (cases "text"; cases "tl text") auto
  show ?case
  proof (cases "i = 5")
    case True
    with Suc.prems(1) have "k = 0" by simp
    with Suc.IH [of "Suc i" t] Suc.prems tx True show ?thesis by (auto simp: Let_def)
  next
    case False
    with Suc.prems(1) have k: "k \<noteq> 0" by simp
    from tx obtain c u where t: "t = c # u" "3 * k \<le> length u" by (cases t) auto
    from Suc.IH [of "Suc i" u] Suc.prems False k tx t show ?thesis by (auto simp: Let_def)
  qed
qed

lemma parse_address_local:
  assumes "18 \<le> length text"
  shows "parse_address (text @ ext) a = parse_address text a" and "parse_address text a \<noteq> None"
  using parse_address_loop_local [of 6 0 "text" ext a] assms by (simp_all add: parse_address_def)

lemma length_18_cases:
  assumes "18 \<le> length xs"
  obtains a0 a1 a2 a3 a4 a5 a6 a7 a8 b0 b1 b2 b3 b4 b5 b6 b7 b8 r where
    "xs = a0 # a1 # a2 # a3 # a4 # a5 # a6 # a7 # a8 # b0 # b1 # b2 # b3 # b4 # b5 # b6 # b7 # b8 # r"
  using assms by (auto simp: numeral_eq_Suc Suc_le_length_iff)

lemma char_code_less: "char_code c < 256"
  by (metis char_of_mod_256 mod_less_divisor of_char_of of_char_mod_256 zero_less_numeral) 

lemma char_code_eq_iff: "c = d \<longleftrightarrow> char_code c = char_code d"
  by simp

lemma char_code_char_of: "n < 256 \<Longrightarrow> char_code (char_of n) = n"
  by (simp add: of_char_of)

lemma char_code_tolower:
  "char_code (c_tolower c) =
     (if 65 \<le> char_code c \<and> char_code c \<le> 90 then char_code c + 32 else char_code c)"
  by (simp add: c_tolower_def char_code_char_of)

lemma char_code_lower_digit: "n < 16 \<Longrightarrow> char_code (lower_digit n) = (if n < 10 then 48 + n else 87 + n)"
  by (simp add: lower_digit_def char_code_char_of)

lemma hex_value_code:
  "hex_value c =
     (let n = char_code (c_tolower c)
      in if 48 \<le> n \<and> n \<le> 57 then int n - 48
         else if 97 \<le> n \<and> n \<le> 102 then int n - 87 else -1)"
  by (auto simp: hex_value_def char_code_tolower Let_def)

lemma hex_value_less: "hex_value c < 16"
  by (simp add: hex_value_code Let_def)

lemma lower_digit_eq_iff:
  assumes "n < 16"
  shows "c_tolower c = lower_digit n \<longleftrightarrow> hex_value c = int n"
  unfolding char_code_eq_iff hex_value_code char_code_lower_digit [OF assms] Let_def
  using assms by auto

lemma c_tolower_colon [simp]: "c_tolower c = CHR '':'' \<longleftrightarrow> c = CHR '':''"
  unfolding char_code_eq_iff char_code_tolower by auto

lemma nibbles:
  fixes b :: u8
  assumes "0 \<le> h" "h < 16" "0 \<le> l" "l < 16"
  shows "b = word_of_int (push_bit 4 h OR l) \<longleftrightarrow> h = int (unat b div 16) \<and> l = int (unat b mod 16)"
proof -
  from assms(3,4) have l: "take_bit 4 l = l" by (simp add: take_bit_eq_mod)
  have "push_bit 4 h OR take_bit 4 l = push_bit 4 h + take_bit 4 l"
    by (rule disjunctive_add_eq_or [symmetric])
      (auto simp: bit_eq_iff bit_simps)
  with l have eq: "push_bit 4 h OR l = 16 * h + l"
    by (simp add: push_bit_eq_mult)
  have "b = word_of_int (16 * h + l) \<longleftrightarrow> uint b = 16 * h + l"
  proof (rule iffI)
    assume "b = word_of_int (16 * h + l)"
    then have "uint b = uint (word_of_int (16 * h + l) :: u8)" by (simp only:)
    also have "\<dots> = take_bit 8 (16 * h + l)" by (simp only: uint_word_of_int_eq) simp
    finally have "uint b = (16 * h + l) mod 256" by (simp add: take_bit_eq_mod)
    with assms show "uint b = 16 * h + l" by (simp only: mod_pos_pos_trivial)
  next
    assume "uint b = 16 * h + l"
    then show "b = word_of_int (16 * h + l)" by (simp only: word_of_int_uint flip: \<open>uint b = 16 * h + l\<close>)
  qed
  moreover have "uint b = int (unat b)" by simp
  moreover have "int (unat b) = 16 * h + l \<longleftrightarrow> h = int (unat b div 16) \<and> l = int (unat b mod 16)"
    using assms by (auto simp: zdiv_int zmod_int)
  ultimately show ?thesis unfolding eq by (simp only:)
qed

lemma byte_text_iff:
  "map c_tolower [c0, c1] = byte_text lower_digit b \<longleftrightarrow>
   0 \<le> hex_value c0 \<and> 0 \<le> hex_value c1 \<and> b = word_of_int (push_bit 4 (hex_value c0) OR hex_value c1)"
proof -
  have lt: "unat b div 16 < 16" using unsigned_less [of b, where 'a = nat] by simp
  have "map c_tolower [c0, c1] = byte_text lower_digit b \<longleftrightarrow>
        hex_value c0 = int (unat b div 16) \<and> hex_value c1 = int (unat b mod 16)"
    using lower_digit_eq_iff [OF lt] lower_digit_eq_iff [of "unat b mod 16"] by (simp add: byte_text_def)
  also have "\<dots> \<longleftrightarrow> 0 \<le> hex_value c0 \<and> 0 \<le> hex_value c1 \<and>
      b = word_of_int (push_bit 4 (hex_value c0) OR hex_value c1)"
    using nibbles [of "hex_value c0" "hex_value c1" b] hex_value_less
    by (smt (verit) of_nat_0_le_iff)
  finally show ?thesis .
qed

lemma address_text_Cons2 [simp]:
  "bs \<noteq> [] \<Longrightarrow> address_text dg (b # bs) = byte_text dg b @ CHR '':'' # address_text dg bs"
  by (cases bs) simp_all

lemma take_Suc_update_iff:
  assumes "length b = length a" and "i < length a"
  shows "take (Suc i) b = take (Suc i) (a[i := x]) \<longleftrightarrow> take i b = take i a \<and> b ! i = x"
  using assms by (simp add: take_Suc_conv_app_nth)

lemma parse_address_loop_iff:
  "k + i = 5 \<Longrightarrow> 3 * k + 3 \<le> length tx \<Longrightarrow> length a = 6 \<Longrightarrow>
   parse_address_loop (Suc k) i tx a = Some (True, b) \<longleftrightarrow>
     length b = 6 \<and> take i b = take i a \<and>
     map c_tolower (take (3 * k + 2) tx) = address_text lower_digit (drop i b) \<and>
     tx ! (3 * k + 2) = NUL"
proof (induction k arbitrary: i tx a)
  case 0
  then obtain c0 c1 c2 r where tx: "tx = c0 # c1 # c2 # r"
    by (auto simp: numeral_eq_Suc Suc_le_length_iff)
  let ?x = "word_of_int (push_bit 4 (hex_value c0) OR hex_value c1) :: u8"
  have "parse_address_loop (Suc 0) i tx a = Some (True, b) \<longleftrightarrow>
      0 \<le> hex_value c0 \<and> 0 \<le> hex_value c1 \<and> c2 = NUL \<and> b = a[i := ?x]"
    using tx 0 by (auto simp: Let_def)
  also have "b = a[i := ?x] \<longleftrightarrow> length b = 6 \<and> take (Suc i) b = take (Suc i) (a[i := ?x])"
    using 0 by auto
  also have "\<dots> \<longleftrightarrow> length b = 6 \<and> take i b = take i a \<and> b ! i = ?x"
    using take_Suc_update_iff [of b a i ?x] 0 by auto
  finally have "parse_address_loop (Suc 0) i tx a = Some (True, b) \<longleftrightarrow>
      length b = 6 \<and> take i b = take i a \<and> c2 = NUL \<and>
      map c_tolower [c0, c1] = byte_text lower_digit (b ! i)"
    unfolding byte_text_iff by auto
  moreover have "length b = 6 \<Longrightarrow> drop i b = [b ! i]"
    using 0 Cons_nth_drop_Suc [of i b] by simp
  ultimately show ?case using tx by auto
next
  case (Suc k)
  then obtain c0 c1 c2 r where tx: "tx = c0 # c1 # c2 # r" "3 * k + 3 \<le> length r"
    by (auto simp: numeral_eq_Suc Suc_le_length_iff)
  let ?x = "word_of_int (push_bit 4 (hex_value c0) OR hex_value c1) :: u8"
  have "parse_address_loop (Suc (Suc k)) i tx a = Some (True, b) \<longleftrightarrow>
      0 \<le> hex_value c0 \<and> 0 \<le> hex_value c1 \<and> c2 = CHR '':'' \<and>
      parse_address_loop (Suc k) (Suc i) r (a[i := ?x]) = Some (True, b)"
    using tx Suc.prems by (auto simp: Let_def simp del: parse_address_loop.simps(2)
        simp add: parse_address_loop.simps(2) [of "Suc k"])
  also have "parse_address_loop (Suc k) (Suc i) r (a[i := ?x]) = Some (True, b) \<longleftrightarrow>
      length b = 6 \<and> take i b = take i a \<and> b ! i = ?x \<and>
      map c_tolower (take (3 * k + 2) r) = address_text lower_digit (drop (Suc i) b) \<and>
      r ! (3 * k + 2) = NUL"
    using Suc.IH [of "Suc i" r "a[i := ?x]"] take_Suc_update_iff [of b a i ?x] Suc.prems tx(2)
    by auto
  finally have "parse_address_loop (Suc (Suc k)) i tx a = Some (True, b) \<longleftrightarrow>
      length b = 6 \<and> take i b = take i a \<and> c2 = CHR '':'' \<and>
      map c_tolower [c0, c1] = byte_text lower_digit (b ! i) \<and>
      map c_tolower (take (3 * k + 2) r) = address_text lower_digit (drop (Suc i) b) \<and>
      r ! (3 * k + 2) = NUL"
    unfolding byte_text_iff by auto
  moreover have "length b = 6 \<Longrightarrow> drop i b = b ! i # drop (Suc i) b \<and> drop (Suc i) b \<noteq> []"
    using Suc.prems Cons_nth_drop_Suc [of i b] by simp
  moreover have "3 * Suc k + 2 = Suc (Suc (Suc (3 * k + 2)))" by simp
  then have "take (3 * Suc k + 2) tx = c0 # c1 # c2 # take (3 * k + 2) r"
      "tx ! (3 * Suc k + 2) = r ! (3 * k + 2)"
    using tx by (simp_all only: take_Suc_Cons nth_Cons_Suc)
  ultimately show ?case by (auto simp: byte_text_def)
qed

lemma parse_address_iff:
  assumes "18 \<le> length tx" and "length a = 6"
  shows "parse_address tx a = Some (True, b) \<longleftrightarrow>
    length b = 6 \<and> map c_tolower (take 17 tx) = address_text lower_digit b \<and> tx ! 17 = NUL"
proof -
  have six: "(6::nat) = Suc 5" by simp
  show ?thesis
    using parse_address_loop_iff [of 5 0 tx a b] assms
    unfolding parse_address_def six [symmetric] by (simp del: parse_address_loop.simps)
qed

lemma length_connect: "length ''connect '' = 8"
  by simp

lemma connect_prefix:
  assumes "length (trim_right l) = 25"
  shows "c_strncmp_eq (l @ r) (''connect '' @ [NUL]) 8 = Some (take 8 (trim_right l) = ''connect '')"
    and "25 \<le> length l"
proof -
  from trim_right_prefix [of l] obtain u where u: "l = trim_right l @ u" by (auto simp: prefix_def)
  show len: "25 \<le> length l" using assms arg_cong [OF u, of length] by simp
  have "take 8 (l @ r) = take 8 ((trim_right l @ u) @ r)" using u by (simp only:)
  also have "\<dots> = take 8 (trim_right l)" using assms by simp
  finally have "take 8 (l @ r) = take 8 (trim_right l)" .
  then show "c_strncmp_eq (l @ r) (''connect '' @ [NUL]) 8 = Some (take 8 (trim_right l) = ''connect '')"
    using strncmp_literal [of "''connect ''" "l @ r", unfolded length_connect] len
    by (simp del: take_append)
qed

lemma parse_string_spec:
  assumes nul: "NUL \<notin> set s"
  shows "control_command_parse (Some (s @ NUL # rest)) = Some (command_spec s)"
proof -
  define l where "l = dropWhile blank s"
  define t where "t = trim_right l"
  have nul': "NUL \<notin> set l" using nul by (auto simp: l_def dest: set_dropWhileD)
  have kw: "NUL \<notin> set w \<Longrightarrow> is_keyword (l @ NUL # rest) (length t) w = Some (t = w)" for w
    unfolding t_def by (rule is_keyword_string)
  have trim: "trim_length (l @ NUL # rest) (length l) = length t"
    by (simp add: t_def trim_length_string)
  have pre: "length t = 25 \<Longrightarrow>
      c_strncmp_eq (l @ NUL # rest) (''connect '' @ [NUL]) 8 = Some (take 8 t = ''connect '')"
    unfolding t_def by (rule connect_prefix(1))
  have addr: "length t = 25 \<Longrightarrow>
      parse_address (drop 8 (l @ NUL # rest)) a = parse_address (drop 8 l @ [NUL]) a \<and>
      parse_address (drop 8 l @ [NUL]) a \<noteq> None" for a
    using parse_address_local(1) [of "drop 8 l @ [NUL]" rest a]
      parse_address_local(2) [of "drop 8 l @ [NUL]" a] connect_prefix(2) [of l]
    by (simp add: t_def)
  show ?thesis
  proof (cases "length t = 25 \<and> take 8 t = ''connect ''")
    case True
    then show ?thesis 
      using kw [where w = "''help''"] kw [where w = "''status''"] kw [where w = "''scan''"] kw [where w = "''disconnect''"]
        kw [where w = "''reconnect''"] kw [where w = "''forget''"] pre addr [of "replicate 6 0"]
      by (auto simp: control_command_parse_def command_spec_def Let_def skip_blanks_string
          c_strlen_string nul' trim simp del: drop_append simp flip: l_def t_def
          split: option.splits bool.splits)
  next
    case False
    then show ?thesis
      using kw [where w = "''help''"] kw [where w = "''status''"] kw [where w = "''scan''"]
        kw [where w = "''disconnect''"] kw [where w = "''reconnect''"] kw [where w = "''forget''"] pre
      by (auto simp: control_command_parse_def command_spec_def Let_def skip_blanks_string
          c_strlen_string nul' trim simp del: drop_append simp flip: l_def t_def
          split: option.splits bool.splits)
  qed
qed


lemma trim_right_no_blank: "s \<noteq> [] \<Longrightarrow> \<not> blank (last s) \<Longrightarrow> trim_right s = s"
  by (cases s rule: rev_cases) simp_all

lemma address_text_eq_Nil [simp]: "address_text dg b = [] \<longleftrightarrow> b = []"
  by (induction dg b rule: address_text.induct) (simp_all add: byte_text_def)

lemma address_text_last:
  "b \<noteq> [] \<Longrightarrow> \<exists>n<16. last (address_text lower_digit b) = lower_digit n"
proof (induction "lower_digit" b rule: address_text.induct)
  case (2 b)
  have "unat b mod 16 < 16" by simp
  then show ?case by (intro exI [of _ "unat b mod 16"]) (simp add: byte_text_def)
qed simp_all

lemma blank_lower_digit: "n < 16 \<Longrightarrow> c_tolower c = lower_digit n \<Longrightarrow> \<not> blank c"
  by (auto simp: char_code_lower_digit char_code_tolower char_code_eq_iff blank_def split: if_splits)

lemma address_like_last:
  assumes "map c_tolower t = address_text lower_digit b" and "length b = 6"
  shows "length t = 17" and "t \<noteq> []" and "\<not> blank (last t)"
proof -
  from assms(2) have ne: "b \<noteq> []" by auto
  have "length (map c_tolower t) = 17"
    unfolding assms(1) using length_address_text [OF ne, of lower_digit] assms(2) by simp
  then show len: "length t = 17" by simp
  then show tne: "t \<noteq> []" by auto
  from address_text_last [OF ne] obtain n where n: "n < 16" "last (map c_tolower t) = lower_digit n"
    unfolding assms(1) by blast
  with tne blank_lower_digit show "\<not> blank (last t)" by (auto simp: last_map)
qed

lemma command_spec_connect_iff:
  assumes nul: "NUL \<notin> set s"
  shows "command_spec s = (True, \<lparr>cmd_type = CONTROL_COMMAND_CONNECT, cmd_address = b\<rparr>) \<longleftrightarrow>
    length b = 6 \<and>
    (\<exists>w t. s = w @ ''connect '' @ t \<and> (\<forall>c \<in> set w. blank c) \<and>
           map c_tolower t = address_text lower_digit b)"
    (is "?lhs \<longleftrightarrow> ?rhs")
proof
  assume ?lhs
  let ?l = "dropWhile blank s"
  from \<open>?lhs\<close> have len: "length (trim_right ?l) = 25" and pre: "take 8 (trim_right ?l) = ''connect ''"
    and addr: "parse_address (drop 8 ?l @ [NUL]) (replicate 6 0) = Some (True, b)"
    by (auto simp: command_spec_def Let_def split: if_splits option.splits bool.splits)
  from trim_right_prefix [of ?l] obtain u where u: "?l = trim_right ?l @ u" by (auto simp: prefix_def)
  from connect_prefix(2) [OF len] have ll: "25 \<le> length ?l" .
  have "take 8 ?l = take 8 (trim_right ?l @ u)" using u by (simp only:)
  with len pre have pre': "take 8 ?l = ''connect ''" by simp
  let ?t = "drop 8 ?l"
  from ll have lt: "17 \<le> length ?t" by simp
  from parse_address_iff [of "?t @ [NUL]" "replicate 6 0" b] addr lt
  have b: "length b = 6" "map c_tolower (take 17 ?t) = address_text lower_digit b"
    and z: "(?t @ [NUL]) ! 17 = NUL" by simp_all
  have "NUL \<notin> set ?t" using nul by (auto dest: in_set_dropD set_dropWhileD)
  moreover have "17 < length ?t \<Longrightarrow> NUL \<in> set ?t"
    using z nth_mem [of 17 ?t] by (simp add: nth_append)
  ultimately have "length ?t = 17" using lt by force
  with b have t: "map c_tolower ?t = address_text lower_digit b" by simp
  have "?l = take 8 ?l @ ?t" by (simp only: append_take_drop_id)
  then have "s = takeWhile blank s @ ''connect '' @ ?t"
    unfolding pre' using takeWhile_dropWhile_id [of blank s] by simp
  with t b(1) show ?rhs by (blast dest: set_takeWhileD)
next
  assume ?rhs
  then obtain w t where s: "s = w @ ''connect '' @ t" and w: "\<forall>c \<in> set w. blank c"
    and t: "map c_tolower t = address_text lower_digit b" and b: "length b = 6" by blast
  note t' = address_like_last [OF t b]
  from s w have l: "dropWhile blank s = ''connect '' @ t"
    by (simp add: dropWhile_append blank_def)
  have tr: "trim_right (''connect '' @ t) = ''connect '' @ t"
    by (rule trim_right_no_blank) (use t' in simp_all)
  have "parse_address (t @ [NUL]) (replicate 6 0) = Some (True, b)"
    using parse_address_iff [of "t @ [NUL]" "replicate 6 0" b] t t' b by (simp add: nth_append)
  then show ?lhs
    unfolding command_spec_def Let_def l tr using t'(1) by simp
qed

lemma upper_lower_digit: "n < 16 \<Longrightarrow> c_tolower (upper_digit n) = lower_digit n"
  by (simp add: lower_digit_eq_iff)

lemma address_text_upper_lower:
  "map c_tolower (address_text upper_digit b) = address_text lower_digit b"
proof (induction upper_digit b rule: address_text.induct)
  case (2 b)
  have "unat b div 16 < 16" using unsigned_less [of b, where 'a = nat] by simp
  then show ?case by (simp add: byte_text_def upper_lower_digit)
next
  case (3 b b' bs)
  have "unat b div 16 < 16" using unsigned_less [of b, where 'a = nat] by simp
  with 3 show ?case by (simp add: byte_text_def upper_lower_digit)
qed simp

lemma hex_digit_not_NUL: "c_tolower c = lower_digit n \<Longrightarrow> n < 16 \<Longrightarrow> c \<noteq> NUL"
  by (auto simp: char_code_lower_digit char_code_tolower char_code_eq_iff split: if_splits)

lemma byte_digits_not_NUL:
  "upper_digit (unat (b :: u8) div 16) \<noteq> NUL" "upper_digit (unat b mod 16) \<noteq> NUL"
proof -
  have "unat b div 16 < 16" using unsigned_less [of b, where 'a = nat] by simp
  then show "upper_digit (unat b div 16) \<noteq> NUL"
    using hex_digit_not_NUL [OF upper_lower_digit] by blast
  show "upper_digit (unat b mod 16) \<noteq> NUL"
    using hex_digit_not_NUL [OF upper_lower_digit, of "unat b mod 16"] by simp
qed

lemma address_text_upper_no_NUL: "NUL \<notin> set (address_text upper_digit b)"
proof (induction upper_digit b rule: address_text.induct)
  case (2 b)
  from byte_digits_not_NUL [of b] show ?case by (auto simp: byte_text_def)
next
  case (3 b b' bs)
  from 3 byte_digits_not_NUL [of b] show ?case by (auto simp: byte_text_def)
qed simp

section \<open>Properties\<close>

text \<open>
  The command parser reads nothing outside the C string it is given, whatever bytes follow the
  terminator, and what it returns is the value of \<open>command_spec\<close>: leading and trailing blanks are
  ignored around the six keywords, which must match exactly.
\<close>

theorem control_parse_c_string:
  "NUL \<notin> set s \<Longrightarrow> control_command_parse (Some (s @ NUL # rest)) = Some (command_spec s)"
  by (rule parse_string_spec)

theorem control_parse_c_string_witness:
  "control_command_parse (Some (''  scan '' @ NUL # ''junk'')) =
     Some (True, \<lparr>cmd_type = CONTROL_COMMAND_SCAN, cmd_address = replicate 6 0\<rparr>)"
  using control_parse_c_string [of "''  scan ''" "''junk''"]
  by (simp add: command_spec_def trim_right_def blank_def Let_def)

text \<open>
  C36. A line is the command to connect to \<open>b\<close> exactly when it is blanks, the word connect, one
  space and the address in colon notation, in either case of the letters, and nothing more: unlike
  the keywords, a connect command with a trailing blank is refused.
\<close>

theorem control_parse_connect_iff:
  assumes "NUL \<notin> set s"
  shows "control_command_parse (Some (s @ NUL # rest)) =
           Some (True, \<lparr>cmd_type = CONTROL_COMMAND_CONNECT, cmd_address = b\<rparr>) \<longleftrightarrow>
         length b = 6 \<and>
         (\<exists>w t. s = w @ ''connect '' @ t \<and> (\<forall>c \<in> set w. blank c) \<and>
                map c_tolower t = address_text lower_digit b)"
  unfolding parse_string_spec [OF assms] option.inject by (rule command_spec_connect_iff [OF assms])

theorem control_parse_connect_iff_witness:
  "control_command_parse (Some (''connect 0a:1B:2c:3D:4e:5F'' @ NUL # [])) =
     Some (True, \<lparr>cmd_type = CONTROL_COMMAND_CONNECT, cmd_address = [0x0A, 0x1B, 0x2C, 0x3D, 0x4E, 0x5F]\<rparr>)"
proof -
  have "map c_tolower ''0a:1B:2c:3D:4e:5F'' = address_text lower_digit [0x0A, 0x1B, 0x2C, 0x3D, 0x4E, 0x5F]"
    by code_simp
  moreover have "''connect 0a:1B:2c:3D:4e:5F'' = [] @ ''connect '' @ ''0a:1B:2c:3D:4e:5F''" by simp
  moreover have "\<forall>c \<in> set []. blank c" and "length [0x0A, 0x1B, 0x2C, 0x3D, 0x4E, 0x5F :: u8] = 6"
    and "NUL \<notin> set ''connect 0a:1B:2c:3D:4e:5F''" by simp_all
  ultimately show ?thesis using control_parse_connect_iff by blast
qed

text \<open>
  Round trip: the address that the firmware prints in upper case is read back as the same six
  bytes by the connect command.
\<close>

theorem connect_address_roundtrip:
  assumes "length b = 6"
  shows "control_command_parse (Some (''connect '' @ address_text upper_digit b @ [NUL])) =
         Some (True, \<lparr>cmd_type = CONTROL_COMMAND_CONNECT, cmd_address = b\<rparr>)"
proof -
  let ?s = "''connect '' @ address_text upper_digit b"
  have nul: "NUL \<notin> set ?s" using address_text_upper_no_NUL by simp
  have "?s = [] @ ''connect '' @ address_text upper_digit b \<and> (\<forall>c \<in> set []. blank c) \<and>
      map c_tolower (address_text upper_digit b) = address_text lower_digit b"
    by (simp add: address_text_upper_lower)
  then have "command_spec ?s = (True, \<lparr>cmd_type = CONTROL_COMMAND_CONNECT, cmd_address = b\<rparr>)"
    using command_spec_connect_iff [OF nul, of b] assms by blast
  then show ?thesis using parse_string_spec [OF nul, of "[]"] by simp
qed

theorem connect_address_roundtrip_witness:
  "control_command_parse (Some (''connect 00:FF:10:0A:A0:7E'' @ [NUL])) =
     Some (True, \<lparr>cmd_type = CONTROL_COMMAND_CONNECT, cmd_address = [0, 0xFF, 0x10, 0x0A, 0xA0, 0x7E]\<rparr>)"
proof -
  have "address_text upper_digit [0, 0xFF, 0x10, 0x0A, 0xA0, 0x7E] = ''00:FF:10:0A:A0:7E''" by code_simp
  with connect_address_roundtrip [of "[0, 0xFF, 0x10, 0x0A, 0xA0, 0x7E]"] show ?thesis
    by (simp del: address_text.simps address_text_Cons2)
qed

end
