(* ===== verification/Hid_Boot_Report.thy ===== *)
theory Hid_Boot_Report
  imports Prelude
begin

unbundle bit_operations_syntax

text \<open>
  \<open>src/bt/hid_boot_report.c\<close>: validation and parsing of HIDP boot-keyboard input packets and the
  LED output packet. \<open>hid_boot_keyboard_parse_input\<close> takes the packet as the bytes behind the C
  pointer (\<open>None\<close> for \<open>NULL\<close>), the announced size, and the old contents of the out-parameter.
\<close>

section \<open>Definitions\<close>

datatype hid_boot_parse_result =
    HID_BOOT_PARSE_OK
  | HID_BOOT_PARSE_UNSUPPORTED
  | HID_BOOT_PARSE_INVALID

record hid_boot_keyboard_report =
  br_report_id :: u8
  br_modifier :: u8
  br_keycodes :: "u8 list"

definition error_usage :: "u8 \<Rightarrow> bool" where
  "error_usage keycode \<longleftrightarrow> 1 \<le> keycode \<and> keycode \<le> 3"

definition hid_boot_keyboard_report_valid :: "u8 list \<Rightarrow> bool" where
  "hid_boot_keyboard_report_valid report =
     (if report ! 1 \<noteq> 0 then False
      else
        (let (contains_error_usage, all_same_error_usage) =
               foldl (\<lambda>(err, same) i.
                        (let keycode = report ! i
                         in (if error_usage keycode then True else err,
                             if keycode \<noteq> report ! 2 then False else same)))
                     (False, error_usage (report ! 2)) [2..<8]
         in \<not> contains_error_usage \<or> all_same_error_usage))"

definition hid_boot_keyboard_parse_input ::
    "u8 list option \<Rightarrow> nat \<Rightarrow> hid_boot_keyboard_report \<Rightarrow>
     (hid_boot_parse_result \<times> hid_boot_keyboard_report) option" where
  "hid_boot_keyboard_parse_input packet sz report =
     (case packet of
        None \<Rightarrow> Some (HID_BOOT_PARSE_UNSUPPORTED, report)
      | Some p \<Rightarrow>
          if sz \<noteq> 9 \<and> sz \<noteq> 10 then Some (HID_BOOT_PARSE_UNSUPPORTED, report)
          else do {
            header \<leftarrow> byte_at p 0;
            if header \<noteq> 0xa1 then Some (HID_BOOT_PARSE_UNSUPPORTED, report)
            else do {
              (report, boot_report) \<leftarrow>
                (if sz = 10 then do {
                   rid \<leftarrow> byte_at p 1;
                   bytes \<leftarrow> slice_at p 2 8;
                   Some (report\<lparr>br_report_id := rid\<rparr>, bytes)
                 } else do {
                   bytes \<leftarrow> slice_at p 1 8;
                   Some (report\<lparr>br_report_id := 0\<rparr>, bytes)
                 });
              if \<not> hid_boot_keyboard_report_valid boot_report
              then Some (HID_BOOT_PARSE_INVALID, report)
              else Some (HID_BOOT_PARSE_OK,
                report\<lparr>br_modifier := boot_report ! 0,
                       br_keycodes := take 6 (drop 2 boot_report)\<rparr>)
            }
          })"

definition hid_boot_keyboard_output_packet :: "u8 \<Rightarrow> u8 \<times> u8 list" where
  "hid_boot_keyboard_output_packet leds = (2, [0xa2, leds AND 0x1f])"

section \<open>Lemmas\<close>

text \<open>What the validation loop computes: no error usage among the six key slots, or the same error
  usage in all of them (the rollover report).\<close>

definition keycodes_acceptable :: "u8 list \<Rightarrow> bool" where
  "keycodes_acceptable ks \<longleftrightarrow>
     (\<forall>k \<in> set ks. \<not> error_usage k) \<or> (\<exists>e. error_usage e \<and> ks = replicate (length ks) e)"

lemma validation_loop:
  "foldl (\<lambda>(err, same) i. (if P (f i) then True else err, if f i \<noteq> c then False else same))
     (e0, s0) is = (e0 \<or> (\<exists>i \<in> set is. P (f i)), s0 \<and> (\<forall>i \<in> set is. f i = c))"
  by (induction "is" arbitrary: e0 s0) auto

lemma length_8_cases:
  assumes "length xs = 8"
  obtains a b c d e f g h where "xs = [a, b, c, d, e, f, g, h]"
  using assms by (auto simp: numeral_eq_Suc length_Suc_conv)

lemma report_valid_iff:
  assumes "length report = 8"
  shows "hid_boot_keyboard_report_valid report \<longleftrightarrow>
         report ! 1 = 0 \<and> keycodes_acceptable (drop 2 report)"
proof -
  obtain m r a b c d e f where rep: "report = [m, r, a, b, c, d, e, f]"
    using assms by (rule length_8_cases)
  have "set [2..<8] = {2, 3, 4, 5, 6, 7::nat}" by auto
  then show ?thesis
    by (auto simp: rep hid_boot_keyboard_report_valid_def Let_def validation_loop
        keycodes_acceptable_def)
qed

lemma keycodes_acceptable_no_error:
  "\<forall>k \<in> set ks. k = 0 \<or> 3 < k \<Longrightarrow> keycodes_acceptable ks"
  unfolding keycodes_acceptable_def error_usage_def by fastforce

lemma parse_total: "\<exists>res r. hid_boot_keyboard_parse_input (Some p) (length p) old = Some (res, r)"
  by (auto simp: hid_boot_keyboard_parse_input_def slice_at_def array_at_def)

lemma parse_ok_iff:
  assumes "length p = sz"
  shows "hid_boot_keyboard_parse_input (Some p) sz old = Some (HID_BOOT_PARSE_OK, r) \<longleftrightarrow>
    length (br_keycodes r) = 6 \<and> keycodes_acceptable (br_keycodes r) \<and>
    hid_boot_keyboard_report.more r = hid_boot_keyboard_report.more old \<and>
    (p = [0xa1, br_report_id r, br_modifier r, 0] @ br_keycodes r \<or>
     p = [0xa1, br_modifier r, 0] @ br_keycodes r \<and> br_report_id r = 0)"
proof -
  consider (nine) "sz = 9" | (ten) "sz = 10" | (other) "sz \<noteq> 9 \<and> sz \<noteq> 10" by auto
  then show ?thesis
  proof cases
    case nine
    with assms obtain h m z a b c d e f where p: "p = [h, m, z, a, b, c, d, e, f]"
      by (auto simp: numeral_eq_Suc length_Suc_conv)
    show ?thesis
      by (cases r; cases old)
        (auto simp: p nine hid_boot_keyboard_parse_input_def report_valid_iff)
  next
    case ten
    with assms obtain h i m z a b c d e f where p: "p = [h, i, m, z, a, b, c, d, e, f]"
      by (auto simp: numeral_eq_Suc length_Suc_conv)
    show ?thesis
      by (cases r; cases old)
        (auto simp: p ten hid_boot_keyboard_parse_input_def report_valid_iff)
  next
    case other
    with assms show ?thesis by (auto simp: hid_boot_keyboard_parse_input_def)
  qed
qed

section \<open>Properties\<close>

text \<open>
  The parser never reads outside the packet: given at least the announced number of bytes it
  returns a verdict, for every size and every content.
\<close>

theorem boot_parse_memory_safe:
  assumes "\<And>p. packet = Some p \<Longrightarrow> sz \<le> length p"
  shows "hid_boot_keyboard_parse_input packet sz report \<noteq> None"
  using assms
  by (cases packet) (auto simp: hid_boot_keyboard_parse_input_def slice_at_def array_at_def)

theorem boot_parse_memory_safe_witness:
  "hid_boot_keyboard_parse_input (Some [0xa1, 0, 0, 4, 0, 0, 0, 0, 0]) 9
     \<lparr>br_report_id = 0, br_modifier = 0, br_keycodes = []\<rparr> \<noteq> None"
  by (rule boot_parse_memory_safe) simp

text \<open>
  C9. Exactly the well-formed packets are accepted: the header 0xa1, a report ID when the packet has
  ten bytes (0 otherwise), the modifier, a zero reserved byte and six acceptable key slots; and the
  accepted report carries precisely these fields.
\<close>

theorem boot_parse_ok_iff:
  assumes "length p = sz"
  shows "hid_boot_keyboard_parse_input (Some p) sz old = Some (HID_BOOT_PARSE_OK, r) \<longleftrightarrow>
    length (br_keycodes r) = 6 \<and> keycodes_acceptable (br_keycodes r) \<and>
    hid_boot_keyboard_report.more r = hid_boot_keyboard_report.more old \<and>
    (p = [0xa1, br_report_id r, br_modifier r, 0] @ br_keycodes r \<or>
     p = [0xa1, br_modifier r, 0] @ br_keycodes r \<and> br_report_id r = 0)"
  by (rule parse_ok_iff [OF assms])

theorem boot_parse_ok_iff_witness:
  "hid_boot_keyboard_parse_input (Some [0xa1, 1, 2, 0, 4, 5, 0, 0, 0, 0]) 10
     \<lparr>br_report_id = 0, br_modifier = 0, br_keycodes = []\<rparr> =
   Some (HID_BOOT_PARSE_OK,
     \<lparr>br_report_id = 1, br_modifier = 2, br_keycodes = [4, 5, 0, 0, 0, 0]\<rparr>)"
  by (subst boot_parse_ok_iff)
    (simp_all add: keycodes_acceptable_def error_usage_def)

end
