(* ===== verification/Hid_Channels.thy ===== *)
theory Hid_Channels
  imports Prelude
begin

unbundle bit_operations_syntax

text \<open>
  \<open>src/bt/hid_channels.c\<close>: the HID Control and Interrupt channel identifiers, the Boot Protocol
  request that is owed to a freshly opened control channel, and the keyboard LED state, which
  outlives a connection.
\<close>

section \<open>Data and operations\<close>

record HidChannels =
  hc_control_cid :: u16
  hc_interrupt_cid :: u16
  hc_control_open :: bool
  hc_interrupt_open :: bool
  hc_boot_protocol_request_pending :: bool
  hc_led_state :: u8
  hc_led_report_pending :: bool
  hc_led_can_send_requested :: bool

definition HID_CHANNEL_CLOSED_NONE :: u8 where "HID_CHANNEL_CLOSED_NONE = 0"
definition HID_CHANNEL_CLOSED_CONTROL :: u8 where "HID_CHANNEL_CLOSED_CONTROL = 1"
definition HID_CHANNEL_CLOSED_INTERRUPT :: u8 where "HID_CHANNEL_CLOSED_INTERRUPT = 2"

lemmas closed_flag_defs =
  HID_CHANNEL_CLOSED_NONE_def HID_CHANNEL_CLOSED_CONTROL_def HID_CHANNEL_CLOSED_INTERRUPT_def

definition hid_channels_init :: HidChannels where
  "hid_channels_init =
     \<lparr>hc_control_cid = 0, hc_interrupt_cid = 0, hc_control_open = False,
      hc_interrupt_open = False, hc_boot_protocol_request_pending = False,
      hc_led_state = 0, hc_led_report_pending = False, hc_led_can_send_requested = False\<rparr>"

definition hid_channels_reset_connection :: "HidChannels \<Rightarrow> HidChannels" where
  "hid_channels_reset_connection channels =
     channels\<lparr>hc_control_cid := 0, hc_interrupt_cid := 0, hc_control_open := False,
              hc_interrupt_open := False, hc_boot_protocol_request_pending := False,
              hc_led_can_send_requested := False\<rparr>"

definition hid_channels_control_opened :: "HidChannels \<Rightarrow> u16 \<Rightarrow> HidChannels" where
  "hid_channels_control_opened channels cid =
     channels\<lparr>hc_control_cid := cid, hc_control_open := True,
              hc_boot_protocol_request_pending := True\<rparr>"

definition hid_channels_interrupt_opened :: "HidChannels \<Rightarrow> u16 \<Rightarrow> HidChannels" where
  "hid_channels_interrupt_opened channels cid =
     channels\<lparr>hc_interrupt_cid := cid, hc_interrupt_open := True\<rparr>"

definition hid_channels_closed :: "HidChannels \<Rightarrow> u16 \<Rightarrow> u8 \<times> HidChannels" where
  "hid_channels_closed channels cid =
     (let result = HID_CHANNEL_CLOSED_NONE;
          (result, channels) =
            (if cid \<noteq> 0 \<and> cid = hc_control_cid channels
             then (result OR HID_CHANNEL_CLOSED_CONTROL,
                   channels\<lparr>hc_control_cid := 0, hc_control_open := False,
                            hc_boot_protocol_request_pending := False,
                            hc_led_can_send_requested := False\<rparr>)
             else (result, channels));
          (result, channels) =
            (if cid \<noteq> 0 \<and> cid = hc_interrupt_cid channels
             then (result OR HID_CHANNEL_CLOSED_INTERRUPT,
                   channels\<lparr>hc_interrupt_cid := 0, hc_interrupt_open := False\<rparr>)
             else (result, channels))
      in (result, channels))"

definition hid_channels_set_leds :: "HidChannels \<Rightarrow> u8 \<Rightarrow> bool \<times> HidChannels" where
  "hid_channels_set_leds channels leds0 =
     (let leds = leds0 AND 0x1f
      in if hc_led_state channels = leds \<and> \<not> hc_led_report_pending channels
         then (False, channels)
         else (True, channels\<lparr>hc_led_state := leds, hc_led_report_pending := True\<rparr>))"

definition hid_channels_request_led_sync :: "HidChannels \<Rightarrow> HidChannels" where
  "hid_channels_request_led_sync channels = channels\<lparr>hc_led_report_pending := True\<rparr>"

lemmas hid_channels_defs =
  hid_channels_init_def hid_channels_reset_connection_def hid_channels_control_opened_def
  hid_channels_interrupt_opened_def hid_channels_closed_def hid_channels_set_leds_def
  hid_channels_request_led_sync_def

section \<open>Invariant\<close>

text \<open>
  Flags and identifiers agree: work owed to the control channel (the Boot Protocol request, a
  requested send slot) exists only while that channel is open, and the LED state has no bits
  outside the five of the boot report.
\<close>

definition hc_wf :: "HidChannels \<Rightarrow> bool" where
  "hc_wf ch \<longleftrightarrow>
     (hc_boot_protocol_request_pending ch \<longrightarrow> hc_control_open ch) \<and>
     (hc_led_can_send_requested ch \<longrightarrow> hc_control_open ch) \<and>
     hc_led_state ch AND 0x1f = hc_led_state ch"

lemma hc_wf_init [simp]: "hc_wf hid_channels_init"
  by (simp add: hc_wf_def hid_channels_defs)

lemma hc_wf_ops:
  assumes "hc_wf ch"
  shows "hc_wf (hid_channels_reset_connection ch)"
    and "hc_wf (hid_channels_control_opened ch cid)"
    and "hc_wf (hid_channels_interrupt_opened ch cid)"
    and "hc_wf (snd (hid_channels_closed ch cid))"
    and "hc_wf (snd (hid_channels_set_leds ch leds))"
    and "hc_wf (hid_channels_request_led_sync ch)"
  using assms
  by (simp_all add: hc_wf_def hid_channels_defs Let_def and.assoc split: prod.splits)

lemma closed_flags:
  "fst (hid_channels_closed ch cid) AND HID_CHANNEL_CLOSED_INTERRUPT \<noteq> 0 \<longleftrightarrow>
     cid \<noteq> 0 \<and> cid = hc_interrupt_cid ch"
  "fst (hid_channels_closed ch cid) \<noteq> HID_CHANNEL_CLOSED_NONE \<longleftrightarrow>
     cid \<noteq> 0 \<and> (cid = hc_control_cid ch \<or> cid = hc_interrupt_cid ch)"
  by (auto simp: hid_channels_closed_def closed_flag_defs Let_def split: if_splits)

section \<open>Properties\<close>

text \<open>
  A close event with a foreign or zero channel identifier changes nothing and reports nothing;
  the identifier of one of the two channels clears that channel, its pending work and nothing else,
  and the returned flags say which channels were closed.
\<close>

theorem hid_channels_closed_spec:
  "hid_channels_closed ch cid =
     (let c = (cid \<noteq> 0 \<and> cid = hc_control_cid ch);
          i = (cid \<noteq> 0 \<and> cid = hc_interrupt_cid ch)
      in ((if c then 1 else 0) + (if i then 2 else 0),
          ch\<lparr>hc_control_cid := (if c then 0 else hc_control_cid ch),
             hc_control_open := (\<not> c \<and> hc_control_open ch),
             hc_boot_protocol_request_pending := (\<not> c \<and> hc_boot_protocol_request_pending ch),
             hc_led_can_send_requested := (\<not> c \<and> hc_led_can_send_requested ch),
             hc_interrupt_cid := (if i then 0 else hc_interrupt_cid ch),
             hc_interrupt_open := (\<not> i \<and> hc_interrupt_open ch)\<rparr>))"
  by (auto simp: hid_channels_closed_def closed_flag_defs Let_def)

text \<open>
  An LED request from the host is never lost: after \<open>hid_channels_set_leds\<close> either the
  keyboard was already told exactly these five bits and nothing is outstanding, or the new bits are
  recorded and marked for sending; and dropping the connection keeps both.
\<close>

theorem led_state_survives_reconnect:
  "(let (changed, ch') = hid_channels_set_leds ch leds
    in hc_led_state ch' = leds AND 0x1f \<and>
       (changed \<longleftrightarrow> hc_led_report_pending ch') \<and>
       (\<not> changed \<longleftrightarrow> ch' = ch \<and> hc_led_state ch = leds AND 0x1f \<and> \<not> hc_led_report_pending ch) \<and>
       hc_led_state (hid_channels_reset_connection ch') = hc_led_state ch' \<and>
       hc_led_report_pending (hid_channels_reset_connection ch') = hc_led_report_pending ch')"
  by (auto simp: hid_channels_set_leds_def hid_channels_reset_connection_def Let_def)

end
