(* ===== verification/Usb_Keyboard.thy ===== *)
theory Usb_Keyboard
  imports Prelude
begin

unbundle bit_operations_syntax

text \<open>
  \<open>src/usb/hid_keyboard.c\<close>: the queue of boot-keyboard reports waiting for the USB host. TinyUSB is
  a parameter: \<open>ready\<close> is the answer of \<open>tud_hid_ready\<close> and \<open>accepts\<close> that of
  \<open>tud_hid_keyboard_report\<close> for the report it is given. The functions return the messages they
  print beside the new state. A \<open>keycodes\<close> argument is the six-element array of the C signature; it
  is stored whole, as the \<open>memcpy\<close> of six bytes does. The queue is an instance of \<open>dropping_queue\<close>.
\<close>

section \<open>Data and operations\<close>

record keyboard_report =
  kr_modifier :: u8
  kr_keycodes :: "u8 list"

definition KEYBOARD_REPORT_QUEUE_SIZE :: nat where
  "KEYBOARD_REPORT_QUEUE_SIZE = 64"

record usb_keyboard =
  report_queue :: "keyboard_report list"
  report_queue_head :: nat
  report_queue_count :: nat

definition zero_report :: keyboard_report where
  "zero_report = \<lparr>kr_modifier = 0, kr_keycodes = replicate 6 0\<rparr>"

definition usb_keyboard_boot :: usb_keyboard where
  "usb_keyboard_boot =
     \<lparr>report_queue = replicate KEYBOARD_REPORT_QUEUE_SIZE zero_report,
      report_queue_head = 0, report_queue_count = 0\<rparr>"

definition keyboard_send_report ::
    "u8 \<Rightarrow> u8 list \<Rightarrow> usb_keyboard \<Rightarrow> usb_keyboard \<times> log_line list" where
  "keyboard_send_report modifier keycodes k =
     (let (k, log) =
            (if report_queue_count k = KEYBOARD_REPORT_QUEUE_SIZE
             then (k\<lparr>report_queue_head := 0, report_queue_count := 0\<rparr>,
                   [(''[USB] Report queue overflow; stale reports dropped'', [])])
             else (k, []));
          tl_ix = (report_queue_head k + report_queue_count k) mod KEYBOARD_REPORT_QUEUE_SIZE
      in (k\<lparr>report_queue :=
              (report_queue k)[tl_ix := \<lparr>kr_modifier = modifier, kr_keycodes = keycodes\<rparr>],
            report_queue_count := report_queue_count k + 1\<rparr>,
          log))"

definition keyboard_press :: "u8 \<Rightarrow> u8 \<Rightarrow> usb_keyboard \<Rightarrow> usb_keyboard \<times> log_line list" where
  "keyboard_press modifier keycode k =
     keyboard_send_report modifier [keycode, 0, 0, 0, 0, 0] k"

definition keyboard_release :: "usb_keyboard \<Rightarrow> usb_keyboard \<times> log_line list" where
  "keyboard_release k = keyboard_send_report 0 (replicate 6 0) k"

definition keyboard_release_all :: "usb_keyboard \<Rightarrow> usb_keyboard \<times> log_line list" where
  "keyboard_release_all k =
     keyboard_release (k\<lparr>report_queue_head := 0, report_queue_count := 0\<rparr>)"

text \<open>\<open>keyboard_type\<close>; the 10 ms sleep between the two reports has no effect on the queue.\<close>

definition keyboard_type :: "u8 \<Rightarrow> u8 \<Rightarrow> usb_keyboard \<Rightarrow> usb_keyboard \<times> log_line list" where
  "keyboard_type modifier keycode k =
     (let (k, log1) = keyboard_press modifier keycode k;
          (k, log2) = keyboard_release k
      in (k, log1 @ log2))"

text \<open>The part of \<open>hid_keyboard_task\<close> after \<open>tud_task\<close> and \<open>usb_serial_task\<close>: at most one report
  goes to the host, and only a report that TinyUSB took leaves the queue.\<close>

definition hid_keyboard_task_send ::
    "bool \<Rightarrow> (keyboard_report \<Rightarrow> bool) \<Rightarrow> usb_keyboard \<Rightarrow>
     keyboard_report option \<times> usb_keyboard \<times> log_line list" where
  "hid_keyboard_task_send ready accepts k =
     (if report_queue_count k \<noteq> 0 \<and> ready
      then
        (let report = report_queue k ! report_queue_head k
         in if accepts report
            then (Some report,
                  k\<lparr>report_queue_head :=
                      (report_queue_head k + 1) mod KEYBOARD_REPORT_QUEUE_SIZE,
                    report_queue_count := report_queue_count k - 1\<rparr>,
                  [(''[USB] TX mod=%02x keys=%02x,%02x,%02x,%02x,%02x,%02x'',
                    LNum (unat (kr_modifier report)) #
                    map (\<lambda>b. LNum (unat b)) (kr_keycodes report))])
            else (None, k, []))
      else (None, k, []))"

text \<open>\<open>tud_hid_get_report_cb\<close>: no report is returned, whatever the host asks for.\<close>

definition tud_hid_get_report_cb :: "nat \<Rightarrow> nat" where
  "tud_hid_get_report_cb reqlen = 0"

text \<open>\<open>tud_hid_set_report_cb\<close>: the LED bits it passes to \<open>bluetooth_set_keyboard_leds\<close>, if any.
  \<open>output_report\<close> says that the report type is \<open>HID_REPORT_TYPE_OUTPUT\<close>.\<close>

definition tud_hid_set_report_cb ::
    "bool \<Rightarrow> u8 list option \<Rightarrow> nat \<Rightarrow> (u8 option \<times> log_line list) option" where
  "tud_hid_set_report_cb output_report buffer bufsize =
     (case buffer of
        None \<Rightarrow> Some (None, [])
      | Some bytes \<Rightarrow>
          if output_report \<and> 1 \<le> bufsize
          then do {
            b \<leftarrow> byte_at bytes 0;
            let leds = b AND 0x1f;
            Some (Some leds, [(''[USB] LED RX bits=0x%02x'', [LNum (unat leds)])])
          }
          else Some (None, []))"

section \<open>Invariant and contents\<close>

definition kq_wf :: "usb_keyboard \<Rightarrow> bool" where
  "kq_wf k \<longleftrightarrow> length (report_queue k) = KEYBOARD_REPORT_QUEUE_SIZE \<and>
     report_queue_head k < KEYBOARD_REPORT_QUEUE_SIZE \<and>
     report_queue_count k \<le> KEYBOARD_REPORT_QUEUE_SIZE"

definition kq_contents :: "usb_keyboard \<Rightarrow> keyboard_report list" where
  "kq_contents k = ring_contents (report_queue k) (report_queue_head k) (report_queue_count k)"

text \<open>The queue's interface on whole reports.\<close>

definition kq_put :: "usb_keyboard \<Rightarrow> keyboard_report \<Rightarrow> usb_keyboard" where
  "kq_put k r = fst (keyboard_send_report (kr_modifier r) (kr_keycodes r) k)"

definition kq_take :: "usb_keyboard \<Rightarrow> (keyboard_report \<times> usb_keyboard) option" where
  "kq_take k =
     (case hid_keyboard_task_send True (\<lambda>_. True) k of
        (None, _, _) \<Rightarrow> None
      | (Some r, k', _) \<Rightarrow> Some (r, k'))"

lemma queue_size_pos [simp]: "0 < KEYBOARD_REPORT_QUEUE_SIZE"
  by (simp add: KEYBOARD_REPORT_QUEUE_SIZE_def)

lemma kq_boot [simp]: "kq_wf usb_keyboard_boot" "kq_contents usb_keyboard_boot = []"
  by (simp_all add: kq_wf_def kq_contents_def usb_keyboard_boot_def)

lemma length_kq_contents [simp]: "length (kq_contents k) = report_queue_count k"
  by (simp add: kq_contents_def)

lemma send_report_wf: "kq_wf k \<Longrightarrow> kq_wf (fst (keyboard_send_report m ks k))"
  by (auto simp: kq_wf_def keyboard_send_report_def Let_def)

lemma send_report_contents:
  assumes "kq_wf k"
  shows "kq_contents (fst (keyboard_send_report m ks k)) =
    (let r = \<lparr>kr_modifier = m, kr_keycodes = ks\<rparr>
     in if length (kq_contents k) = KEYBOARD_REPORT_QUEUE_SIZE then [r] else kq_contents k @ [r])"
  using assms ring_contents_push [of "report_queue_count k" "report_queue k" "report_queue_head k"]
  by (auto simp: kq_wf_def kq_contents_def keyboard_send_report_def Let_def ring_contents_def)

lemma release_all_wf [simp]: "kq_wf k \<Longrightarrow> kq_wf (fst (keyboard_release_all k))"
  unfolding keyboard_release_all_def keyboard_release_def
  by (rule send_report_wf) (simp add: kq_wf_def)

lemma release_all_contents:
  "kq_wf k \<Longrightarrow> kq_contents (fst (keyboard_release_all k)) = [zero_report]"
  unfolding keyboard_release_all_def keyboard_release_def
  by (subst send_report_contents)
    (simp_all add: kq_wf_def kq_contents_def zero_report_def Let_def KEYBOARD_REPORT_QUEUE_SIZE_def)

lemma kq_take_simps:
  "report_queue_count k = 0 \<Longrightarrow> kq_take k = None"
  "report_queue_count k \<noteq> 0 \<Longrightarrow> kq_take k =
     Some (report_queue k ! report_queue_head k,
       k\<lparr>report_queue_head := (report_queue_head k + 1) mod KEYBOARD_REPORT_QUEUE_SIZE,
         report_queue_count := report_queue_count k - 1\<rparr>)"
  by (simp_all add: kq_take_def hid_keyboard_task_send_def Let_def)

interpretation kq: dropping_queue kq_contents kq_wf kq_take kq_put KEYBOARD_REPORT_QUEUE_SIZE
proof (unfold_locales, goal_cases)
  case (1 k)
  then show ?case by (simp add: kq_take_simps kq_contents_def)
next
  case (2 k x xs)
  then have "report_queue_count k \<noteq> 0"
    by (cases "report_queue_count k") (auto simp: kq_contents_def)
  with 2 show ?case
    by (auto simp: kq_take_simps kq_contents_def kq_wf_def
        ring_contents_pop [of "report_queue_count k"])
next
  case (3 k x)
  then show ?case by (simp add: kq_put_def send_report_wf)
next
  case (4 k x)
  then show ?case by (simp add: kq_put_def send_report_contents)
qed

lemma task_send_contents:
  assumes "kq_wf k" and "hid_keyboard_task_send ready accepts k = (rep, k', lines)"
  shows "kq_wf k' \<and> (case rep of None \<Rightarrow> k' = k | Some r \<Rightarrow> kq_contents k = r # kq_contents k')"
proof (cases rep)
  case None
  with assms show ?thesis by (auto simp: hid_keyboard_task_send_def Let_def split: if_splits)
next
  case (Some r)
  with assms(2) have "kq_take k = Some (r, k')"
    by (auto simp: hid_keyboard_task_send_def kq_take_def Let_def split: if_splits)
  from kq.deq_SomeD [OF assms(1) this] Some show ?thesis by simp
qed

section \<open>Properties\<close>

text \<open>
  C8. The host is never left with a stale key state. However report submissions and successful
  transmissions interleave from start-up, reports reach the host in the order of their submission,
  overflow only ever drops older reports, and once the queue has drained the last report the host
  saw is the last one submitted.
\<close>

theorem usb_reports_ordered_newest_kept:
  assumes "put_run kq_put kq_take ops usb_keyboard_boot = (sent, k)"
  shows "subseq (sent @ kq_contents k) (enqueued ops) \<and>
         (enqueued ops \<noteq> [] \<and> kq_contents k = [] \<longrightarrow> sent \<noteq> [] \<and> last sent = last (enqueued ops))"
  using kq.run_order [OF kq_boot(1) assms] by auto

theorem usb_reports_ordered_newest_kept_witness:
  "\<exists>sent k. put_run kq_put kq_take
      [Enq \<lparr>kr_modifier = 2, kr_keycodes = [4, 0, 0, 0, 0, 0]\<rparr>, Enq zero_report, Deq, Deq]
      usb_keyboard_boot = (sent, k) \<and> kq_contents k = [] \<and> last sent = zero_report"
proof -
  let ?ops = "[Enq \<lparr>kr_modifier = 2, kr_keycodes = [4, 0, 0, 0, 0, 0]\<rparr>, Enq zero_report, Deq, Deq]"
  obtain sent k where run: "put_run kq_put kq_take ?ops usb_keyboard_boot = (sent, k)"
    by (cases "put_run kq_put kq_take ?ops usb_keyboard_boot")
  from run have "kq_contents k = []"
    by (auto simp: kq_take_simps kq_put_def keyboard_send_report_def usb_keyboard_boot_def
        KEYBOARD_REPORT_QUEUE_SIZE_def kq_contents_def Let_def)
  with run usb_reports_ordered_newest_kept [OF run] show ?thesis by auto
qed

text \<open>
  \<open>keyboard_release_all\<close> leaves the all-keys-released report as the only queued one, so the next
  report the host takes releases every key, whatever was waiting before.
\<close>

theorem release_all_is_next_report:
  assumes "kq_wf k"
  shows "kq_wf (fst (keyboard_release_all k)) \<and>
         kq_contents (fst (keyboard_release_all k)) = [zero_report] \<and>
         fst (hid_keyboard_task_send True (\<lambda>_. True) (fst (keyboard_release_all k))) =
           Some zero_report"
proof -
  let ?k = "fst (keyboard_release_all k)"
  note wf = release_all_wf [OF assms] and c = release_all_contents [OF assms]
  from kq.deq_nonempty [OF wf c] have "\<exists>k'. kq_take ?k = Some (zero_report, k')" by blast
  then have "fst (hid_keyboard_task_send True (\<lambda>_. True) ?k) = Some zero_report"
    by (auto simp: kq_take_def split: prod.splits option.splits)
  with wf c show ?thesis by blast
qed

theorem release_all_is_next_report_witness:
  "kq_contents (fst (keyboard_release_all (kq_put usb_keyboard_boot
      \<lparr>kr_modifier = 2, kr_keycodes = [4, 0, 0, 0, 0, 0]\<rparr>))) = [zero_report]"
  using release_all_is_next_report [OF kq.put_invar [OF kq_boot(1)],
      of "\<lparr>kr_modifier = 2, kr_keycodes = [4, 0, 0, 0, 0, 0]\<rparr>"] by simp

end
