(* ===== verification/Device_Manager.thy ===== *)
theory Device_Manager
  imports Prelude
begin

unbundle bit_operations_syntax

text \<open>
  \<open>src/bt/device_manager.c\<close>: the table of at most 16 discovered devices. A \<open>Device *\<close> into the table
  is the index of the entry. A pointer with its length (\<open>name\<close>, \<open>name_length\<close>) is one byte list,
  \<open>None\<close> for \<open>NULL\<close>.
\<close>

section \<open>Data\<close>

definition DEVICE_MANAGER_MAX_DEVICES :: nat where
  "DEVICE_MANAGER_MAX_DEVICES = 16"

definition DEVICE_MANAGER_NAME_MAX_LENGTH :: nat where
  "DEVICE_MANAGER_NAME_MAX_LENGTH = 64"

record Device =
  dev_address :: bd_addr
  dev_name :: "char list"
  dev_rssi :: i8
  dev_class_of_device :: u32
  dev_connected :: bool
  dev_bonded :: bool
  dev_hid_supported :: bool
  dev_has_rssi :: bool
  dev_has_name :: bool
  dev_hid_service_found :: bool
  dev_hid_control_psm :: u16
  dev_hid_interrupt_psm :: u16
  dev_sdp_completed :: bool
  dev_report_descriptor_present :: bool
  dev_report_descriptor_too_large :: bool
  dev_report_descriptor_valid :: bool
  dev_report_has_keyboard :: bool
  dev_report_has_consumer_control :: bool
  dev_report_has_nkro_keyboard :: bool
  dev_report_uses_ids :: bool

record DeviceManager =
  dm_devices :: "Device list"
  dm_count :: nat

text \<open>A zeroed table entry.\<close>

definition zero_device :: Device where
  "zero_device =
     \<lparr>dev_address = replicate 6 0, dev_name = replicate DEVICE_MANAGER_NAME_MAX_LENGTH NUL,
      dev_rssi = 0, dev_class_of_device = 0, dev_connected = False, dev_bonded = False,
      dev_hid_supported = False, dev_has_rssi = False, dev_has_name = False,
      dev_hid_service_found = False, dev_hid_control_psm = 0, dev_hid_interrupt_psm = 0,
      dev_sdp_completed = False, dev_report_descriptor_present = False,
      dev_report_descriptor_too_large = False, dev_report_descriptor_valid = False,
      dev_report_has_keyboard = False, dev_report_has_consumer_control = False,
      dev_report_has_nkro_keyboard = False, dev_report_uses_ids = False\<rparr>"

section \<open>Operations\<close>

definition device_manager_init :: DeviceManager where
  "device_manager_init =
     \<lparr>dm_devices = replicate DEVICE_MANAGER_MAX_DEVICES zero_device, dm_count = 0\<rparr>"

definition device_manager_find :: "DeviceManager \<Rightarrow> bd_addr \<Rightarrow> nat option" where
  "device_manager_find manager address =
     find (\<lambda>i. dev_address (dm_devices manager ! i) = address) [0..<dm_count manager]"

definition byte_char :: "u8 \<Rightarrow> char" where
  "byte_char b = char_of (unat b)"

definition class_is_keyboard :: "u32 \<Rightarrow> bool" where
  "class_is_keyboard class_of_device \<longleftrightarrow>
     class_of_device AND 0x1f00 = 0x0500 \<and> class_of_device AND 0x40 \<noteq> 0"

text \<open>The copy of a name into the fixed 64-byte field: truncated to 63 bytes and terminated.\<close>

definition set_device_name :: "u8 list \<Rightarrow> Device \<Rightarrow> Device" where
  "set_device_name name device =
     (let name_length = (if length name \<ge> DEVICE_MANAGER_NAME_MAX_LENGTH
                         then DEVICE_MANAGER_NAME_MAX_LENGTH - 1 else length name)
      in device\<lparr>dev_name := (memcpy_to (dev_name device) (map byte_char (take name_length name)))
                               [name_length := NUL],
                dev_has_name := True\<rparr>)"

text \<open>The assignments an inquiry result makes to its entry, new or found.\<close>

definition fill_device :: "bool \<Rightarrow> i8 \<Rightarrow> u32 \<Rightarrow> u8 list option \<Rightarrow> Device \<Rightarrow> Device" where
  "fill_device has_rssi rssi class_of_device name device =
     (let device = device\<lparr>dev_class_of_device := class_of_device,
                          dev_hid_supported := class_is_keyboard class_of_device,
                          dev_has_rssi := has_rssi\<rparr>;
          device = (if has_rssi then device\<lparr>dev_rssi := rssi\<rparr> else device)
      in case name of
           Some bytes \<Rightarrow> if bytes \<noteq> [] then set_device_name bytes device else device
         | None \<Rightarrow> device)"

definition device_manager_upsert ::
    "DeviceManager \<Rightarrow> bd_addr \<Rightarrow> bool \<Rightarrow> i8 \<Rightarrow> u32 \<Rightarrow> u8 list option \<Rightarrow>
     nat option \<times> bool \<times> DeviceManager" where
  "device_manager_upsert manager address has_rssi rssi class_of_device name =
     (let fill = fill_device has_rssi rssi class_of_device name
      in case device_manager_find manager address of
           Some i \<Rightarrow>
             (Some i, False,
              manager\<lparr>dm_devices := (dm_devices manager)[i := fill (dm_devices manager ! i)]\<rparr>)
         | None \<Rightarrow>
             if dm_count manager = DEVICE_MANAGER_MAX_DEVICES then (None, False, manager)
             else
               (let i = dm_count manager
                in (Some i, True,
                    manager\<lparr>dm_count := i + 1,
                            dm_devices := (dm_devices manager)
                              [i := fill (zero_device\<lparr>dev_address := address\<rparr>)]\<rparr>)))"

definition device_manager_get_connection_target :: "DeviceManager \<Rightarrow> bd_addr option" where
  "device_manager_get_connection_target manager =
     (let devices = take (dm_count manager) (dm_devices manager)
      in case find (\<lambda>d. dev_hid_supported d \<and> dev_bonded d) devices of
           Some d \<Rightarrow> Some (dev_address d)
         | None \<Rightarrow>
             (case find dev_hid_supported devices of
                Some d \<Rightarrow> Some (dev_address d)
              | None \<Rightarrow> None))"

definition yes_no :: "bool \<Rightarrow> log_arg" where
  "yes_no b = LStr (if b then ''Yes'' else ''No'')"

definition device_manager_print_devices :: "DeviceManager \<Rightarrow> log_line list" where
  "device_manager_print_devices manager =
     (''[BT] Discovered Devices (%u):'', [LNum (dm_count manager)]) #
     map (\<lambda>device.
       (''[BT] - %s: RSSI=%d, CoD=0x%06lx, Name=%s, HID=%s, Bonded=%s, Connected=%s, SDP=%s, CtrlPSM=0x%04x, IntPSM=0x%04x'',
        [LAddr (dev_address device), LInt (sint (dev_rssi device)),
         LNum (unat (dev_class_of_device device)),
         LStr (if dev_has_name device then c_string (dev_name device) else ''<unknown>''),
         yes_no (dev_hid_supported device), yes_no (dev_bonded device),
         yes_no (dev_connected device),
         LStr (if dev_sdp_completed device then ''Done'' else ''No''),
         LNum (unat (dev_hid_control_psm device)),
         LNum (unat (dev_hid_interrupt_psm device))]))
       (take (dm_count manager) (dm_devices manager))"

text \<open>A loop over the used entries.\<close>

definition map_used :: "(Device \<Rightarrow> Device) \<Rightarrow> DeviceManager \<Rightarrow> DeviceManager" where
  "map_used f manager =
     manager\<lparr>dm_devices := map f (take (dm_count manager) (dm_devices manager)) @
                           drop (dm_count manager) (dm_devices manager)\<rparr>"

definition device_manager_clear_connections :: "DeviceManager \<Rightarrow> DeviceManager" where
  "device_manager_clear_connections manager =
     map_used (\<lambda>d. d\<lparr>dev_connected := False\<rparr>) manager"

definition device_manager_clear_bonded :: "DeviceManager \<Rightarrow> DeviceManager" where
  "device_manager_clear_bonded manager = map_used (\<lambda>d. d\<lparr>dev_bonded := False\<rparr>) manager"

text \<open>An assignment through a \<open>Device *\<close>.\<close>

definition dm_modify :: "nat \<Rightarrow> (Device \<Rightarrow> Device) \<Rightarrow> DeviceManager \<Rightarrow> DeviceManager" where
  "dm_modify i f manager = manager\<lparr>dm_devices := (dm_devices manager)[i := f (dm_devices manager ! i)]\<rparr>"

section \<open>Invariant\<close>

text \<open>
  Every used entry holds a terminated name in its 64-byte field, and its keyboard flag agrees with
  its class of device; no two used entries have the same address.
\<close>

definition device_wf :: "Device \<Rightarrow> bool" where
  "device_wf d \<longleftrightarrow> length (dev_name d) = DEVICE_MANAGER_NAME_MAX_LENGTH \<and>
     nul_terminated (dev_name d) \<and>
     (dev_hid_supported d \<longleftrightarrow> class_is_keyboard (dev_class_of_device d))"

definition dm_used :: "DeviceManager \<Rightarrow> Device list" where
  "dm_used m = take (dm_count m) (dm_devices m)"

definition dm_wf :: "DeviceManager \<Rightarrow> bool" where
  "dm_wf m \<longleftrightarrow> length (dm_devices m) = DEVICE_MANAGER_MAX_DEVICES \<and>
     dm_count m \<le> DEVICE_MANAGER_MAX_DEVICES \<and>
     distinct (map dev_address (dm_used m)) \<and> (\<forall>d \<in> set (dm_used m). device_wf d)"

text \<open>The table as a map from addresses.\<close>

definition dm_lookup :: "DeviceManager \<Rightarrow> bd_addr \<Rightarrow> Device option" where
  "dm_lookup m a = map_option (\<lambda>i. dm_devices m ! i) (device_manager_find m a)"

lemma set_device_name_address [simp]: "dev_address (set_device_name bs d) = dev_address d"
  by (simp add: set_device_name_def Let_def)

lemma fill_device_address [simp]: "dev_address (fill_device h r c n d) = dev_address d"
  by (simp add: fill_device_def Let_def split: option.split)

lemma set_device_name_field:
  assumes "length (dev_name d) = DEVICE_MANAGER_NAME_MAX_LENGTH"
  shows "\<exists>rest. dev_name (set_device_name bs d) = map byte_char (take 63 bs) @ NUL # rest \<and>
    length (dev_name (set_device_name bs d)) = DEVICE_MANAGER_NAME_MAX_LENGTH"
proof -
  let ?n = "if length bs \<ge> 64 then 63 else length bs"
  have n: "take ?n bs = take 63 bs" "length (take ?n bs) = ?n" by auto
  have "dev_name (set_device_name bs d) =
        (map byte_char (take ?n bs) @ drop ?n (dev_name d))[?n := NUL]"
    using n by (simp add: set_device_name_def Let_def memcpy_to_def DEVICE_MANAGER_NAME_MAX_LENGTH_def)
  moreover have "drop ?n (dev_name d) \<noteq> []"
    using assms by (simp add: DEVICE_MANAGER_NAME_MAX_LENGTH_def)
  then obtain c rest where "drop ?n (dev_name d) = c # rest" by (meson neq_Nil_conv)
  ultimately have eq: "dev_name (set_device_name bs d) = map byte_char (take 63 bs) @ NUL # rest"
    using n by (simp add: list_update_append)
  have "length (dev_name (set_device_name bs d)) = DEVICE_MANAGER_NAME_MAX_LENGTH"
    using assms
    by (simp add: set_device_name_def Let_def memcpy_to_def DEVICE_MANAGER_NAME_MAX_LENGTH_def)
  with eq show ?thesis by blast
qed

lemma set_device_name_wf: "device_wf d \<Longrightarrow> device_wf (set_device_name bs d)"
  using set_device_name_field [of d bs]
  by (auto simp: device_wf_def) (auto simp: set_device_name_def Let_def)

lemma fill_device_wf:
  assumes "length (dev_name d) = DEVICE_MANAGER_NAME_MAX_LENGTH" and "nul_terminated (dev_name d)"
  shows "device_wf (fill_device h r c n d)"
  using assms unfolding fill_device_def Let_def
  by (simp split: option.split)
    (intro conjI impI allI set_device_name_wf; simp add: device_wf_def)

lemma zero_device_name [simp]:
  "length (dev_name zero_device) = DEVICE_MANAGER_NAME_MAX_LENGTH"
  "nul_terminated (dev_name zero_device)"
  by (simp_all add: zero_device_def DEVICE_MANAGER_NAME_MAX_LENGTH_def)

lemma dm_find_Some:
  "device_manager_find m a = Some i \<Longrightarrow> i < dm_count m \<and> dev_address (dm_devices m ! i) = a"
  by (auto simp: device_manager_find_def find_Some_iff)

lemma dm_used_nth:
  "dm_wf m \<Longrightarrow> i < dm_count m \<Longrightarrow> dm_devices m ! i = dm_used m ! i"
  by (simp add: dm_used_def)

lemma length_dm_used: "dm_wf m \<Longrightarrow> length (dm_used m) = dm_count m"
  by (simp add: dm_used_def dm_wf_def)

lemma dm_used_distinct: "dm_wf m \<Longrightarrow> distinct (map dev_address (dm_used m))"
  by (simp add: dm_wf_def)

lemma dm_lookup_eq_find:
  "dm_wf m \<Longrightarrow> dm_lookup m a = find (\<lambda>d. dev_address d = a) (dm_used m)"
  unfolding dm_lookup_def device_manager_find_def dm_used_def
  by (rule find_index_loop) (simp add: dm_wf_def)

lemma dm_find_None_iff: "device_manager_find m a = None \<longleftrightarrow> dm_lookup m a = None"
  by (simp add: dm_lookup_def)

lemma dm_lookup_Some_iff:
  "dm_wf m \<Longrightarrow> dm_lookup m a = Some d \<longleftrightarrow> d \<in> set (dm_used m) \<and> dev_address d = a"
  by (simp add: dm_lookup_eq_find find_key_Some_iff [OF dm_used_distinct])

lemma dom_dm_lookup: "dm_wf m \<Longrightarrow> dom (dm_lookup m) = dev_address ` set (dm_used m)"
  using dm_lookup_Some_iff by fastforce

lemma card_dom_dm_lookup:
  assumes "dm_wf m"
  shows "card (dom (dm_lookup m)) = dm_count m"
  using distinct_card [OF dm_used_distinct [OF assms]] assms
  by (simp add: dom_dm_lookup length_dm_used)

lemma dm_init_wf [simp]: "dm_wf device_manager_init"
  by (simp add: dm_wf_def device_manager_init_def dm_used_def)

lemma dm_init_lookup [simp]: "dm_lookup device_manager_init = Map.empty"
  by (auto simp: dm_lookup_def device_manager_init_def device_manager_find_def)

section \<open>Updates of one entry\<close>

lemma dm_used_modify:
  "dm_wf m \<Longrightarrow> i < dm_count m \<Longrightarrow> dm_used (dm_modify i f m) = (dm_used m)[i := f (dm_used m ! i)]"
  by (simp add: dm_used_def dm_modify_def take_update_swap)

lemma dm_modify_simps [simp]:
  "dm_count (dm_modify i f m) = dm_count m"
  "length (dm_devices (dm_modify i f m)) = length (dm_devices m)"
  by (simp_all add: dm_modify_def)

lemma dm_modify_wf:
  assumes "dm_wf m" and "i < dm_count m"
    and "dev_address (f (dm_used m ! i)) = dev_address (dm_used m ! i)"
    and "device_wf (f (dm_used m ! i))"
  shows "dm_wf (dm_modify i f m)"
proof -
  have "map dev_address (dm_used (dm_modify i f m)) = map dev_address (dm_used m)"
    using assms by (simp add: dm_used_modify map_update list_update_same_conv length_dm_used)
  moreover have "\<forall>d \<in> set (dm_used (dm_modify i f m)). device_wf d"
    using assms by (auto simp: dm_used_modify dm_wf_def dest!: subsetD [OF set_update_subset_insert])
  ultimately show ?thesis using assms(1) by (simp add: dm_wf_def)
qed

lemma dm_modify_lookup:
  assumes "dm_wf m" and "device_manager_find m a = Some i"
    and "dev_address (f (dm_devices m ! i)) = a" and "device_wf (f (dm_devices m ! i))"
  shows "dm_wf (dm_modify i f m) \<and>
         dm_lookup (dm_modify i f m) = (dm_lookup m)(a \<mapsto> f (dm_devices m ! i))"
proof -
  from dm_find_Some [OF assms(2)] have i: "i < dm_count m" and a: "dev_address (dm_devices m ! i) = a"
    by auto
  with assms have wf: "dm_wf (dm_modify i f m)"
    by (intro dm_modify_wf) (simp_all add: dm_used_nth)
  have "dm_lookup (dm_modify i f m) b = ((dm_lookup m)(a \<mapsto> f (dm_devices m ! i))) b" for b
    using find_key_update [of i "dm_used m" dev_address "f (dm_used m ! i)" b] assms wf i a
    by (simp add: dm_lookup_eq_find dm_used_modify length_dm_used dm_used_distinct dm_used_nth)
  with wf show ?thesis by blast
qed

section \<open>The table interface\<close>

type_synonym inquiry_data = "bool \<times> i8 \<times> u32 \<times> u8 list option"

definition dm_put :: "DeviceManager \<Rightarrow> bd_addr \<Rightarrow> inquiry_data \<Rightarrow> DeviceManager option" where
  "dm_put m a u =
     (case u of (h, r, c, n) \<Rightarrow>
        (case device_manager_upsert m a h r c n of
           (None, _, _) \<Rightarrow> None
         | (Some _, _, m') \<Rightarrow> Some m'))"

definition dm_merge :: "bd_addr \<Rightarrow> inquiry_data \<Rightarrow> Device option \<Rightarrow> Device" where
  "dm_merge a u old =
     (case u of (h, r, c, n) \<Rightarrow>
        fill_device h r c n (case old of None \<Rightarrow> zero_device\<lparr>dev_address := a\<rparr> | Some d \<Rightarrow> d))"

lemma dm_merge_address [simp]:
  "(\<And>d. old = Some d \<Longrightarrow> dev_address d = a) \<Longrightarrow> dev_address (dm_merge a u old) = a"
  by (cases u) (simp add: dm_merge_def split: option.split)

lemma upsert_known:
  assumes "device_manager_find m a = Some i"
  shows "device_manager_upsert m a h r c n = (Some i, False, dm_modify i (fill_device h r c n) m)"
  using assms by (simp add: device_manager_upsert_def dm_modify_def)

lemma upsert_full:
  assumes "device_manager_find m a = None" and "dm_count m = DEVICE_MANAGER_MAX_DEVICES"
  shows "device_manager_upsert m a h r c n = (None, False, m)"
  using assms by (simp add: device_manager_upsert_def)

lemma upsert_new:
  assumes "dm_wf m" and "device_manager_find m a = None"
    and "dm_count m \<noteq> DEVICE_MANAGER_MAX_DEVICES"
  shows "\<exists>m'. device_manager_upsert m a h r c n = (Some (dm_count m), True, m') \<and> dm_wf m' \<and>
    dm_used m' = dm_used m @ [dm_merge a (h, r, c, n) None] \<and>
    dm_lookup m' = (dm_lookup m)(a \<mapsto> dm_merge a (h, r, c, n) None)"
proof -
  let ?d = "dm_merge a (h, r, c, n) None"
  let ?m = "m\<lparr>dm_count := dm_count m + 1, dm_devices := (dm_devices m)[dm_count m := ?d]\<rparr>"
  have eq: "device_manager_upsert m a h r c n = (Some (dm_count m), True, ?m)"
    using assms by (simp add: device_manager_upsert_def Let_def dm_merge_def)
  have lt: "dm_count m < length (dm_devices m)"
    using assms by (simp add: dm_wf_def)
  have used: "dm_used ?m = dm_used m @ [?d]"
    using lt by (simp add: dm_used_def take_Suc_conv_app_nth)
  have d: "device_wf ?d" "dev_address ?d = a"
    by (simp_all add: dm_merge_def fill_device_wf)
  have "a \<notin> dev_address ` set (dm_used m)"
    using assms(2) dom_dm_lookup [OF assms(1)] by (auto simp: dm_find_None_iff)
  with assms d used lt have wf: "dm_wf ?m"
    by (auto simp: dm_wf_def)
  have "dm_lookup ?m b = ((dm_lookup m)(a \<mapsto> ?d)) b" for b
    using assms(1,2) wf used d(2)
    by (auto simp: dm_lookup_eq_find find_snoc dm_find_None_iff split: option.split)
  with eq wf used show ?thesis by blast
qed

interpretation dm: bounded_table dm_lookup dm_wf dm_put dm_merge DEVICE_MANAGER_MAX_DEVICES
proof (unfold_locales, goal_cases)
  case (1 m)
  have "finite (dom (dm_lookup m))" by (simp add: dom_dm_lookup [OF 1])
  moreover have "dm_count m \<le> DEVICE_MANAGER_MAX_DEVICES" using 1 by (simp add: dm_wf_def)
  ultimately show ?case by (simp add: card_dom_dm_lookup [OF 1])
next
  case (2 m a u m')
  obtain h r c n where u: "u = (h, r, c, n)" by (cases u)
  show ?case
  proof (cases "device_manager_find m a")
    case None
    with 2 u upsert_full [OF None] have "dm_count m \<noteq> DEVICE_MANAGER_MAX_DEVICES"
      by (auto simp: dm_put_def)
    from upsert_new [OF 2(1) None this, of h r c n] 2(2) None u show ?thesis
      by (auto simp: dm_put_def dm_find_None_iff)
  next
    case (Some i)
    with 2 u have m': "m' = dm_modify i (fill_device h r c n) m"
      by (simp add: dm_put_def upsert_known)
    from dm_find_Some [OF Some] have a: "dev_address (dm_devices m ! i) = a" "i < dm_count m"
      by auto
    with 2(1) have "device_wf (dm_devices m ! i)"
      by (auto simp: dm_used_nth length_dm_used dm_wf_def)
    then have "device_wf (fill_device h r c n (dm_devices m ! i))"
      by (intro fill_device_wf) (simp_all add: device_wf_def)
    moreover have "dm_merge a u (dm_lookup m a) = fill_device h r c n (dm_devices m ! i)"
      using Some u by (simp add: dm_merge_def dm_lookup_def)
    ultimately show ?thesis
      using dm_modify_lookup [OF 2(1) Some, of "fill_device h r c n"] a m' by simp
  qed
next
  case (3 m a u)
  obtain h r c n where u: "u = (h, r, c, n)" by (cases u)
  note count = card_dom_dm_lookup [OF 3]
  show ?case
  proof (cases "device_manager_find m a")
    case None
    then have no: "dm_lookup m a = None" by (simp add: dm_find_None_iff)
    show ?thesis
    proof (cases "dm_count m = DEVICE_MANAGER_MAX_DEVICES")
      case True
      with upsert_full [OF None, of h r c n] no u count show ?thesis by (simp add: dm_put_def)
    next
      case False
      with upsert_new [OF 3 None False, of h r c n] u count show ?thesis
        by (auto simp: dm_put_def)
    qed
  next
    case (Some i)
    with u show ?thesis by (simp add: dm_put_def upsert_known dm_lookup_def)
  qed
qed

lemma upsert_find:
  assumes "dm_wf m" and "device_manager_upsert m a h r c n = (Some i, created, m')"
  shows "device_manager_find m' a = Some i"
proof (cases "device_manager_find m a")
  case None
  with assms upsert_full [OF None] have nf: "dm_count m \<noteq> DEVICE_MANAGER_MAX_DEVICES" by auto
  from upsert_new [OF assms(1) None nf, of h r c n] assms(2)
  have i: "i = dm_count m" and wf: "dm_wf m'" and used: "dm_used m' = dm_used m @ [dm_merge a (h, r, c, n) None]"
    and look: "dm_lookup m' a = Some (dm_merge a (h, r, c, n) None)" by auto
  from look obtain j where j: "device_manager_find m' a = Some j" by (auto simp: dm_lookup_def)
  have len: "dm_count m' = dm_count m + 1"
    using length_dm_used [OF wf] length_dm_used [OF assms(1)] used by simp
  from dm_find_Some [OF j] have jl: "j < dm_count m'" and ja: "dev_address (dm_devices m' ! j) = a"
    by auto
  have "\<not> j < dm_count m"
  proof
    assume lt: "j < dm_count m"
    with ja dm_used_nth [OF wf jl] used length_dm_used [OF assms(1)]
    have "dev_address (dm_used m ! j) = a" by (simp add: nth_append)
    with lt length_dm_used [OF assms(1)] have "a \<in> dev_address ` set (dm_used m)" by force
    with None dom_dm_lookup [OF assms(1)] show False by (auto simp: dm_find_None_iff)
  qed
  with jl len i j show ?thesis by simp
next
  case (Some k)
  with assms(2) have m': "m' = dm_modify i (fill_device h r c n) m" and k: "k = i"
    by (auto simp: upsert_known)
  from dm_find_Some [OF Some] k have a: "dev_address (dm_devices m ! i) = a" "i < dm_count m" by auto
  have "device_manager_find m' a = device_manager_find m a"
    unfolding device_manager_find_def m'
  proof (rule find_cong)
    fix j assume "j \<in> set [0..<dm_count m]"
    then show "(dev_address (dm_devices (dm_modify i (fill_device h r c n) m) ! j) = a) =
        (dev_address (dm_devices m ! j) = a)"
      using a assms(1) by (cases "j = i") (simp_all add: dm_modify_def dm_wf_def)
  qed simp
  with Some k show ?thesis by simp
qed

section \<open>Properties\<close>

text \<open>
  C29. The table implements a bounded map from addresses to devices. An inquiry result changes only
  the entry of its own address, creates an entry exactly when the address was unknown and there was
  room, returns the index at which the address is found afterwards, and is dropped, with the table
  unchanged, exactly when the address is unknown and all 16 entries are used. The table stays well
  formed: no two entries share an address and every name is terminated inside its field.
\<close>

theorem upsert_refines_map:
  assumes "dm_wf m" and "device_manager_upsert m a h r c n = (ix, created, m')"
  shows "dm_wf m' \<and> (created \<longleftrightarrow> ix \<noteq> None \<and> a \<notin> dom (dm_lookup m)) \<and>
    (ix = None \<longleftrightarrow> a \<notin> dom (dm_lookup m) \<and> card (dom (dm_lookup m)) = 16) \<and>
    (case ix of
       None \<Rightarrow> m' = m
     | Some i \<Rightarrow> device_manager_find m' a = Some i \<and>
         dm_lookup m' = (dm_lookup m)(a \<mapsto> dm_merge a (h, r, c, n) (dm_lookup m a)))"
proof (cases "device_manager_find m a")
  case None
  show ?thesis
  proof (cases "dm_count m = DEVICE_MANAGER_MAX_DEVICES")
    case True
    with None assms upsert_full [OF None] show ?thesis
      by (auto simp: dm_find_None_iff card_dom_dm_lookup DEVICE_MANAGER_MAX_DEVICES_def)
  next
    case False
    from upsert_new [OF assms(1) None False, of h r c n] assms None False upsert_find [OF assms(1)]
    show ?thesis
      by (auto simp: dm_find_None_iff card_dom_dm_lookup DEVICE_MANAGER_MAX_DEVICES_def)
  qed
next
  case (Some i)
  with assms(2) have eq: "ix = Some i" "created = False" "m' = dm_modify i (fill_device h r c n) m"
    by (simp_all add: upsert_known)
  with Some have "dm_put m a (h, r, c, n) = Some m'" by (simp add: dm_put_def upsert_known)
  from dm.put_SomeD [OF assms(1) this] upsert_find [OF assms(1), of a h r c n i created m'] assms(2) eq Some
  show ?thesis by (auto simp: dm_lookup_def)
qed

theorem upsert_refines_map_witness:
  "\<exists>i created m'.
     device_manager_upsert device_manager_init [1, 2, 3, 4, 5, 6] True 0 0x2540 None =
       (Some i, created, m') \<and> created \<and> dm_wf m'"
proof -
  obtain ix created m' where eq:
    "device_manager_upsert device_manager_init [1, 2, 3, 4, 5, 6] True 0 0x2540 None =
       (ix, created, m')"
    by (cases "device_manager_upsert device_manager_init [1, 2, 3, 4, 5, 6] True 0 0x2540 None")
  from upsert_refines_map [OF dm_init_wf eq] eq show ?thesis by (auto split: option.splits)
qed

text \<open>
  A scan loses no device: whatever the order and the repetitions of the inquiry results, as long
  as at most 16 different devices are seen from an empty list, every one of them is in the table.
\<close>

theorem scan_keeps_every_device:
  assumes "card (fst ` set results) \<le> 16"
  shows "dom (dm_lookup (foldl (try_put dm_put) device_manager_init results)) = fst ` set results"
  using dm.fold_try_put_all [OF dm_init_wf, of results] dm.fold_try_put [OF dm_init_wf, of results]
    assms
  by (auto simp: DEVICE_MANAGER_MAX_DEVICES_def)

theorem scan_keeps_every_device_witness:
  "dom (dm_lookup (foldl (try_put dm_put) device_manager_init
     [([1, 2, 3, 4, 5, 6], (True, 0, 0x2540, None)), ([6, 5, 4, 3, 2, 1], (False, 0, 0, None)),
      ([1, 2, 3, 4, 5, 6], (True, 3, 0x2540, Some [75]))])) =
   {[1, 2, 3, 4, 5, 6], [6, 5, 4, 3, 2, 1]}"
  by (subst scan_keeps_every_device) (auto simp: card_insert_if)

text \<open>
  A name longer than the field is cut to its first 63 bytes: reading the stored name as a C
  string gives the bytes of the announced name before its first NUL, at most 63 of them.
\<close>

theorem device_name_truncated:
  assumes "dm_wf m" and "name \<noteq> []"
    and "device_manager_upsert m a h r c (Some name) = (Some i, created, m')"
  shows "c_string (dev_name (dm_devices m' ! i)) =
           takeWhile (\<lambda>c. c \<noteq> NUL) (map byte_char (take 63 name)) \<and>
         dev_has_name (dm_devices m' ! i)"
proof -
  from upsert_refines_map [OF assms(1,3)]
  have find: "device_manager_find m' a = Some i"
    and look: "dm_lookup m' = (dm_lookup m)(a \<mapsto> dm_merge a (h, r, c, Some name) (dm_lookup m a))"
    by auto
  from find look have d: "dm_devices m' ! i = dm_merge a (h, r, c, Some name) (dm_lookup m a)"
    by (auto simp: dm_lookup_def dest: fun_cong [of _ _ a])
  let ?old = "case dm_lookup m a of None \<Rightarrow> zero_device\<lparr>dev_address := a\<rparr> | Some d \<Rightarrow> d"
  have len: "length (dev_name ?old) = DEVICE_MANAGER_NAME_MAX_LENGTH"
    using assms(1) dm_lookup_Some_iff [OF assms(1), of a]
    by (auto simp: dm_wf_def device_wf_def split: option.split)
  let ?d = "if h then ?old\<lparr>dev_class_of_device := c, dev_hid_supported := class_is_keyboard c,
      dev_has_rssi := h, dev_rssi := r\<rparr> else ?old\<lparr>dev_class_of_device := c,
      dev_hid_supported := class_is_keyboard c, dev_has_rssi := h\<rparr>"
  have new: "dm_devices m' ! i = set_device_name name ?d"
    using d assms(2) by (simp add: dm_merge_def fill_device_def Let_def)
  have "length (dev_name ?d) = DEVICE_MANAGER_NAME_MAX_LENGTH" using len by simp
  from set_device_name_field [OF this, of name] obtain rest where
    "dev_name (dm_devices m' ! i) = map byte_char (take 63 name) @ NUL # rest"
    using new by auto
  moreover have "dev_has_name (dm_devices m' ! i)"
    by (simp add: new set_device_name_def Let_def)
  ultimately show ?thesis by (simp add: c_string_def takeWhile_tail)
qed

theorem device_name_truncated_witness:
  "\<exists>i created m'.
     device_manager_upsert device_manager_init [1, 2, 3, 4, 5, 6] True 0 0x2540
       (Some (replicate 80 120)) = (Some i, created, m') \<and>
     c_string (dev_name (dm_devices m' ! i)) = replicate 63 (CHR ''x'')"
proof -
  let ?up = "device_manager_upsert device_manager_init [1, 2, 3, 4, 5, 6] True 0 0x2540
       (Some (replicate 80 120))"
  obtain ix created m' where eq: "?up = (ix, created, m')" by (cases ?up)
  from upsert_refines_map [OF dm_init_wf eq] obtain i where i: "ix = Some i" by auto
  have x: "byte_char 120 = CHR ''x''" by (simp add: byte_char_def char_of_def bit_0)
  have "replicate 80 (120::u8) \<noteq> []" by simp
  from device_name_truncated [OF dm_init_wf this eq [unfolded i]] eq i x
  show ?thesis by auto
qed

text \<open>
  The automatic choice of a keyboard: it succeeds exactly when the table holds a keyboard, the
  chosen device is one, it is a bonded one whenever a bonded keyboard is known, and no earlier entry
  would have been as good.
\<close>

theorem connection_target_spec:
  assumes "dm_wf m"
  shows "case device_manager_get_connection_target m of
      None \<Rightarrow> \<forall>d \<in> set (dm_used m). \<not> dev_hid_supported d
    | Some a \<Rightarrow> \<exists>d i. dm_lookup m a = Some d \<and> dev_hid_supported d \<and>
        (dev_bonded d \<or> (\<forall>e \<in> set (dm_used m). dev_hid_supported e \<longrightarrow> \<not> dev_bonded e)) \<and>
        i < dm_count m \<and> dm_used m ! i = d \<and>
        (\<forall>j < i. dev_hid_supported (dm_used m ! j) \<longrightarrow> dev_bonded d \<and> \<not> dev_bonded (dm_used m ! j))"
proof -
  let ?P = "\<lambda>d. dev_hid_supported d \<and> dev_bonded d"
  note target = device_manager_get_connection_target_def dm_used_def [symmetric] Let_def
  show ?thesis
  proof (cases "find ?P (dm_used m)")
    case bonded: None
    show ?thesis
    proof (cases "find dev_hid_supported (dm_used m)")
      case None
      then have "\<forall>d \<in> set (dm_used m). \<not> dev_hid_supported d" by (simp add: find_None_iff)
      with bonded None show ?thesis by (simp add: target)
    next
        case (Some d)
      then obtain i where i: "i < length (dm_used m)" "dev_hid_supported d" "dm_used m ! i = d"
        "\<forall>j < i. \<not> dev_hid_supported (dm_used m ! j)"
        by (auto simp: find_Some_iff)
      have "\<forall>e \<in> set (dm_used m). dev_hid_supported e \<longrightarrow> \<not> dev_bonded e"
        using bonded by (auto simp: find_None_iff)
      moreover have "dm_lookup m (dev_address d) = Some d"
        using i assms by (auto simp: dm_lookup_Some_iff)
      moreover have "device_manager_get_connection_target m = Some (dev_address d)"
        using bonded Some by (simp add: target)
      ultimately show ?thesis
        using i assms by (auto simp: length_dm_used intro!: exI [of _ i])
    qed
  next
    case (Some d)
    then obtain i where i: "i < length (dm_used m)" "dev_hid_supported d" "dev_bonded d"
      "dm_used m ! i = d" "\<forall>j < i. dev_hid_supported (dm_used m ! j) \<longrightarrow> \<not> dev_bonded (dm_used m ! j)"
      by (auto simp: find_Some_iff)
    have "dm_lookup m (dev_address d) = Some d"
      using i assms by (auto simp: dm_lookup_Some_iff)
    moreover have "device_manager_get_connection_target m = Some (dev_address d)"
      using Some by (simp add: target)
    ultimately show ?thesis
      using i assms by (auto simp: length_dm_used intro!: exI [of _ i])
  qed
qed

definition one_keyboard :: DeviceManager where
  "one_keyboard = device_manager_init
     \<lparr>dm_count := 1,
      dm_devices := zero_device\<lparr>dev_class_of_device := 0x2540, dev_hid_supported := True\<rparr> #
        replicate 15 zero_device\<rparr>"

theorem connection_target_spec_witness:
  "dm_wf one_keyboard \<and> device_manager_get_connection_target one_keyboard = Some (replicate 6 0)"
proof -
  have used: "dm_used one_keyboard =
      [zero_device\<lparr>dev_class_of_device := 0x2540, dev_hid_supported := True\<rparr>]"
    by (simp add: dm_used_def one_keyboard_def)
  have wf: "dm_wf one_keyboard"
    unfolding dm_wf_def used
    by (simp add: one_keyboard_def device_wf_def class_is_keyboard_def DEVICE_MANAGER_MAX_DEVICES_def
        zero_device_def DEVICE_MANAGER_NAME_MAX_LENGTH_def)
  with connection_target_spec [OF wf] show ?thesis
    by (auto simp: used dm_lookup_Some_iff zero_device_def split: option.splits)
qed

end
