(* ===== verification/Report_Descriptor.thy ===== *)
theory Report_Descriptor
  imports Prelude
begin

unbundle bit_operations_syntax

text \<open>
  \<open>src/bt/hid_report_descriptor.c\<close>: the scan of a HID report descriptor for a keyboard collection,
  consumer controls and an NKRO bitmap. Every array access of the C code is checked in the model:
  \<open>None\<close> is an access outside an array or a read of an entry that was never written. A descriptor the
  code refuses is \<open>Invalid\<close>. \<open>size_t\<close> offsets are natural numbers; the 32-bit quantities of the
  descriptor are words.
\<close>

section \<open>Data\<close>

record hid_report_descriptor_info =
  info_valid :: bool
  info_has_keyboard :: bool
  info_has_consumer_control :: bool
  info_has_nkro_keyboard :: bool
  info_uses_report_ids :: bool

record global_state =
  gs_usage_page :: u32
  gs_report_size :: u32
  gs_report_count :: u32

record local_usage_set =
  lus_keyboard_positions :: "u16 list"
  lus_non_key_positions :: "u8 list"
  lus_position :: u32
  lus_first_consumer_position :: u32
  lus_has_consumer_usage :: bool
  lus_has_usage :: bool
  lus_first_is_keyboard_application :: bool
  lus_first_is_consumer_application :: bool

definition zero_info :: hid_report_descriptor_info where
  "zero_info = \<lparr>info_valid = False, info_has_keyboard = False, info_has_consumer_control = False,
     info_has_nkro_keyboard = False, info_uses_report_ids = False\<rparr>"

definition invalid_descriptor :: hid_report_descriptor_info where
  "invalid_descriptor = zero_info"

text \<open>\<open>global_state_t stack[4]\<close> starts uninitialised: an entry is \<open>None\<close> until it is written.\<close>

record descriptor_parser =
  dp_info :: hid_report_descriptor_info
  dp_global :: global_state
  dp_stack :: "global_state option list"
  dp_stack_depth :: nat
  dp_usage_sets :: "local_usage_set list"
  dp_usage_set_count :: nat
  dp_current_usage_set :: nat
  dp_usage_minimum_pending :: bool
  dp_usage_minimum_page :: u32
  dp_usage_minimum :: u32
  dp_delimiter_open :: bool
  dp_collection_depth :: nat
  dp_keyboard_depth :: nat

datatype item_result = Invalid | Parsed descriptor_parser

section \<open>Operations\<close>

fun item_value_loop :: "u8 list \<Rightarrow> nat \<Rightarrow> nat \<Rightarrow> nat \<Rightarrow> u32 \<Rightarrow> u32 option" where
  "item_value_loop d offset i 0 v = Some v"
| "item_value_loop d offset i (Suc k) v = do {
     b \<leftarrow> byte_at d (offset + i);
     item_value_loop d offset (i + 1) k (v OR push_bit (8 * i) (ucast b))
   }"

definition item_value :: "u8 list \<Rightarrow> nat \<Rightarrow> nat \<Rightarrow> u32 option" where
  "item_value d offset sz = item_value_loop d offset 0 sz 0"

definition scalar_size_valid :: "nat \<Rightarrow> bool" where
  "scalar_size_valid sz \<longleftrightarrow> sz = 1 \<or> sz = 2 \<or> sz = 4"

definition qualified_usage_page :: "u32 \<Rightarrow> nat \<Rightarrow> u32 \<Rightarrow> u32" where
  "qualified_usage_page v sz global_page = (if sz = 4 then drop_bit 16 v else global_page)"

definition append_usage :: "local_usage_set \<Rightarrow> u32 \<Rightarrow> u32 \<Rightarrow> local_usage_set option" where
  "append_usage s page usage =
     (let s = (if \<not> lus_has_usage s
               then s\<lparr>lus_has_usage := True,
                      lus_first_is_keyboard_application := (page = 0x01 \<and> usage = 0x06),
                      lus_first_is_consumer_application := (page = 0x0c \<and> usage = 0x01)\<rparr>
               else s);
          s = (if page = 0x0c \<and> usage \<noteq> 0 \<and> \<not> lus_has_consumer_usage s
               then s\<lparr>lus_has_consumer_usage := True,
                      lus_first_consumer_position := lus_position s\<rparr>
               else s);
          pos = lus_position s
      in do {
        s \<leftarrow> (if page = 0x07 \<and> usage < 4 \<and> pos < 256 then do {
                 b \<leftarrow> array_at (lus_non_key_positions s) (unat (drop_bit 3 pos));
                 bits \<leftarrow> array_put (lus_non_key_positions s) (unat (drop_bit 3 pos))
                          (b OR push_bit (unat (pos AND 7)) 1);
                 Some (s\<lparr>lus_non_key_positions := bits\<rparr>)
               }
               else if page = 0x07 \<and> usage \<le> 255 \<and> pos < 256 then do {
                 first_position \<leftarrow> array_at (lus_keyboard_positions s) (unat usage);
                 if first_position = 0xffff then do {
                   ps \<leftarrow> array_put (lus_keyboard_positions s) (unat usage) (ucast pos);
                   Some (s\<lparr>lus_keyboard_positions := ps\<rparr>)
                 } else Some s
               }
               else Some s);
        Some (if pos \<noteq> 0xffffffff then s\<lparr>lus_position := pos + 1\<rparr> else s)
      })"

text \<open>The loop over a usage range: \<open>k\<close> usages from \<open>item\<close> on. Usages are masked to 16 bits, so the
  32-bit loop counter of the C code does not wrap.\<close>

fun append_usage_range :: "local_usage_set \<Rightarrow> u32 \<Rightarrow> u32 \<Rightarrow> nat \<Rightarrow> local_usage_set option" where
  "append_usage_range s page item 0 = Some s"
| "append_usage_range s page item (Suc k) = do {
     s \<leftarrow> append_usage s page item;
     append_usage_range s page (item + 1) k
   }"

fun non_key_position_loop :: "local_usage_set \<Rightarrow> nat \<Rightarrow> nat \<Rightarrow> u16 \<Rightarrow> u16 option" where
  "non_key_position_loop s position 0 count = Some count"
| "non_key_position_loop s position (Suc k) count = do {
     b \<leftarrow> array_at (lus_non_key_positions s) (position div 8);
     non_key_position_loop s (position + 1) k
       (if b AND push_bit (position mod 8) 1 \<noteq> 0 then count + 1 else count)
   }"

definition non_key_position_count :: "local_usage_set \<Rightarrow> u32 \<Rightarrow> u16 option" where
  "non_key_position_count s report_count = non_key_position_loop s 0 (unat report_count) 0"

definition keyboard_usage_count :: "local_usage_set \<Rightarrow> u32 \<Rightarrow> u16" where
  "keyboard_usage_count s report_count =
     foldl (\<lambda>count p. if (ucast p :: u32) < report_count then count + 1 else count)
       0 (lus_keyboard_positions s)"

definition empty_usage_set :: local_usage_set where
  "empty_usage_set = \<lparr>lus_keyboard_positions = replicate 256 0xffff,
     lus_non_key_positions = replicate 32 0, lus_position = 0, lus_first_consumer_position = 0,
     lus_has_consumer_usage = False, lus_has_usage = False,
     lus_first_is_keyboard_application = False, lus_first_is_consumer_application = False\<rparr>"

definition reset_usage_sets :: "local_usage_set list" where
  "reset_usage_sets = replicate 4 empty_usage_set"

definition initial_parser :: descriptor_parser where
  "initial_parser = \<lparr>dp_info = zero_info,
     dp_global = \<lparr>gs_usage_page = 0, gs_report_size = 0, gs_report_count = 0\<rparr>,
     dp_stack = replicate 4 None, dp_stack_depth = 0, dp_usage_sets = reset_usage_sets,
     dp_usage_set_count = 1, dp_current_usage_set = 0, dp_usage_minimum_pending = False,
     dp_usage_minimum_page = 0, dp_usage_minimum = 0, dp_delimiter_open = False,
     dp_collection_depth = 0, dp_keyboard_depth = 0\<rparr>"

text \<open>The items of type global.\<close>

definition global_item :: "descriptor_parser \<Rightarrow> nat \<Rightarrow> nat \<Rightarrow> u32 \<Rightarrow> item_result option" where
  "global_item p tag data_size v =
     (let g = dp_global p in
      if tag = 0 then
        if \<not> scalar_size_valid data_size then Some Invalid
        else Some (Parsed (p\<lparr>dp_global := g\<lparr>gs_usage_page := v\<rparr>\<rparr>))
      else if tag = 7 then
        if \<not> scalar_size_valid data_size then Some Invalid
        else Some (Parsed (p\<lparr>dp_global := g\<lparr>gs_report_size := v\<rparr>\<rparr>))
      else if tag = 9 then
        if \<not> scalar_size_valid data_size then Some Invalid
        else Some (Parsed (p\<lparr>dp_global := g\<lparr>gs_report_count := v\<rparr>\<rparr>))
      else if tag = 8 then
        if data_size \<noteq> 1 \<or> v = 0 then Some Invalid
        else Some (Parsed (p\<lparr>dp_info := (dp_info p)\<lparr>info_uses_report_ids := True\<rparr>\<rparr>))
      else if tag = 10 then
        if data_size \<noteq> 0 \<or> dp_stack_depth p = 4 then Some Invalid
        else do {
          st \<leftarrow> array_put (dp_stack p) (dp_stack_depth p) (Some g);
          Some (Parsed (p\<lparr>dp_stack := st, dp_stack_depth := dp_stack_depth p + 1\<rparr>))
        }
      else if tag = 11 then
        if data_size \<noteq> 0 \<or> dp_stack_depth p = 0 then Some Invalid
        else do {
          slot \<leftarrow> array_at (dp_stack p) (dp_stack_depth p - 1);
          g \<leftarrow> slot;
          Some (Parsed (p\<lparr>dp_global := g, dp_stack_depth := dp_stack_depth p - 1\<rparr>))
        }
      else Some (Parsed p))"

definition modify_usage_set ::
    "descriptor_parser \<Rightarrow> (local_usage_set \<Rightarrow> local_usage_set option) \<Rightarrow> descriptor_parser option"
where
  "modify_usage_set p f = do {
     s \<leftarrow> array_at (dp_usage_sets p) (dp_current_usage_set p);
     s \<leftarrow> f s;
     sets \<leftarrow> array_put (dp_usage_sets p) (dp_current_usage_set p) s;
     Some (p\<lparr>dp_usage_sets := sets\<rparr>)
   }"

text \<open>The items usage, usage minimum and usage maximum.\<close>

definition usage_item :: "descriptor_parser \<Rightarrow> nat \<Rightarrow> nat \<Rightarrow> u32 \<Rightarrow> item_result option" where
  "usage_item p tag data_size v =
     (if \<not> scalar_size_valid data_size then Some Invalid
      else let usage_page = qualified_usage_page v data_size (gs_usage_page (dp_global p));
               usage = v AND 0xffff
           in if tag = 0 then
                map_option Parsed (modify_usage_set p (\<lambda>s. append_usage s usage_page usage))
              else if tag = 1 then
                if dp_usage_minimum_pending p then Some Invalid
                else Some (Parsed (p\<lparr>dp_usage_minimum_pending := True,
                       dp_usage_minimum_page := usage_page, dp_usage_minimum := usage\<rparr>))
              else
                if \<not> dp_usage_minimum_pending p \<or> usage_page \<noteq> dp_usage_minimum_page p \<or>
                   usage < dp_usage_minimum p
                then Some Invalid
                else map_option (\<lambda>p. Parsed (p\<lparr>dp_usage_minimum_pending := False\<rparr>))
                       (modify_usage_set p (\<lambda>s. append_usage_range s usage_page (dp_usage_minimum p)
                          (unat usage + 1 - unat (dp_usage_minimum p)))))"

definition delimiter_item :: "descriptor_parser \<Rightarrow> nat \<Rightarrow> u32 \<Rightarrow> item_result option" where
  "delimiter_item p data_size v =
     (if dp_usage_minimum_pending p \<or> data_size \<noteq> 1 \<or> (v \<noteq> 0 \<and> v \<noteq> 1) \<or>
         (v = 1 \<and> dp_delimiter_open p) \<or> (v = 0 \<and> \<not> dp_delimiter_open p)
      then Some Invalid
      else if v = 1 then
        if dp_usage_set_count p = 4 then Some Invalid
        else Some (Parsed (p\<lparr>dp_current_usage_set := dp_usage_set_count p,
               dp_usage_set_count := dp_usage_set_count p + 1, dp_delimiter_open := True\<rparr>))
      else Some (Parsed (p\<lparr>dp_current_usage_set := 0, dp_delimiter_open := False\<rparr>)))"

text \<open>The loops over the usage sets; \<open>i\<close> is the next index and \<open>k\<close> the number of rounds left.\<close>

fun any_usage_loop :: "local_usage_set list \<Rightarrow> nat \<Rightarrow> nat \<Rightarrow> bool \<Rightarrow> bool option" where
  "any_usage_loop sets i 0 acc = Some acc"
| "any_usage_loop sets i (Suc k) acc = do {
     s \<leftarrow> array_at sets i;
     any_usage_loop sets (i + 1) k (acc \<or> lus_has_usage s)
   }"

fun application_loop ::
    "local_usage_set list \<Rightarrow> nat \<Rightarrow> nat \<Rightarrow> nat \<Rightarrow> hid_report_descriptor_info \<times> nat \<Rightarrow>
     (hid_report_descriptor_info \<times> nat) option" where
  "application_loop sets depth i 0 r = Some r"
| "application_loop sets depth i (Suc k) (info, keyboard_depth) = do {
     s \<leftarrow> array_at sets i;
     let (info, keyboard_depth) =
       (if lus_first_is_keyboard_application s
        then (info\<lparr>info_has_keyboard := True\<rparr>, depth) else (info, keyboard_depth));
     let info = (if lus_first_is_consumer_application s
                 then info\<lparr>info_has_consumer_control := True\<rparr> else info);
     application_loop sets depth (i + 1) k (info, keyboard_depth)
   }"

text \<open>The test for an NKRO bitmap, with the evaluation order of the C condition:
  \<open>non_key_position_count\<close> is called only when \<open>report_count\<close> is at most 256.\<close>

definition nkro_input :: "local_usage_set \<Rightarrow> global_state \<Rightarrow> nat \<Rightarrow> u32 \<Rightarrow> bool option" where
  "nkro_input s g keyboard_depth v =
     (let key_count = keyboard_usage_count s (gs_report_count g)
      in if keyboard_depth \<noteq> 0 \<and> v AND 3 = 2 \<and> gs_report_size g = 1 \<and> gs_report_count g > 8 \<and>
            gs_report_count g \<le> 256 \<and> key_count > 8
         then do {
           n \<leftarrow> non_key_position_count s (gs_report_count g);
           Some (unat key_count + unat n \<ge> unat (gs_report_count g))
         }
         else Some False)"

definition consumer_input :: "local_usage_set \<Rightarrow> global_state \<Rightarrow> u32 \<Rightarrow> bool" where
  "consumer_input s g v \<longleftrightarrow>
     (let consumer_is_consumed = v AND 2 = 0 \<or> lus_first_consumer_position s < gs_report_count g
      in v AND 1 = 0 \<and> lus_has_consumer_usage s \<and> consumer_is_consumed)"

fun input_loop ::
    "local_usage_set list \<Rightarrow> global_state \<Rightarrow> nat \<Rightarrow> u32 \<Rightarrow> nat \<Rightarrow> nat \<Rightarrow>
     hid_report_descriptor_info \<Rightarrow> hid_report_descriptor_info option" where
  "input_loop sets g keyboard_depth v i 0 info = Some info"
| "input_loop sets g keyboard_depth v i (Suc k) info = do {
     s \<leftarrow> array_at sets i;
     nkro \<leftarrow> nkro_input s g keyboard_depth v;
     let info = (if nkro then info\<lparr>info_has_nkro_keyboard := True\<rparr> else info);
     let info = (if consumer_input s g v then info\<lparr>info_has_consumer_control := True\<rparr> else info);
     input_loop sets g keyboard_depth v (i + 1) k info
   }"

definition reset_locals :: "descriptor_parser \<Rightarrow> descriptor_parser" where
  "reset_locals p = p\<lparr>dp_usage_sets := reset_usage_sets, dp_usage_set_count := 1,
     dp_current_usage_set := 0\<rparr>"

definition main_item :: "descriptor_parser \<Rightarrow> nat \<Rightarrow> nat \<Rightarrow> u32 \<Rightarrow> item_result option" where
  "main_item p tag data_size v =
     (if dp_delimiter_open p \<or> dp_usage_minimum_pending p then Some Invalid
      else if (tag = 8 \<or> tag = 9 \<or> tag = 11) \<and> \<not> scalar_size_valid data_size then Some Invalid
      else if tag = 10 then
        if data_size \<noteq> 1 then Some Invalid
        else do {
          has_collection_usage \<leftarrow> any_usage_loop (dp_usage_sets p) 0 (dp_usage_set_count p) False;
          if \<not> has_collection_usage then Some Invalid
          else do {
            let depth = dp_collection_depth p + 1;
            (info, keyboard_depth) \<leftarrow>
              (if v = 1
               then application_loop (dp_usage_sets p) depth 0 (dp_usage_set_count p)
                      (dp_info p, dp_keyboard_depth p)
               else Some (dp_info p, dp_keyboard_depth p));
            Some (Parsed (reset_locals (p\<lparr>dp_info := info, dp_collection_depth := depth,
                    dp_keyboard_depth := keyboard_depth\<rparr>)))
          }
        }
      else if tag = 12 then
        if data_size \<noteq> 0 \<or> dp_collection_depth p = 0 then Some Invalid
        else Some (Parsed (reset_locals
               (p\<lparr>dp_keyboard_depth := (if dp_keyboard_depth p = dp_collection_depth p then 0
                                         else dp_keyboard_depth p),
                  dp_collection_depth := dp_collection_depth p - 1\<rparr>)))
      else if tag = 8 \<and> scalar_size_valid data_size then do {
        info \<leftarrow> input_loop (dp_usage_sets p) (dp_global p) (dp_keyboard_depth p) v 0
                 (dp_usage_set_count p) (dp_info p);
        Some (Parsed (reset_locals (p\<lparr>dp_info := info\<rparr>)))
      }
      else Some (Parsed (reset_locals p)))"

definition short_item :: "descriptor_parser \<Rightarrow> nat \<Rightarrow> nat \<Rightarrow> nat \<Rightarrow> u32 \<Rightarrow> item_result option" where
  "short_item p type tag data_size v =
     (if type = 1 then global_item p tag data_size v
      else if type = 2 \<and> (tag = 0 \<or> tag = 1 \<or> tag = 2) then usage_item p tag data_size v
      else if type = 2 \<and> tag = 10 then delimiter_item p data_size v
      else if type = 0 then main_item p tag data_size v
      else Some (Parsed p))"

definition item_data_size :: "u8 \<Rightarrow> nat" where
  "item_data_size pre = (let size_code = unat (pre AND 3) in if size_code = 3 then 4 else size_code)"

function parse_items :: "u8 list \<Rightarrow> nat \<Rightarrow> descriptor_parser \<Rightarrow> item_result option" where
  "parse_items d offset p =
     (if offset < length d then do {
        pre \<leftarrow> byte_at d offset;
        let offset = offset + 1;
        if pre = 0xfe then
          if offset + 2 > length d then Some Invalid
          else do {
            b \<leftarrow> byte_at d offset;
            let long_size = unat b;
            if offset + 2 + long_size > length d then Some Invalid
            else parse_items d (offset + (2 + long_size)) p
          }
        else do {
          let data_size = item_data_size pre;
          if offset + data_size > length d then Some Invalid
          else do {
            v \<leftarrow> item_value d offset data_size;
            r \<leftarrow> short_item p (unat (drop_bit 2 pre AND 3)) (unat (drop_bit 4 pre)) data_size v;
            case r of
              Invalid \<Rightarrow> Some Invalid
            | Parsed p \<Rightarrow> parse_items d (offset + data_size) p
          }
        }
      }
      else Some (Parsed p))"
  by pat_completeness auto
termination
  by (relation "measure (\<lambda>(d, offset, p). length d - offset)") auto

declare parse_items.simps [simp del]

text \<open>A \<open>NULL\<close> descriptor is \<open>None\<close>.\<close>

definition hid_report_descriptor_parse :: "u8 list option \<Rightarrow> hid_report_descriptor_info option" where
  "hid_report_descriptor_parse descriptor =
     (case descriptor of
        None \<Rightarrow> Some zero_info
      | Some d \<Rightarrow>
          if length d = 0 then Some zero_info
          else do {
            r \<leftarrow> parse_items d 0 initial_parser;
            case r of
              Invalid \<Rightarrow> Some invalid_descriptor
            | Parsed p \<Rightarrow>
                if dp_collection_depth p \<noteq> 0 \<or> dp_stack_depth p \<noteq> 0 \<or> dp_delimiter_open p \<or>
                   dp_usage_minimum_pending p
                then Some invalid_descriptor
                else Some ((dp_info p)\<lparr>info_valid := True\<rparr>)
          })"

section \<open>The usage workspace\<close>

text \<open>The usages of one set, in the order in which the descriptor declares them, as pairs of page and
  usage, and what the workspace keeps of them.\<close>

type_synonym usages = "(u32 \<times> u32) list"

fun append_usages :: "local_usage_set \<Rightarrow> usages \<Rightarrow> local_usage_set option" where
  "append_usages s [] = Some s"
| "append_usages s ((page, usage) # us) = do {
     s \<leftarrow> append_usage s page usage;
     append_usages s us
   }"

definition first_index :: "('a \<Rightarrow> bool) \<Rightarrow> 'a list \<Rightarrow> nat" where
  "first_index P xs = length (takeWhile (\<lambda>x. \<not> P x) xs)"

definition non_key :: "u32 \<times> u32 \<Rightarrow> bool" where
  "non_key x \<longleftrightarrow> fst x = 7 \<and> snd x < 4"

definition consumer_usage :: "u32 \<times> u32 \<Rightarrow> bool" where
  "consumer_usage x \<longleftrightarrow> fst x = 0x0c \<and> snd x \<noteq> 0"

definition key_position :: "usages \<Rightarrow> nat \<Rightarrow> u16" where
  "key_position us u =
     (if 4 \<le> u \<and> (7, of_nat u) \<in> set us then of_nat (first_index (\<lambda>x. x = (7, of_nat u)) us) else 0xffff)"

definition workspace_rep :: "local_usage_set \<Rightarrow> usages \<Rightarrow> bool" where
  "workspace_rep s us \<longleftrightarrow>
     length (lus_keyboard_positions s) = 256 \<and>
     length (lus_non_key_positions s) = 32 \<and>
     unat (lus_position s) = min (length us) 0xffffffff \<and>
     lus_has_usage s = (us \<noteq> []) \<and>
     lus_first_is_keyboard_application s = (us \<noteq> [] \<and> hd us = (1, 6)) \<and>
     lus_first_is_consumer_application s = (us \<noteq> [] \<and> hd us = (0x0c, 1)) \<and>
     lus_has_consumer_usage s = (\<exists>x \<in> set us. consumer_usage x) \<and>
     (lus_has_consumer_usage s \<longrightarrow>
        unat (lus_first_consumer_position s) = min (first_index consumer_usage us) 0xffffffff) \<and>
     (\<forall>u<256. lus_keyboard_positions s ! u = key_position (take 256 us) u) \<and>
     (\<forall>i<256. bit (lus_non_key_positions s ! (i div 8)) (i mod 8) = (i < length us \<and> non_key (us ! i)))"

lemma first_index_snoc [simp]:
  "first_index P (xs @ [x]) =
     (if \<exists>y \<in> set xs. P y then first_index P xs else if P x then length xs else Suc (length xs))"
  by (induction xs) (auto simp: first_index_def)

lemma first_index_less: "first_index P xs < length xs \<longleftrightarrow> (\<exists>x \<in> set xs. P x)"
  by (induction xs) (auto simp: first_index_def)

lemma first_index_nth: "x \<in> set xs \<Longrightarrow> P x \<Longrightarrow> P (xs ! first_index P xs)"
  by (induction xs) (auto simp: first_index_def)

lemma first_index_le: "i < length xs \<Longrightarrow> P (xs ! i) \<Longrightarrow> first_index P xs \<le> i"
proof (induction xs arbitrary: i)
  case (Cons x xs)
  then show ?case by (cases i) (auto simp: first_index_def)
qed simp

lemma unat_u16_of_nat: "n < 65536 \<Longrightarrow> unat (of_nat n :: u16) = n"
  by (simp add: unat_of_nat)

lemma key_position_unat:
  assumes "length us \<le> 256"
  shows "unat (key_position us u) =
    (if 4 \<le> u \<and> (7, of_nat u) \<in> set us then first_index (\<lambda>x. x = (7, of_nat u)) us else 65535)"
proof -
  have "(7, of_nat u) \<in> set us \<Longrightarrow> first_index (\<lambda>x. x = (7, of_nat u)) us < length us"
    by (simp add: first_index_less)
  then have "(7, of_nat u) \<in> set us \<Longrightarrow> first_index (\<lambda>x. x = (7, of_nat u)) us < 65536"
    using assms by linarith
  then show ?thesis by (auto simp: key_position_def unat_u16_of_nat)
qed

lemma key_position_free:
  assumes "length us \<le> 256"
  shows "key_position us u = 0xffff \<longleftrightarrow> \<not> (4 \<le> u \<and> (7, of_nat u) \<in> set us)"
proof -
  have "key_position us u = 0xffff \<longleftrightarrow> unat (key_position us u) = 65535"
    by (simp add: word_unat_eq_iff)
  moreover have "(7, of_nat u) \<in> set us \<Longrightarrow> first_index (\<lambda>x. x = (7, of_nat u)) us < length us"
    by (simp add: first_index_less)
  ultimately show ?thesis using assms by (auto simp: key_position_unat)
qed

lemma key_position_snoc:
  assumes "length us < 256"
  shows "key_position (us @ [x]) u =
    (if key_position us u = 0xffff \<and> 4 \<le> u \<and> x = (7, of_nat u) then of_nat (length us)
     else key_position us u)"
  using key_position_free [of us u] assms by (auto simp: key_position_def)

lemma workspace_rep_empty: "workspace_rep empty_usage_set []"
  by (simp add: workspace_rep_def empty_usage_set_def key_position_def first_index_def)

lemma shr3_pos: "unat (drop_bit 3 (w :: u32)) = unat w div 8"
  by (simp add: unat_drop_bit_eq drop_bit_eq_div unat_div_distrib)

lemma and7_pos: "unat ((w :: u32) AND 7) = unat w mod 8"
proof -
  have "w AND 7 = take_bit 3 w" by (simp add: take_bit_eq_mask mask_eq_decr_exp)
  then show ?thesis by (simp add: unsigned_take_bit_eq take_bit_eq_mod unat_mod_distrib)
qed

lemma bit_or_flag:
  fixes b :: u8
  assumes "i < 8" "j < 8"
  shows "bit (b OR push_bit i 1) j \<longleftrightarrow> bit b j \<or> i = j"
  using assms by (auto simp: bit_simps)

text \<open>The new workspace, field by field.\<close>

definition appended_keys :: "local_usage_set \<Rightarrow> u32 \<times> u32 \<Rightarrow> u16 list" where
  "appended_keys s x =
     (if fst x = 7 \<and> \<not> snd x < 4 \<and> snd x \<le> 255 \<and> lus_position s < 256 \<and>
         lus_keyboard_positions s ! unat (snd x) = 0xffff
      then (lus_keyboard_positions s)[unat (snd x) := ucast (lus_position s)]
      else lus_keyboard_positions s)"

definition appended_bits :: "local_usage_set \<Rightarrow> u32 \<times> u32 \<Rightarrow> u8 list" where
  "appended_bits s x =
     (if non_key x \<and> lus_position s < 256
      then (lus_non_key_positions s)[unat (lus_position s) div 8 :=
              lus_non_key_positions s ! (unat (lus_position s) div 8)
              OR push_bit (unat (lus_position s) mod 8) 1]
      else lus_non_key_positions s)"

lemma append_usage_fields:
  assumes "length (lus_keyboard_positions s) = 256" and "length (lus_non_key_positions s) = 32"
  shows "append_usage s page usage = Some \<lparr>
    lus_keyboard_positions = appended_keys s (page, usage),
    lus_non_key_positions = appended_bits s (page, usage),
    lus_position = (if lus_position s \<noteq> 0xffffffff then lus_position s + 1 else lus_position s),
    lus_first_consumer_position =
      (if consumer_usage (page, usage) \<and> \<not> lus_has_consumer_usage s then lus_position s
       else lus_first_consumer_position s),
    lus_has_consumer_usage = (lus_has_consumer_usage s \<or> consumer_usage (page, usage)),
    lus_has_usage = True,
    lus_first_is_keyboard_application =
      (if lus_has_usage s then lus_first_is_keyboard_application s else (page, usage) = (1, 6)),
    lus_first_is_consumer_application =
      (if lus_has_usage s then lus_first_is_consumer_application s else (page, usage) = (0x0c, 1))\<rparr>"
proof -
  have u: "usage \<le> 255 \<Longrightarrow> unat usage < 256" by unat_arith
  have p: "lus_position s < 256 \<Longrightarrow> unat (lus_position s) div 8 < 32" by unat_arith
  show ?thesis
    using assms u p
    by (cases s) (auto simp: append_usage_def Let_def appended_keys_def appended_bits_def non_key_def
        consumer_usage_def shr3_pos and7_pos)
qed

lemma key_usage_iff:
  assumes "u < 256"
  shows "4 \<le> u \<and> x = (7, of_nat u) \<longleftrightarrow>
    fst x = (7 :: u32) \<and> \<not> snd x < (4 :: u32) \<and> snd x \<le> 255 \<and> unat (snd x) = u"
proof -
  have u: "unat (of_nat u :: u32) = u" using assms by (simp add: unat_of_nat)
  have "snd x = of_nat u \<longleftrightarrow> unat (snd x) = u"
    using u by (simp add: word_unat_eq_iff)
  moreover have "unat (snd x) = u \<Longrightarrow> snd x \<le> 255 \<and> (\<not> snd x < 4 \<longleftrightarrow> 4 \<le> u)"
    using assms by (auto simp: word_le_nat_alt word_less_nat_alt)
  ultimately show ?thesis by (cases x) auto
qed

lemma position_less_256:
  assumes "unat (pos :: u32) = min n 0xffffffff"
  shows "pos < 256 \<longleftrightarrow> n < 256" and "n < 256 \<Longrightarrow> unat pos = n"
  using assms by (auto simp: word_less_nat_alt)

lemma appended_keys_rep:
  assumes len: "length (lus_keyboard_positions s) = 256"
    and pos: "unat (lus_position s) = min (length us) 0xffffffff"
    and keys: "\<forall>u<256. lus_keyboard_positions s ! u = key_position (take 256 us) u"
    and u: "u < 256"
  shows "appended_keys s x ! u = key_position (take 256 (us @ [x])) u"
proof (cases "length us < 256")
  case False
  with position_less_256(1) [OF pos] keys u show ?thesis by (simp add: appended_keys_def)
next
  case True
  from position_less_256 [OF pos] True have p: "lus_position s < 256" "unat (lus_position s) = length us"
    by simp_all
  from keys u True have k: "lus_keyboard_positions s ! u = key_position us u" by simp
  have cast: "ucast (lus_position s) = (of_nat (length us) :: u16)"
    using p(2) by (metis of_nat_unat)
  show ?thesis
  proof (cases "4 \<le> u \<and> x = (7, of_nat u)")
    case True
    with key_usage_iff [OF u, of x] have "fst x = 7" "\<not> snd x < 4" "snd x \<le> 255" "unat (snd x) = u"
      by simp_all
    with True p k len u \<open>length us < 256\<close> cast show ?thesis
      by (simp add: appended_keys_def key_position_snoc)
  next
    case False
    with key_usage_iff [OF u, of x] have "appended_keys s x ! u = lus_keyboard_positions s ! u"
      by (auto simp: appended_keys_def nth_list_update)
    with False k \<open>length us < 256\<close> show ?thesis by (auto simp: key_position_snoc)
  qed
qed

lemma div_mod_8_eq: "i div 8 = j div 8 \<and> i mod 8 = j mod 8 \<longleftrightarrow> i = (j :: nat)"
  by (metis div_mult_mod_eq)

lemma appended_bits_rep:
  assumes len: "length (lus_non_key_positions s) = 32"
    and pos: "unat (lus_position s) = min (length us) 0xffffffff"
    and bits: "\<forall>i<256. bit (lus_non_key_positions s ! (i div 8)) (i mod 8) = (i < length us \<and> non_key (us ! i))"
    and i: "i < 256"
  shows "bit (appended_bits s x ! (i div 8)) (i mod 8) = (i < length (us @ [x]) \<and> non_key ((us @ [x]) ! i))"
proof (cases "length us < 256 \<and> non_key x")
  case False
  with position_less_256(1) [OF pos] have "\<not> (non_key x \<and> lus_position s < 256)" by blast
  then have same: "appended_bits s x = lus_non_key_positions s"
    unfolding appended_bits_def by (rule if_not_P)
  from False i have "i = length us \<Longrightarrow> \<not> non_key x" by blast
  with bits i show ?thesis unfolding same by (auto simp: nth_append less_Suc_eq)
next
  case True
  from position_less_256 [OF pos] True have p: "lus_position s < 256" "unat (lus_position s) = length us"
    by simp_all
  define q where "q = length us div 8"
  define r where "r = length us mod 8"
  from True have r: "r < 8" and q: "q < 32" by (simp add: r_def, unfold q_def, linarith)
  have ap: "appended_bits s x =
      (lus_non_key_positions s)[q := lus_non_key_positions s ! q OR push_bit r 1]"
    unfolding appended_bits_def p(2) q_def r_def using True p(1) by simp
  have bit: "bit (appended_bits s x ! (i div 8)) (i mod 8) \<longleftrightarrow>
      bit (lus_non_key_positions s ! (i div 8)) (i mod 8) \<or> i = length us"
  proof (cases "i div 8 = q")
    case True
    have "i mod 8 < 8" by simp
    from bit_or_flag [OF r this] True q len have
      "bit (appended_bits s x ! (i div 8)) (i mod 8) \<longleftrightarrow>
       bit (lus_non_key_positions s ! (i div 8)) (i mod 8) \<or> r = i mod 8"
      unfolding ap by (simp del: push_bit_of_1)
    moreover have "r = i mod 8 \<longleftrightarrow> i = length us"
      using True div_mod_8_eq [of i "length us"] unfolding q_def r_def by auto
    ultimately show ?thesis by blast
  next
    case False
    then have "i \<noteq> length us" by (auto simp: q_def)
    with False show ?thesis unfolding ap by simp
  qed
  show ?thesis unfolding bit using bits i True by (auto simp: nth_append less_Suc_eq)
qed

lemma append_usage_rep:
  assumes rep: "workspace_rep s us"
  shows "\<exists>s'. append_usage s page usage = Some s' \<and> workspace_rep s' (us @ [(page, usage)])"
proof -
  let ?x = "(page, usage)" and ?pos = "lus_position s"
  from rep have len: "length (lus_keyboard_positions s) = 256" "length (lus_non_key_positions s) = 32"
    and pos: "unat ?pos = min (length us) 0xffffffff"
    and keys: "\<forall>u<256. lus_keyboard_positions s ! u = key_position (take 256 us) u"
    and bits: "\<forall>i<256. bit (lus_non_key_positions s ! (i div 8)) (i mod 8) =
                 (i < length us \<and> non_key (us ! i))"
    by (simp_all add: workspace_rep_def)
  have lens: "length (appended_keys s ?x) = 256" "length (appended_bits s ?x) = 32"
    using len by (simp_all add: appended_keys_def appended_bits_def)
  have next_pos: "unat (if ?pos \<noteq> 0xffffffff then ?pos + 1 else ?pos) = min (length (us @ [?x])) 0xffffffff"
    using pos by (auto simp: unat_plus_if' word_unat_eq_iff split: if_splits)
  show ?thesis
    unfolding append_usage_fields [OF len]
    using rep lens next_pos appended_keys_rep [OF len(1) pos keys] appended_bits_rep [OF len(2) pos bits]
    by (simp add: workspace_rep_def first_index_snoc del: append_assoc)
qed


lemma append_usages_snoc:
  "append_usages s (us @ [x]) = append_usages s us \<bind> (\<lambda>s. append_usage s (fst x) (snd x))"
  by (induction s us rule: append_usages.induct) (cases x; auto split: Option.bind_split)+

lemma append_usages_rep: "\<exists>s. append_usages empty_usage_set us = Some s \<and> workspace_rep s us"
proof (induction us rule: rev_induct)
  case Nil
  show ?case by (simp add: workspace_rep_empty)
next
  case (snoc x us)
  then obtain s where s: "append_usages empty_usage_set us = Some s" "workspace_rep s us" by blast
  from append_usage_rep [OF s(2), of "fst x" "snd x"] s(1) show ?case
    by (simp add: append_usages_snoc)
qed

text \<open>The two counters as cardinalities.\<close>

lemma count_foldl:
  fixes c :: u16
  shows "unat c + length xs < 65536 \<Longrightarrow>
    unat (foldl (\<lambda>c x. if P x then c + 1 else c) c xs) = unat c + length (filter P xs)"
proof (induction xs arbitrary: c)
  case Nil
  then show ?case by simp
next
  case (Cons x xs)
  have "unat (c + 1) = unat c + 1" using Cons.prems by (simp add: unat_plus_if')
  with Cons.IH [of "c + 1"] Cons.IH [of c] Cons.prems show ?case by simp
qed

lemma keyboard_usage_count_card:
  assumes "length (lus_keyboard_positions s) = 256"
  shows "unat (keyboard_usage_count s n) = card {u. u < 256 \<and> unat (lus_keyboard_positions s ! u) < unat n}"
proof -
  have "(ucast (p :: u16) :: u32) < n \<longleftrightarrow> unat p < unat n" for p
  proof -
    have "unat p < 2 ^ 32" using unsigned_less [of p, where 'a = nat] by simp
    then have "unat (ucast p :: u32) = unat p" by (simp add: unsigned_ucast_eq take_bit_nat_eq_self)
    then show ?thesis by (simp add: word_less_nat_alt)
  qed
  with count_foldl [of 0 "lus_keyboard_positions s" "\<lambda>p. (ucast p :: u32) < n"] assms
  have "unat (keyboard_usage_count s n) = length (filter (\<lambda>p. unat p < unat n) (lus_keyboard_positions s))"
    by (simp add: keyboard_usage_count_def)
  then show ?thesis using assms by (simp add: length_filter_conv_card)
qed

lemma non_key_loop_count:
  "position + k \<le> 256 \<Longrightarrow> length (lus_non_key_positions s) = 32 \<Longrightarrow> unat count + k < 65536 \<Longrightarrow>
   \<exists>c. non_key_position_loop s position k count = Some c \<and>
       unat c = unat count + card {i. position \<le> i \<and> i < position + k \<and>
                                      bit (lus_non_key_positions s ! (i div 8)) (i mod 8)}"
proof (induction k arbitrary: position count)
  case 0
  then show ?case by (simp add: conj_commute)
next
  case (Suc k)
  let ?B = "\<lambda>i. bit (lus_non_key_positions s ! (i div 8)) (i mod 8)"
  let ?c = "if ?B position then count + 1 else count"
  have "unat (count + 1) = unat count + 1" using Suc.prems by (simp add: unat_plus_if')
  then have c: "unat ?c = unat count + (if ?B position then 1 else 0)" by simp
  have split: "{i. position \<le> i \<and> i < position + Suc k \<and> ?B i} =
      (if ?B position then insert position else id) {i. Suc position \<le> i \<and> i < Suc position + k \<and> ?B i}"
    by (auto simp: le_less_Suc_eq Suc_le_eq dest: le_neq_implies_less)
  have card: "card {i. position \<le> i \<and> i < position + Suc k \<and> ?B i} =
      (if ?B position then 1 else 0) + card {i. Suc position \<le> i \<and> i < Suc position + k \<and> ?B i}"
    unfolding split by simp
  have "position div 8 < 32" using Suc.prems(1) by linarith
  with Suc.IH [of "position + 1" ?c] Suc.prems c card show ?case
    by (auto simp: and_exp_eq_0_iff_not_bit)
qed


text \<open>The positions that hold a key usage, and the keys, are in bijection exactly when no key
  occurs twice.\<close>

definition key_usage :: "u32 \<times> u32 \<Rightarrow> bool" where
  "key_usage x \<longleftrightarrow> fst x = 7 \<and> \<not> snd x < 4 \<and> snd x \<le> 255"

lemma key_set:
  assumes rep: "workspace_rep s us" and n: "n \<le> 256"
  shows "{u. u < 256 \<and> unat (lus_keyboard_positions s ! u) < n} =
         {u. u < 256 \<and> 4 \<le> u \<and> (\<exists>i<n. i < length us \<and> us ! i = (7, of_nat u))}"
proof -
  have "unat (lus_keyboard_positions s ! u) < n \<longleftrightarrow>
      4 \<le> u \<and> (\<exists>i<n. i < length us \<and> us ! i = (7, of_nat u))" if u: "u < 256" for u
  proof -
    let ?vs = "take 256 us" and ?P = "\<lambda>x. x = (7, of_nat u)"
    have l: "length ?vs \<le> 256" by simp
    have pos: "unat (lus_keyboard_positions s ! u) =
        (if 4 \<le> u \<and> (7, of_nat u) \<in> set ?vs then first_index ?P ?vs else 65535)"
      using rep u key_position_unat [OF l, of u] by (simp add: workspace_rep_def)
    show ?thesis
    proof
      assume lt: "unat (lus_keyboard_positions s ! u) < n"
      with pos n have k: "4 \<le> u" and m: "(7, of_nat u) \<in> set ?vs" and f: "first_index ?P ?vs < n"
        by (auto split: if_splits)
      from m first_index_nth [of _ ?vs ?P] have e: "?vs ! first_index ?P ?vs = (7, of_nat u)" by blast
      from m first_index_less [of ?P ?vs] have "first_index ?P ?vs < length ?vs" by blast
      with e f k show "4 \<le> u \<and> (\<exists>i<n. i < length us \<and> us ! i = (7, of_nat u))" by auto
    next
      assume "4 \<le> u \<and> (\<exists>i<n. i < length us \<and> us ! i = (7, of_nat u))"
      then obtain i where k: "4 \<le> u" and i: "i < n" "i < length us" "us ! i = (7, of_nat u)" by blast
      with n have iv: "i < length ?vs" "?vs ! i = (7, of_nat u)" by simp_all
      then have "(7, of_nat u) \<in> set ?vs" by (metis nth_mem)
      moreover from iv have "first_index ?P ?vs \<le> i" by (rule first_index_le)
      ultimately show "unat (lus_keyboard_positions s ! u) < n" using pos k i by simp
    qed
  qed
  then show ?thesis by blast
qed

lemma key_usage_of_nat:
  assumes "key_usage x"
  shows "x = (7, of_nat (unat (snd x)))" and "4 \<le> unat (snd x)" and "unat (snd x) < 256"
  using assms by (cases x; auto simp: key_usage_def word_less_nat_alt word_le_nat_alt)+

text \<open>Counting distinct keys and key positions.\<close>

lemma key_count_eq:
  assumes rep: "workspace_rep s us" and n: "n \<le> 256"
  shows "card {u. u < 256 \<and> unat (lus_keyboard_positions s ! u) < n} =
         card ((!) us ` {i. i < n \<and> i < length us \<and> key_usage (us ! i)})"
proof -
  let ?K = "{u. u < 256 \<and> 4 \<le> u \<and> (\<exists>i<n. i < length us \<and> us ! i = (7, of_nat u))}"
  let ?f = "\<lambda>u. (7, of_nat u) :: u32 \<times> u32"
  have inj: "inj_on ?f ?K"
    by (rule inj_onI) (auto dest: arg_cong [where f = unat] simp: unat_of_nat)
  have "?f ` ?K = (!) us ` {i. i < n \<and> i < length us \<and> key_usage (us ! i)}"
  proof (intro equalityI subsetI)
    fix x assume "x \<in> ?f ` ?K"
    then obtain u i where ui: "x = ?f u" "u < 256" "4 \<le> u" "i < n" "i < length us" "us ! i = ?f u" by blast
    with key_usage_iff [of u "?f u"] have "key_usage (us ! i)" by (simp add: key_usage_def)
    with ui show "x \<in> (!) us ` {i. i < n \<and> i < length us \<and> key_usage (us ! i)}" by force
  next
    fix x assume "x \<in> (!) us ` {i. i < n \<and> i < length us \<and> key_usage (us ! i)}"
    then obtain i where i: "x = us ! i" "i < n" "i < length us" "key_usage (us ! i)" by blast
    from key_usage_of_nat [OF i(4)] i show "x \<in> ?f ` ?K"
      by (intro image_eqI [where x = "unat (snd x)"]) auto
  qed
  with card_image [OF inj] show ?thesis by (simp add: key_set [OF rep n])
qed

lemma all_positions_iff:
  "inj_on ((!) us) {i. i < n \<and> i < length us \<and> key_usage (us ! i)} \<and>
   {i. i < n \<and> i < length us \<and> key_usage (us ! i)} \<union> {i. i < n \<and> i < length us \<and> non_key (us ! i)} = {..<n}
   \<longleftrightarrow>
   n \<le> length us \<and> (\<forall>i<n. key_usage (us ! i) \<or> non_key (us ! i)) \<and>
   (\<forall>i<n. \<forall>j<i. us ! i = us ! j \<longrightarrow> non_key (us ! i))"
  (is "?inj \<and> ?all \<longleftrightarrow> ?len \<and> ?each \<and> ?once")
proof -
  have all: "?all \<longleftrightarrow> ?len \<and> ?each"
  proof
    assume ?all
    then have "i < n \<Longrightarrow> i < length us \<and> (key_usage (us ! i) \<or> non_key (us ! i))" for i
      by blast
    then show "?len \<and> ?each" by (metis not_le less_irrefl)
  next
    assume "?len \<and> ?each"
    then show ?all by auto
  qed
  have "?inj \<longleftrightarrow> ?once" if "?len \<and> ?each"
  proof
    assume inj: ?inj
    show ?once
    proof (intro allI impI)
      fix i j assume ij: "i < n" "j < i" "us ! i = us ! j"
      show "non_key (us ! i)"
      proof (rule ccontr)
        assume "\<not> non_key (us ! i)"
        with that ij have "key_usage (us ! i)" "key_usage (us ! j)" "j < n" "i < length us" "j < length us"
          by auto
        with inj ij show False by (auto dest!: inj_onD [where x = i and y = j])
      qed
    qed
  next
    assume once: ?once
    have no: "key_usage x \<Longrightarrow> \<not> non_key x" for x by (simp add: key_usage_def non_key_def)
    show ?inj
    proof (rule inj_onI)
      fix i j assume i: "i \<in> {i. i < n \<and> i < length us \<and> key_usage (us ! i)}"
        and j: "j \<in> {i. i < n \<and> i < length us \<and> key_usage (us ! i)}" and eq: "us ! i = us ! j"
      from once i eq no [of "us ! i"] have "\<not> j < i" by auto
      moreover from once j eq [symmetric] no [of "us ! j"] have "\<not> i < j" by auto
      ultimately show "i = j" by simp
    qed
  qed
  with all show ?thesis by blast
qed

lemma sum_reaches_bound:
  "a \<le> k \<Longrightarrow> u = k + m \<Longrightarrow> u \<le> n \<Longrightarrow> n \<le> a + m \<longleftrightarrow> a = k \<and> u = (n :: nat)"
  by linarith

lemma bitmap_covered_iff:
  assumes rep: "workspace_rep s us" and n: "n \<le> 256"
  shows "n \<le> card {u. u < 256 \<and> unat (lus_keyboard_positions s ! u) < n} +
             card {i. i < n \<and> bit (lus_non_key_positions s ! (i div 8)) (i mod 8)} \<longleftrightarrow>
    n \<le> length us \<and> (\<forall>i<n. key_usage (us ! i) \<or> non_key (us ! i)) \<and>
    (\<forall>i<n. \<forall>j<i. us ! i = us ! j \<longrightarrow> non_key (us ! i))"
proof -
  let ?K = "{i. i < n \<and> i < length us \<and> key_usage (us ! i)}"
  let ?N = "{i. i < n \<and> i < length us \<and> non_key (us ! i)}"
  have N: "{i. i < n \<and> bit (lus_non_key_positions s ! (i div 8)) (i mod 8)} = ?N"
    using rep n by (auto simp: workspace_rep_def)
  have disj: "?K \<inter> ?N = {}" by (auto simp: key_usage_def non_key_def)
  have fin: "finite ?K" "finite ?N" by simp_all
  have un: "card (?K \<union> ?N) = card ?K + card ?N" by (rule card_Un_disjoint [OF fin disj])
  have sub: "?K \<union> ?N \<subseteq> {..<n}" by auto
  have le: "card ((!) us ` ?K) \<le> card ?K" by (rule card_image_le [OF fin(1)])
  have leK: "card (?K \<union> ?N) \<le> n" using card_mono [OF _ sub] by simp
  have "n \<le> card ((!) us ` ?K) + card ?N \<longleftrightarrow>
      card ((!) us ` ?K) = card ?K \<and> card (?K \<union> ?N) = n"
    by (rule sum_reaches_bound [OF le un leK])
  also have "card (?K \<union> ?N) = n \<longleftrightarrow> ?K \<union> ?N = {..<n}"
    by (rule iffI) (rule card_subset_eq [OF _ sub], simp_all)
  also have "card ((!) us ` ?K) = card ?K \<longleftrightarrow> inj_on ((!) us) ?K"
    by (rule iffI) (erule eq_card_imp_inj_on [OF fin(1)], erule card_image)
  also have "inj_on ((!) us) ?K \<and> ?K \<union> ?N = {..<n} \<longleftrightarrow>
    n \<le> length us \<and> (\<forall>i<n. key_usage (us ! i) \<or> non_key (us ! i)) \<and>
    (\<forall>i<n. \<forall>j<i. us ! i = us ! j \<longrightarrow> non_key (us ! i))"
    by (rule all_positions_iff)
  finally show ?thesis unfolding N key_count_eq [OF rep n] .
qed

section \<open>Memory safety\<close>

definition dp_wf :: "descriptor_parser \<Rightarrow> bool" where
  "dp_wf p \<longleftrightarrow>
     length (dp_usage_sets p) = 4 \<and>
     (\<forall>s \<in> set (dp_usage_sets p). \<exists>us. workspace_rep s us) \<and>
     length (dp_stack p) = 4 \<and> dp_stack_depth p \<le> 4 \<and>
     (\<forall>i<dp_stack_depth p. dp_stack p ! i \<noteq> None) \<and>
     dp_usage_set_count p \<le> 4 \<and> dp_current_usage_set p < 4 \<and>
     (dp_keyboard_depth p \<noteq> 0 \<longrightarrow> info_has_keyboard (dp_info p)) \<and>
     (info_has_nkro_keyboard (dp_info p) \<longrightarrow> info_has_keyboard (dp_info p))"

text \<open>An item is processed without a fault, and either refused or left in a well-formed state.\<close>

definition item_ok :: "item_result option \<Rightarrow> bool" where
  "item_ok r \<longleftrightarrow> (\<exists>x. r = Some x \<and> (\<forall>p. x = Parsed p \<longrightarrow> dp_wf p))"

lemma item_ok_simps [simp]:
  "item_ok (Some Invalid)" "item_ok (Some (Parsed p)) \<longleftrightarrow> dp_wf p" "\<not> item_ok None"
  by (auto simp: item_ok_def)

lemma item_ok_if: "item_ok x \<Longrightarrow> item_ok y \<Longrightarrow> item_ok (if b then x else y)"
  by simp

lemma reset_usage_sets_rep: "s \<in> set reset_usage_sets \<Longrightarrow> \<exists>us. workspace_rep s us"
  using workspace_rep_empty by (auto simp: reset_usage_sets_def)

lemma dp_wf_initial: "dp_wf initial_parser"
  using reset_usage_sets_rep
  by (simp add: dp_wf_def initial_parser_def zero_info_def) (simp add: reset_usage_sets_def)

lemma dp_wf_reset_locals: "dp_wf p \<Longrightarrow> dp_wf (reset_locals p)"
  using reset_usage_sets_rep by (simp add: dp_wf_def reset_locals_def) (simp add: reset_usage_sets_def)

lemma dp_wf_pop:
  assumes "dp_wf p" and "dp_stack_depth p \<noteq> 0"
  shows "\<exists>g. array_at (dp_stack p) (dp_stack_depth p - 1) = Some (Some g) \<and>
    (\<forall>h. dp_wf (p\<lparr>dp_global := h, dp_stack_depth := dp_stack_depth p - 1\<rparr>))"
proof -
  from assms have lt: "dp_stack_depth p - 1 < dp_stack_depth p" "dp_stack_depth p \<le> length (dp_stack p)"
    by (simp_all add: dp_wf_def)
  with assms(1) obtain g where "dp_stack p ! (dp_stack_depth p - 1) = Some g"
    unfolding dp_wf_def by blast
  with lt assms(1) show ?thesis by (simp add: dp_wf_def)
qed

lemma dp_wf_push:
  assumes "dp_wf p" and "dp_stack_depth p \<noteq> 4"
  shows "\<exists>st. array_put (dp_stack p) (dp_stack_depth p) (Some g) = Some st \<and>
    dp_wf (p\<lparr>dp_stack := st, dp_stack_depth := dp_stack_depth p + 1\<rparr>)"
  using assms unfolding dp_wf_def by (auto simp: nth_list_update less_Suc_eq)

lemma dp_wf_update_simps:
  "dp_wf p \<Longrightarrow> dp_wf (p\<lparr>dp_global := g\<rparr>)"
  "dp_wf p \<Longrightarrow> dp_wf (p\<lparr>dp_info := (dp_info p)\<lparr>info_uses_report_ids := b\<rparr>\<rparr>)"
  by (simp_all add: dp_wf_def)

lemma global_item_ok:
  assumes wf: "dp_wf p"
  shows "item_ok (global_item p tag sz v)"
proof -
  have push: "item_ok (if sz \<noteq> 0 \<or> dp_stack_depth p = 4 then Some Invalid
        else do {
          st \<leftarrow> array_put (dp_stack p) (dp_stack_depth p) (Some (dp_global p));
          Some (Parsed (p\<lparr>dp_stack := st, dp_stack_depth := dp_stack_depth p + 1\<rparr>))
        })"
    by (cases "dp_stack_depth p = 4") (use dp_wf_push [OF wf, of "dp_global p"] in \<open>auto\<close>)
  have pop: "item_ok (if sz \<noteq> 0 \<or> dp_stack_depth p = 0 then Some Invalid
        else do {
          slot \<leftarrow> array_at (dp_stack p) (dp_stack_depth p - 1);
          g \<leftarrow> slot;
          Some (Parsed (p\<lparr>dp_global := g, dp_stack_depth := dp_stack_depth p - 1\<rparr>))
        })"
    by (cases "dp_stack_depth p = 0") (use dp_wf_pop [OF wf] in \<open>auto\<close>)
  show ?thesis
    unfolding global_item_def Let_def
    by (rule push | rule pop | rule item_ok_if | (use wf in \<open>simp add: dp_wf_update_simps; fail\<close>))+
qed

lemma modify_usage_set_ok:
  assumes wf: "dp_wf p" and f: "\<And>s us. workspace_rep s us \<Longrightarrow> \<exists>s' us'. f s = Some s' \<and> workspace_rep s' us'"
  shows "\<exists>p'. modify_usage_set p f = Some p' \<and> dp_wf p'"
proof -
  let ?i = "dp_current_usage_set p"
  from wf have i: "?i < length (dp_usage_sets p)" by (simp add: dp_wf_def)
  from wf nth_mem [OF i] obtain us where "workspace_rep (dp_usage_sets p ! ?i) us"
    unfolding dp_wf_def by blast
  with f obtain s' us' where s': "f (dp_usage_sets p ! ?i) = Some s'" "workspace_rep s' us'" by blast
  with i wf show ?thesis
    by (auto simp: modify_usage_set_def dp_wf_def dest!: set_update_subset_insert [THEN subsetD])
qed

lemma append_usage_range_rep:
  "workspace_rep s us \<Longrightarrow> \<exists>s' us'. append_usage_range s page item k = Some s' \<and> workspace_rep s' us'"
proof (induction k arbitrary: s us item)
  case 0
  then show ?case by auto
next
  case (Suc k)
  from append_usage_rep [OF Suc.prems, of page item] Suc.IH [of _ _ "item + 1"] show ?case by force
qed

lemma usage_item_ok: "dp_wf p \<Longrightarrow> item_ok (usage_item p tag sz v)"
proof -
  assume wf: "dp_wf p"
  from append_usage_rep have 1: "\<exists>p'. modify_usage_set p (\<lambda>s. append_usage s page u) = Some p' \<and> dp_wf p'" for page u
    by (intro modify_usage_set_ok [OF wf]) blast
  from append_usage_range_rep have 2: "\<exists>p'. modify_usage_set p (\<lambda>s. append_usage_range s page u k) = Some p' \<and> dp_wf p'" for page u k
    by (intro modify_usage_set_ok [OF wf])
  have upd: "dp_wf q \<Longrightarrow> dp_wf (q\<lparr>dp_usage_minimum_pending := b\<rparr>)"
       "dp_wf q \<Longrightarrow> dp_wf (q\<lparr>dp_usage_minimum_page := a\<rparr>)" "dp_wf q \<Longrightarrow> dp_wf (q\<lparr>dp_usage_minimum := a\<rparr>)" for q b a
    by (simp_all add: dp_wf_def)
  have q: "item_ok (map_option Parsed (modify_usage_set p (\<lambda>s. append_usage s page u)))" for page u
    using 1 [of page u] by auto
  have r: "item_ok (map_option (\<lambda>p. Parsed (p\<lparr>dp_usage_minimum_pending := False\<rparr>))
      (modify_usage_set p (\<lambda>s. append_usage_range s page u k)))" for page u k
    using 2 [of page u k] upd(1) by auto
  from wf show ?thesis
    unfolding usage_item_def Let_def by (simp add: q r upd)
qed

lemma delimiter_item_ok: "dp_wf p \<Longrightarrow> item_ok (delimiter_item p sz v)"
  by (auto simp: delimiter_item_def dp_wf_def)

lemma any_usage_loop_ok: "i + k \<le> length sets \<Longrightarrow> any_usage_loop sets i k acc \<noteq> None"
  by (induction k arbitrary: i acc) simp_all

lemma application_loop_ok:
  "i + k \<le> length sets \<Longrightarrow> (kd \<noteq> 0 \<longrightarrow> info_has_keyboard info) \<Longrightarrow>
   (info_has_nkro_keyboard info \<longrightarrow> info_has_keyboard info) \<Longrightarrow>
   \<exists>info' kd'. application_loop sets depth i k (info, kd) = Some (info', kd') \<and>
     (kd' \<noteq> 0 \<longrightarrow> info_has_keyboard info') \<and>
     (info_has_nkro_keyboard info' \<longrightarrow> info_has_keyboard info')"
proof (induction k arbitrary: i info kd)
  case 0
  then show ?case by simp
next
  case (Suc k)
  then show ?case
    by (simp add: Let_def)
qed

lemma nkro_input_ok:
  assumes "workspace_rep s us"
  shows "\<exists>b. nkro_input s g kd v = Some b \<and> (b \<longrightarrow> kd \<noteq> 0)"
proof -
  have len: "length (lus_non_key_positions s) = 32" using assms by (simp add: workspace_rep_def)
  have "\<exists>c. non_key_position_count s (gs_report_count g) = Some c" if "gs_report_count g \<le> 256"
    using non_key_loop_count [OF _ len, of 0 "unat (gs_report_count g)" 0] that
    by (auto simp: non_key_position_count_def word_le_nat_alt)
  then show ?thesis by (auto simp: nkro_input_def Let_def)
qed

lemma input_loop_ok:
  "i + k \<le> length sets \<Longrightarrow> \<forall>s \<in> set sets. \<exists>us. workspace_rep s us \<Longrightarrow>
   (kd \<noteq> 0 \<longrightarrow> info_has_keyboard info) \<Longrightarrow>
   (info_has_nkro_keyboard info \<longrightarrow> info_has_keyboard info) \<Longrightarrow>
   \<exists>info'. input_loop sets g kd v i k info = Some info' \<and>
     info_has_keyboard info' = info_has_keyboard info \<and>
     (info_has_nkro_keyboard info' \<longrightarrow> info_has_keyboard info')"
proof (induction k arbitrary: i info)
  case 0
  then show ?case by simp
next
  case (Suc k)
  from Suc.prems(1) have "i < length sets" by simp
  from Suc.prems(2) nth_mem [OF this] obtain us where "workspace_rep (sets ! i) us" by blast
  from nkro_input_ok [OF this, of g kd v] obtain b where
    b: "nkro_input (sets ! i) g kd v = Some b" "b \<longrightarrow> kd \<noteq> 0" by blast
  let ?i = "if b then info\<lparr>info_has_nkro_keyboard := True\<rparr> else info"
  let ?j = "if consumer_input (sets ! i) g v then ?i\<lparr>info_has_consumer_control := True\<rparr> else ?i"
  have "(kd \<noteq> 0 \<longrightarrow> info_has_keyboard ?j)" "(info_has_nkro_keyboard ?j \<longrightarrow> info_has_keyboard ?j)"
    "info_has_keyboard ?j = info_has_keyboard info"
    using Suc.prems(3,4) b(2) by auto
  with Suc.IH [of "i + 1" ?j] Suc.prems(1,2) b(1) show ?case
    by (simp add: Let_def split del: if_split)
qed

lemma main_item_ok: "dp_wf p \<Longrightarrow> item_ok (main_item p tag sz v)"
proof -
  assume wf: "dp_wf p"
  let ?sets = "dp_usage_sets p" and ?n = "dp_usage_set_count p"
  from wf have n: "0 + ?n \<le> length ?sets" by (simp add: dp_wf_def)
  from any_usage_loop_ok [OF n, of False] obtain b where b: "any_usage_loop ?sets 0 ?n False = Some b" by auto
  from wf have kb: "dp_keyboard_depth p \<noteq> 0 \<longrightarrow> info_has_keyboard (dp_info p)"
     "info_has_nkro_keyboard (dp_info p) \<longrightarrow> info_has_keyboard (dp_info p)"
     "\<forall>s \<in> set ?sets. \<exists>us. workspace_rep s us" by (simp_all add: dp_wf_def)
  have a: "item_ok (application_loop ?sets d 0 ?n (dp_info p, dp_keyboard_depth p) \<bind>
      (\<lambda>(info, keyboard_depth). Some (Parsed (reset_locals (p\<lparr>dp_info := info,
         dp_collection_depth := c, dp_keyboard_depth := keyboard_depth\<rparr>)))))" for d c
  proof -
    from application_loop_ok [OF n kb(1,2), of d] obtain info' kd' where
      a: "application_loop ?sets d 0 ?n (dp_info p, dp_keyboard_depth p) = Some (info', kd')"
         "kd' \<noteq> 0 \<longrightarrow> info_has_keyboard info'" "info_has_nkro_keyboard info' \<longrightarrow> info_has_keyboard info'"
      by blast
    then show ?thesis using wf by (simp, intro dp_wf_reset_locals) (simp add: dp_wf_def)
  qed
  from input_loop_ok [OF n kb(3,1,2), of "dp_global p" v] obtain info'' where
    i: "input_loop ?sets (dp_global p) (dp_keyboard_depth p) v 0 ?n (dp_info p) = Some info''"
       "info_has_keyboard info'' = info_has_keyboard (dp_info p)"
       "info_has_nkro_keyboard info'' \<longrightarrow> info_has_keyboard info''" by blast
  have r2: "dp_wf (reset_locals (p\<lparr>dp_collection_depth := c\<rparr>))"
    "dp_wf (reset_locals (p\<lparr>dp_info := dp_info p, dp_collection_depth := c, dp_keyboard_depth := dp_keyboard_depth p\<rparr>))"
    "dp_wf (reset_locals (p\<lparr>dp_keyboard_depth := if x then 0 else dp_keyboard_depth p, dp_collection_depth := c\<rparr>))" for c x
    using wf by (intro dp_wf_reset_locals, simp add: dp_wf_def)+
  have r3: "dp_wf (reset_locals (p\<lparr>dp_info := info''\<rparr>))"
    using wf i by (intro dp_wf_reset_locals) (simp add: dp_wf_def)
  show ?thesis
    using b i(1) r3 dp_wf_reset_locals [OF wf] a r2 unfolding main_item_def Let_def
    by simp
qed

lemma short_item_ok: "dp_wf p \<Longrightarrow> item_ok (short_item p type tag sz v)"
  by (simp add: short_item_def global_item_ok usage_item_ok delimiter_item_ok main_item_ok)

section \<open>Items\<close>

text \<open>The items of a descriptor, without a cursor: type, tag and data bytes; long items are
  skipped. \<open>None\<close> is a descriptor that ends inside an item.\<close>

type_synonym hid_item = "nat \<times> nat \<times> u8 list"

function hid_items :: "u8 list \<Rightarrow> hid_item list option" where
  "hid_items [] = Some []"
| "hid_items (pre # r) =
     (if pre = 0xfe then
        (case r of
           n # _ # r' \<Rightarrow> if length r' < unat n then None else hid_items (drop (unat n) r')
         | _ \<Rightarrow> None)
      else if length r < item_data_size pre then None
      else map_option (Cons (unat (drop_bit 2 pre AND 3), unat (drop_bit 4 pre), take (item_data_size pre) r))
             (hid_items (drop (item_data_size pre) r)))"
  by pat_completeness auto
termination by (relation "measure length") auto

fun little_endian :: "u8 list \<Rightarrow> u32" where
  "little_endian [] = 0"
| "little_endian (b # bs) = ucast b OR push_bit 8 (little_endian bs)"

fun run_items :: "descriptor_parser \<Rightarrow> hid_item list \<Rightarrow> item_result option" where
  "run_items p [] = Some (Parsed p)"
| "run_items p ((type, tag, dat) # its) =
     (case short_item p type tag (length dat) (little_endian dat) of
        Some (Parsed p) \<Rightarrow> run_items p its
      | r \<Rightarrow> r)"

lemma item_value_loop_eq:
  "offset + i + k \<le> length d \<Longrightarrow>
   item_value_loop d offset i k v = Some (v OR push_bit (8 * i) (little_endian (take k (drop (offset + i) d))))"
proof (induction k arbitrary: i v)
  case 0
  then show ?case by simp
next
  case (Suc k)
  then have "take (Suc k) (drop (offset + i) d) = d ! (offset + i) # take k (drop (offset + (i + 1)) d)"
    by (simp add: Cons_nth_drop_Suc [symmetric])
  with Suc show ?case by (simp add: push_bit_or or.assoc ac_simps)
qed

lemma item_value_eq:
  "offset + k \<le> length d \<Longrightarrow> item_value d offset k = Some (little_endian (take k (drop offset d)))"
  by (simp add: item_value_def item_value_loop_eq)

text \<open>The cursor loop is the fold over the items, up to the moment a bad descriptor is refused.\<close>

lemma parse_items_run:
  "dp_wf p \<Longrightarrow>
   parse_items d offset p =
     (case hid_items (drop offset d) of
        Some its \<Rightarrow> run_items p its
      | None \<Rightarrow> Some Invalid)"
proof (induction d offset p rule: parse_items.induct)
  case (1 d offset p)
  show ?case
  proof (cases "offset < length d")
    case False
    then show ?thesis by (simp add: parse_items.simps)
  next
    case True
    let ?pre = "d ! offset" and ?o = "offset + 1"
    have dr: "drop offset d = ?pre # drop ?o d" using True by (simp add: Cons_nth_drop_Suc)
    show ?thesis
    proof (cases "?pre = 0xfe")
      case long: True
      show ?thesis
      proof (cases "?o + 2 \<le> length d")
        case False
        then have "length (drop ?o d) < 2" by simp
        then have "hid_items (drop offset d) = None"
          unfolding dr using long by (cases "drop ?o d"; cases "tl (drop ?o d)") auto
        with True False long show ?thesis by (simp add: parse_items.simps)
      next
        case two: True
        let ?n = "unat (d ! ?o)"
        have dr2: "drop ?o d = d ! ?o # d ! (?o + 1) # drop (?o + 2) d"
          using two by (simp add: Cons_nth_drop_Suc)
        have o: "?o < length d" using two by simp
        show ?thesis
        proof (cases "?o + 2 + ?n \<le> length d")
          case False
          with two have "hid_items (drop offset d) = None"
            unfolding dr dr2 using long by simp
          moreover have "parse_items d offset p = Some Invalid"
            by (subst parse_items.simps) (use True long two o False in \<open>simp add: Let_def\<close>)
          ultimately show ?thesis by simp
        next
          case fits: True
          then have "hid_items (drop offset d) = hid_items (drop (?o + (2 + ?n)) d)"
            unfolding dr dr2 using long by (simp add: ac_simps)
          moreover have "parse_items d offset p = parse_items d (?o + (2 + ?n)) p"
            by (subst parse_items.simps) (use True long two o fits in \<open>simp add: Let_def\<close>)
          moreover have "parse_items d (?o + (2 + ?n)) p =
              (case hid_items (drop (?o + (2 + ?n)) d) of Some its \<Rightarrow> run_items p its | None \<Rightarrow> Some Invalid)"
            using 1(1) [OF True _ refl long _ _ refl _ 1(3)] True two o fits by simp
          ultimately show ?thesis by simp
        qed
      qed
    next
      case short: False
      let ?k = "item_data_size ?pre"
      show ?thesis
      proof (cases "?o + ?k \<le> length d")
        case False
        with True have "length (drop ?o d) < ?k" by (simp only: length_drop)
        then have "hid_items (drop offset d) = None" unfolding dr using short by simp
        with True False short show ?thesis by (simp add: parse_items.simps)
      next
        case fits: True
        let ?v = "little_endian (take ?k (drop ?o d))"
        have val: "item_value d ?o ?k = Some ?v" using fits by (rule item_value_eq)
        from short_item_ok [OF 1(3)] obtain r where
          r: "short_item p (unat (drop_bit 2 ?pre AND 3)) (unat (drop_bit 4 ?pre)) ?k ?v = Some r"
          "\<forall>q. r = Parsed q \<longrightarrow> dp_wf q" unfolding item_ok_def by blast
        have its: "hid_items (drop offset d) =
            map_option (Cons (unat (drop_bit 2 ?pre AND 3), unat (drop_bit 4 ?pre), take ?k (drop ?o d)))
              (hid_items (drop (?o + ?k) d))"
          unfolding dr using short fits by (simp add: ac_simps)
        have len: "length (take ?k (drop ?o d)) = ?k" using fits by simp
        have len': "min (length d - ?o) ?k = ?k" "min (length d - Suc offset) ?k = ?k" using fits by simp_all
        have step: "parse_items d offset p = (case r of Invalid \<Rightarrow> Some Invalid | Parsed p \<Rightarrow> parse_items d (?o + ?k) p)"
          by (subst parse_items.simps) (use True short fits val r(1) in \<open>simp add: Let_def split: item_result.split\<close>)
        show ?thesis
        proof (cases r)
          case Invalid
          with step r(1) show ?thesis
            unfolding its by (cases "hid_items (drop (?o + ?k) d)") (simp_all add: len len')
        next
          case (Parsed q)
          have "parse_items d (?o + ?k) q =
              (case hid_items (drop (?o + ?k) d) of Some its \<Rightarrow> run_items q its | None \<Rightarrow> Some Invalid)"
            using 1(2) [OF True _ refl short refl _ _ _ Parsed] True fits val r Parsed by simp
          with step r(1) Parsed show ?thesis
            unfolding its by (cases "hid_items (drop (?o + ?k) d)") (simp_all add: len len')
        qed
      qed
    qed
  qed
qed


lemma run_items_safe:
  "dp_wf p \<Longrightarrow> item_ok (run_items p its)"
proof (induction its arbitrary: p)
  case Nil
  then show ?case by simp
next
  case (Cons it its)
  obtain t g dat where it: "it = (t, g, dat)" by (cases it)
  from short_item_ok [OF Cons.prems, of t g "length dat" "little_endian dat"]
  obtain x where "short_item p t g (length dat) (little_endian dat) = Some x" "\<forall>p. x = Parsed p \<longrightarrow> dp_wf p"
    unfolding item_ok_def by blast
  with Cons.IH it show ?case by (cases x) simp_all
qed

text \<open>The nesting of collections, on the items alone.\<close>

fun collection_depth_after :: "nat \<Rightarrow> hid_item list \<Rightarrow> nat option" where
  "collection_depth_after n [] = Some n"
| "collection_depth_after n ((type, tag, dat) # its) =
     (if type = 0 \<and> tag = 10 then collection_depth_after (n + 1) its
      else if type = 0 \<and> tag = 12 then
        (if n = 0 then None else collection_depth_after (n - 1) its)
      else collection_depth_after n its)"

lemma depth_global: "global_item p tag sz v = Some (Parsed q) \<Longrightarrow> dp_collection_depth q = dp_collection_depth p"
  by (auto simp: global_item_def Let_def split: if_splits Option.bind_splits)

lemma depth_modify: "modify_usage_set p f = Some q \<Longrightarrow> dp_collection_depth q = dp_collection_depth p"
  by (auto simp: modify_usage_set_def split: Option.bind_splits)

lemma depth_usage: "usage_item p tag sz v = Some (Parsed q) \<Longrightarrow> dp_collection_depth q = dp_collection_depth p"
  by (auto simp: usage_item_def Let_def dest: depth_modify split: if_splits)

lemma depth_delimiter: "delimiter_item p sz v = Some (Parsed q) \<Longrightarrow> dp_collection_depth q = dp_collection_depth p"
  by (auto simp: delimiter_item_def split: if_splits)

lemma depth_main:
  "main_item p tag sz v = Some (Parsed q) \<Longrightarrow>
   (if tag = 10 then dp_collection_depth q = dp_collection_depth p + 1
    else if tag = 12 then dp_collection_depth p \<noteq> 0 \<and> dp_collection_depth q = dp_collection_depth p - 1
    else dp_collection_depth q = dp_collection_depth p)"
  by (auto simp: main_item_def Let_def reset_locals_def split: if_splits Option.bind_splits)

lemma run_items_depth:
  "run_items p its = Some (Parsed q) \<Longrightarrow>
   collection_depth_after (dp_collection_depth p) its = Some (dp_collection_depth q)"
proof (induction its arbitrary: p)
  case Nil
  then show ?case by simp
next
  case (Cons it its)
  obtain t g dat where it: "it = (t, g, dat)" by (cases it)
  with Cons.prems obtain r where r: "short_item p t g (length dat) (little_endian dat) = Some (Parsed r)"
    and run: "run_items r its = Some (Parsed q)"
    by (auto split: option.splits item_result.splits)
  from r have "if t = 0 \<and> g = 10 then dp_collection_depth r = dp_collection_depth p + 1
     else if t = 0 \<and> g = 12 then dp_collection_depth p \<noteq> 0 \<and> dp_collection_depth r = dp_collection_depth p - 1
     else dp_collection_depth r = dp_collection_depth p"
    by (auto simp: short_item_def dest: depth_main depth_global depth_usage depth_delimiter split: if_splits)
  with Cons.IH [OF run] it show ?case by (auto split: if_splits)
qed

definition descriptor_result :: "item_result \<Rightarrow> hid_report_descriptor_info" where
  "descriptor_result r =
     (case r of
        Invalid \<Rightarrow> zero_info
      | Parsed p \<Rightarrow>
          if dp_collection_depth p \<noteq> 0 \<or> dp_stack_depth p \<noteq> 0 \<or> dp_delimiter_open p \<or>
             dp_usage_minimum_pending p
          then zero_info else (dp_info p)\<lparr>info_valid := True\<rparr>)"

lemma parse_descriptor_items:
  "d \<noteq> [] \<Longrightarrow> hid_report_descriptor_parse (Some d) =
     (case hid_items d of
        None \<Rightarrow> Some zero_info
      | Some its \<Rightarrow> map_option descriptor_result (run_items initial_parser its))"
  using parse_items_run [OF dp_wf_initial, of d 0]
  by (auto simp: hid_report_descriptor_parse_def descriptor_result_def invalid_descriptor_def
      map_option_case split: option.splits item_result.splits Option.bind_split)

lemma descriptor_parse_cases:
  assumes "hid_report_descriptor_parse (Some d) = Some info" and "info \<noteq> zero_info"
  obtains its p where "hid_items d = Some its" and "run_items initial_parser its = Some (Parsed p)"
    and "dp_wf p" and "dp_collection_depth p = 0" and "dp_stack_depth p = 0"
    and "info = (dp_info p)\<lparr>info_valid := True\<rparr>"
proof -
  have "d \<noteq> []" using assms by (auto simp: hid_report_descriptor_parse_def)
  with assms obtain its r where r: "hid_items d = Some its" "run_items initial_parser its = Some r"
    "info = descriptor_result r"
    by (auto simp: parse_descriptor_items split: option.splits)
  with assms(2) obtain p where "r = Parsed p" "dp_collection_depth p = 0" "dp_stack_depth p = 0"
    "info = (dp_info p)\<lparr>info_valid := True\<rparr>"
    by (cases r) (auto simp: descriptor_result_def split: if_splits)
  with r run_items_safe [OF dp_wf_initial, of its] that show ?thesis by (simp add: item_ok_def)
qed

lemma descriptor_parse_total: "\<exists>info. hid_report_descriptor_parse descriptor = Some info"
proof (cases descriptor)
  case None
  then show ?thesis by (simp add: hid_report_descriptor_parse_def)
next
  case (Some d)
  show ?thesis
  proof (cases "d = []")
    case True
    with Some show ?thesis by (simp add: hid_report_descriptor_parse_def)
  next
    case False
    have "\<exists>r. run_items initial_parser its = Some r" for its
      using run_items_safe [OF dp_wf_initial, of its] by (auto simp: item_ok_def)
    with False Some show ?thesis
      by (auto simp: parse_descriptor_items split: option.split)
  qed
qed

section \<open>Properties\<close>

text \<open>
  C32. Whatever bytes a report descriptor holds, the scan ends, and it reads and writes only inside
  the descriptor, the four usage workspaces (their 256 keyboard positions and 32 bitmap bytes
  included) and the part of the global stack that was written before.
\<close>

theorem descriptor_parse_memory_safe: "\<exists>info. hid_report_descriptor_parse descriptor = Some info"
  by (rule descriptor_parse_total)

text \<open>
  C33. The cursor of the scan visits exactly the items of the descriptor: its result is the one of
  folding the item handlers over the tokenised descriptor, and a descriptor that ends inside an
  item is refused with every flag clear.
\<close>

theorem descriptor_parse_refines_items:
  assumes "d \<noteq> []"
  shows "hid_report_descriptor_parse (Some d) =
     (case hid_items d of
        None \<Rightarrow> Some zero_info
      | Some its \<Rightarrow> map_option descriptor_result (run_items initial_parser its))"
  by (rule parse_descriptor_items [OF assms])

theorem descriptor_parse_refines_items_witness:
  "hid_report_descriptor_parse (Some [0x05, 0x07, 0x09]) = Some zero_info"
proof -
  have "hid_items [0x05, 0x07, 0x09] = None" by code_simp
  with descriptor_parse_refines_items [of "[0x05, 0x07, 0x09]"] show ?thesis by simp
qed

text \<open>
  C34. A descriptor that is not valid reports no capability at all, and an NKRO keyboard is reported
  only together with a keyboard application collection.
\<close>

theorem descriptor_result_consistent:
  assumes "hid_report_descriptor_parse (Some d) = Some info"
  shows "(\<not> info_valid info \<longrightarrow> info = zero_info) \<and>
         (info_has_nkro_keyboard info \<longrightarrow> info_has_keyboard info)"
proof (cases "info = zero_info")
  case True
  then show ?thesis by (simp add: zero_info_def)
next
  case False
  from descriptor_parse_cases [OF assms False] obtain p where
    "dp_wf p" "info = (dp_info p)\<lparr>info_valid := True\<rparr>" by blast
  then show ?thesis by (simp add: dp_wf_def)
qed

text \<open>The witness is the descriptor of a keyboard with a bitmap of 26 keys.\<close>

definition nkro_descriptor :: "u8 list" where
  "nkro_descriptor = [0x05, 0x01, 0x09, 0x06, 0xa1, 0x01, 0x05, 0x07, 0x19, 0x04, 0x29, 0x1d,
     0x15, 0x00, 0x25, 0x01, 0x75, 0x01, 0x95, 0x1a, 0x81, 0x02, 0xc0]"

definition nkro_info :: hid_report_descriptor_info where
  "nkro_info = \<lparr>info_valid = True, info_has_keyboard = True, info_has_consumer_control = False,
     info_has_nkro_keyboard = True, info_uses_report_ids = False\<rparr>"

lemma nkro_descriptor_parsed: "hid_report_descriptor_parse (Some nkro_descriptor) = Some nkro_info"
  by code_simp

theorem descriptor_result_consistent_witness: "info_has_keyboard nkro_info"
  using descriptor_result_consistent [OF nkro_descriptor_parsed] by (simp add: nkro_info_def)

text \<open>
  The collections of an accepted descriptor are balanced: read from the start, no end of
  collection comes without an open one, and at the end none is left open.
\<close>

theorem descriptor_collections_balanced:
  assumes "hid_report_descriptor_parse (Some d) = Some info" and "info_valid info"
  shows "\<exists>its. hid_items d = Some its \<and> collection_depth_after 0 its = Some 0"
proof -
  from assms(2) have "info \<noteq> zero_info" by (auto simp: zero_info_def)
  from descriptor_parse_cases [OF assms(1) this] obtain its p where
    its: "hid_items d = Some its" and run: "run_items initial_parser its = Some (Parsed p)"
    and d: "dp_collection_depth p = 0" by blast
  from run_items_depth [OF run] d its show ?thesis by (simp add: initial_parser_def)
qed

theorem descriptor_collections_balanced_witness:
  "\<exists>its. hid_items nkro_descriptor = Some its \<and> collection_depth_after 0 its = Some 0"
  by (rule descriptor_collections_balanced [OF nkro_descriptor_parsed]) (simp add: nkro_info_def)

text \<open>
  The NKRO test on the compressed workspace means what it says: after the usages \<open>us\<close> were
  appended, the two counters together reach the report count \<open>n\<close> exactly when each of the first \<open>n\<close>
  bitmap positions is declared with a keyboard page usage up to 255 and no key is declared twice
  among them (the four reserved usages below 4 may repeat).
\<close>

theorem nkro_bitmap_spec:
  assumes "unat n \<le> 256"
  shows "\<exists>s c. append_usages empty_usage_set us = Some s \<and> non_key_position_count s n = Some c \<and>
    (unat n \<le> unat (keyboard_usage_count s n) + unat c \<longleftrightarrow>
      unat n \<le> length us \<and> (\<forall>i<unat n. key_usage (us ! i) \<or> non_key (us ! i)) \<and>
      (\<forall>i<unat n. \<forall>j<i. us ! i = us ! j \<longrightarrow> non_key (us ! i)))"
proof -
  from append_usages_rep [of us] obtain s where
    s: "append_usages empty_usage_set us = Some s" and rep: "workspace_rep s us" by blast
  from rep have len: "length (lus_keyboard_positions s) = 256" "length (lus_non_key_positions s) = 32"
    by (simp_all add: workspace_rep_def)
  from non_key_loop_count [OF _ len(2), of 0 "unat n" 0] assms obtain c where
    c: "non_key_position_count s n = Some c"
    "unat c = card {i. i < unat n \<and> bit (lus_non_key_positions s ! (i div 8)) (i mod 8)}"
    by (auto simp: non_key_position_count_def)
  from bitmap_covered_iff [OF rep assms] s c keyboard_usage_count_card [OF len(1), of n]
  show ?thesis by auto
qed

theorem nkro_bitmap_spec_witness:
  "\<exists>s c. append_usages empty_usage_set [(7, 4), (7, 4)] = Some s \<and> non_key_position_count s 2 = Some c \<and>
     \<not> (2 \<le> unat (keyboard_usage_count s 2) + unat c)"
proof -
  have n: "unat (2 :: u32) = 2" by simp
  have "\<not> (\<forall>i<2. \<forall>j<i. [(7, 4), (7, 4)] ! i = ([(7, 4), (7, 4)] :: usages) ! j \<longrightarrow>
      non_key ([(7, 4), (7, 4)] ! i))" (is "\<not> ?P")
  proof
    assume ?P
    then have "non_key ([(7, 4), (7, 4)] ! 1)" by (rule allE [of _ 1]) (auto dest: spec [of _ 0])
    then show False by (simp add: non_key_def)
  qed
  with nkro_bitmap_spec [of 2 "[(7, 4), (7, 4)]"] show ?thesis unfolding n by simp blast
qed

end
