(* ===== verification/Sdp_Parser.thy ===== *)
theory Sdp_Parser
  imports Device_Manager Report_Descriptor
begin

unbundle bit_operations_syntax

text \<open>
  \<open>src/bt/sdp_parser.c\<close>: the reassembly of SDP attributes in a 256-byte buffer and the parser of the
  data elements in it. A \<open>const uint8_t *\<close> into the buffer is the buffer and the position it points
  to; \<open>None\<close> is a read outside the buffer, or a call for which no stack frame is left (below).
  Lengths and offsets that the code keeps in \<open>uint16_t\<close> are 16-bit words.
\<close>

section \<open>Data\<close>

definition SDP_PARSER_BUFFER_SIZE :: nat where
  "SDP_PARSER_BUFFER_SIZE = 256"

record SdpParser =
  sp_buffer :: "u8 list"
  sp_completed_attribute_count :: u16

record DataElement =
  de_type :: nat
  de_size_index :: nat
  de_data :: nat
  de_data_size :: u16
  de_total_size :: u16

section \<open>Operations\<close>

definition size_index_valid :: "nat \<Rightarrow> nat \<Rightarrow> bool" where
  "size_index_valid type size_index =
     (if type = 0 then size_index = 0
      else if type = 1 \<or> type = 2 then size_index \<le> 4
      else if type = 3 then size_index = 1 \<or> size_index = 2 \<or> size_index = 4
      else if type = 4 \<or> type = 6 \<or> type = 7 \<or> type = 8 then size_index \<ge> 5
      else if type = 5 then size_index = 0
      else False)"

fun read_length :: "u8 list \<Rightarrow> nat \<Rightarrow> nat \<Rightarrow> u32 \<Rightarrow> u32 option" where
  "read_length buffer pos 0 data_size = Some data_size"
| "read_length buffer pos (Suc k) data_size = do {
     b \<leftarrow> byte_at buffer pos;
     read_length buffer (pos + 1) k (push_bit 8 data_size OR ucast b)
   }"

text \<open>Header size and data size, \<open>Some None\<close> when the length bytes do not fit.\<close>

definition element_header ::
    "u8 list \<Rightarrow> nat \<Rightarrow> u16 \<Rightarrow> nat \<Rightarrow> nat \<Rightarrow> (nat \<times> u32) option option" where
  "element_header buffer pos available type size_index =
     (if type = 0 then Some (Some (1, 0))
      else if size_index \<le> 4 then Some (Some (1, push_bit size_index 1))
      else let length_bytes = 2 ^ (size_index - 5)
           in if 1 + length_bytes > unat available then Some None
              else do {
                data_size \<leftarrow> read_length buffer (pos + 1) length_bytes 0;
                Some (Some (1 + length_bytes, data_size))
              })"

definition read_element :: "u8 list \<Rightarrow> nat \<Rightarrow> u16 \<Rightarrow> DataElement option option" where
  "read_element buffer pos available =
     (if available = 0 then Some None
      else do {
        b \<leftarrow> byte_at buffer pos;
        let type = unat (drop_bit 3 b);
        let size_index = unat (b AND 7);
        if \<not> size_index_valid type size_index then Some None
        else do {
          header \<leftarrow> element_header buffer pos available type size_index;
          case header of
            None \<Rightarrow> Some None
          | Some (header_size, data_size) \<Rightarrow>
              if data_size > 0xffff \<or> header_size + unat data_size > unat available then Some None
              else Some (Some \<lparr>de_type = type, de_size_index = size_index,
                     de_data = pos + header_size, de_data_size = ucast data_size,
                     de_total_size = of_nat (header_size + unat data_size)\<rparr>)
        }
      })"

definition element_uint16 :: "u8 list \<Rightarrow> DataElement \<Rightarrow> u16 option option" where
  "element_uint16 buffer element =
     (if de_data_size element \<noteq> 2 \<or> (de_type element \<noteq> 1 \<and> de_type element \<noteq> 3) then Some None
      else do {
        hi \<leftarrow> byte_at buffer (de_data element);
        lo \<leftarrow> byte_at buffer (de_data element + 1);
        Some (Some (push_bit 8 (ucast hi) OR ucast lo))
      })"

subsection \<open>What an element occupies\<close>

text \<open>An element that was read lies inside the bytes it was read from.\<close>

definition element_fits :: "nat \<Rightarrow> u16 \<Rightarrow> DataElement \<Rightarrow> bool" where
  "element_fits pos available e \<longleftrightarrow>
     0 < unat (de_total_size e) \<and> de_total_size e \<le> available \<and>
     unat (de_data_size e) < unat (de_total_size e) \<and>
     de_data e + unat (de_data_size e) = pos + unat (de_total_size e) \<and> pos < de_data e"

lemma unat_u16_of_nat_less: "n < 65536 \<Longrightarrow> unat (of_nat n :: u16) = n"
  by (simp add: unat_of_nat)

lemma unat_ucast_u32_u16: "(w :: u32) \<le> 0xffff \<Longrightarrow> unat (ucast w :: u16) = unat w"
  by (simp add: unsigned_ucast_eq take_bit_nat_eq_self word_le_nat_alt)

lemma element_header_pos: "element_header buffer pos available type si = Some (Some (h, n)) \<Longrightarrow> 0 < h"
  by (auto simp: element_header_def Let_def split: if_splits Option.bind_splits)

lemma read_element_fits:
  "read_element buffer pos available = Some (Some e) \<Longrightarrow> element_fits pos available e"
proof -
  assume *: "read_element buffer pos available = Some (Some e)"
  then obtain t si h n where
    hdr: "element_header buffer pos available t si = Some (Some (h, n))"
    and n: "n \<le> 0xffff" and fit: "h + unat n \<le> unat available"
    and e: "e = \<lparr>de_type = t, de_size_index = si, de_data = pos + h, de_data_size = ucast n,
       de_total_size = of_nat (h + unat n)\<rparr>"
    by (auto simp: read_element_def Let_def not_less split: if_splits Option.bind_splits option.splits)
  have lt: "h + unat n < 65536" using fit unsigned_less [of available, where 'a = nat] by simp
  from element_header_pos [OF hdr] have h: "0 < h" .
  have "unat (ucast n :: u16) = unat n" using n by (rule unat_ucast_u32_u16)
  moreover have "unat (of_nat (h + unat n) :: u16) = h + unat n" using lt by (rule unat_u16_of_nat_less)
  ultimately show ?thesis using h fit unfolding element_fits_def e by (simp add: word_le_nat_alt)
qed

text \<open>Stepping over an element keeps a 16-bit offset inside the data, without wrap-around.\<close>

lemma offset_step:
  assumes "offset < (n :: u16)" and "t \<le> n - offset"
  shows "unat (offset + t) = unat offset + unat t" and "unat offset + unat t \<le> unat n"
proof -
  have "unat (n - offset) = unat n - unat offset"
    using assms(1) by (simp add: unat_sub_if' word_less_nat_alt)
  with assms show le: "unat offset + unat t \<le> unat n" by (simp add: word_le_nat_alt word_less_nat_alt)
  have "unat n < 65536" using unsigned_less [of n, where 'a = nat] by simp
  with le show "unat (offset + t) = unat offset + unat t" by (simp add: unat_plus_if')
qed

lemma offset_measure:
  assumes "offset < data_size"
    and "read_element buffer pos (data_size - offset) = Some (Some child)"
  shows "unat data_size - unat (offset + de_total_size child) < unat data_size - unat offset"
proof -
  from read_element_fits [OF assms(2)] have t: "de_total_size child \<le> data_size - offset"
    "0 < unat (de_total_size child)" by (simp_all add: element_fits_def)
  from offset_step [OF assms(1) t(1)] t(2) show ?thesis by linarith
qed

subsection \<open>The recursive checks\<close>

text \<open>\<open>base\<close> is the position of \<open>root.data\<close>. The recursion of \<open>validate_element_tree\<close> is bounded by its
  depth argument.\<close>

function validate_element_tree :: "u8 list \<Rightarrow> nat \<Rightarrow> u16 \<Rightarrow> nat \<Rightarrow> bool option"
and validate_children :: "u8 list \<Rightarrow> nat \<Rightarrow> u16 \<Rightarrow> u16 \<Rightarrow> nat \<Rightarrow> bool option" where
  "validate_element_tree buffer pos sz depth =
     (if depth > 4 then Some False
      else do {
        r \<leftarrow> read_element buffer pos sz;
        case r of
          None \<Rightarrow> Some False
        | Some root \<Rightarrow>
            if de_total_size root \<noteq> sz then Some False
            else if de_type root \<noteq> 6 then Some True
            else validate_children buffer (de_data root) (de_data_size root) 0 depth
      })"
| "validate_children buffer base data_size offset depth =
     (if offset < data_size then do {
        r \<leftarrow> read_element buffer (base + unat offset) (data_size - offset);
        case r of
          None \<Rightarrow> Some False
        | Some child \<Rightarrow> do {
            ok \<leftarrow> validate_element_tree buffer (base + unat offset) (de_total_size child) (depth + 1);
            if \<not> ok then Some False
            else validate_children buffer base data_size (offset + de_total_size child) depth
          }
      }
      else Some (offset = data_size))"
  by pat_completeness auto

termination
  by (relation "measures [
        \<lambda>x. case x of Inl (b, p, s, d) \<Rightarrow> 6 - d | Inr (b, p, n, k, d) \<Rightarrow> 5 - d,
        \<lambda>x. case x of Inl _ \<Rightarrow> 0 | Inr (b, p, n, k, d) \<Rightarrow> Suc (unat n - unat k)]")
    (auto dest: offset_measure)

declare validate_element_tree.simps [simp del] validate_children.simps [simp del]

definition psm_in_pair :: "u8 list \<Rightarrow> DataElement \<Rightarrow> u16 option option" where
  "psm_in_pair buffer child = do {
     r \<leftarrow> read_element buffer (de_data child) (de_data_size child);
     case r of
       None \<Rightarrow> Some None
     | Some first \<Rightarrow>
         if de_type first = 3 then do {
           uuid \<leftarrow> element_uint16 buffer first;
           if uuid = Some 0x0100 then
             (let next = de_total_size first
              in if next < de_data_size child then do {
                   r \<leftarrow> read_element buffer (de_data child + unat next) (de_data_size child - next);
                   case r of
                     None \<Rightarrow> Some None
                   | Some second \<Rightarrow>
                       if de_type second = 1 then element_uint16 buffer second else Some None
                 }
                 else Some None)
           else Some None
         }
         else Some None
   }"

text \<open>
  The search for a PSM recurses into every nested sequence without a depth limit. \<open>frames\<close> is the
  number of stack frames left for the recursion: without one, the call is a fault.
\<close>

function find_l2cap_psm :: "nat \<Rightarrow> u8 list \<Rightarrow> nat \<Rightarrow> u16 \<Rightarrow> u16 option option"
and find_psm_children :: "nat \<Rightarrow> u8 list \<Rightarrow> nat \<Rightarrow> u16 \<Rightarrow> u16 \<Rightarrow> u16 option option" where
  "find_l2cap_psm frames buffer pos sz =
     (case frames of
        0 \<Rightarrow> None
      | Suc frames \<Rightarrow> do {
          r \<leftarrow> read_element buffer pos sz;
          case r of
            None \<Rightarrow> Some None
          | Some root \<Rightarrow>
              if de_type root \<noteq> 6 then Some None
              else find_psm_children frames buffer (de_data root) (de_data_size root) 0
        })"
| "find_psm_children frames buffer base data_size offset =
     (if offset < data_size then do {
        r \<leftarrow> read_element buffer (base + unat offset) (data_size - offset);
        case r of
          None \<Rightarrow> Some None
        | Some child \<Rightarrow>
            if de_type child = 6 then do {
              direct \<leftarrow> psm_in_pair buffer child;
              case direct of
                Some psm \<Rightarrow> Some (Some psm)
              | None \<Rightarrow> do {
                  nested \<leftarrow> find_l2cap_psm frames buffer (base + unat offset) (de_total_size child);
                  case nested of
                    Some psm \<Rightarrow> Some (Some psm)
                  | None \<Rightarrow> find_psm_children frames buffer base data_size (offset + de_total_size child)
                }
            }
            else find_psm_children frames buffer base data_size (offset + de_total_size child)
      }
      else Some None)"
  by pat_completeness auto

termination
  by (relation "measures [
        \<lambda>x. case x of Inl (f, b, p, s) \<Rightarrow> f | Inr (f, b, p, n, k) \<Rightarrow> f,
        \<lambda>x. case x of Inl _ \<Rightarrow> 0 | Inr (f, b, p, n, k) \<Rightarrow> Suc (unat n - unat k)]")
    (auto dest: offset_measure)

declare find_l2cap_psm.simps [simp del] find_psm_children.simps [simp del]

text \<open>The entries of a HIDDescriptorList; \<open>acc\<close> is the position and size of the report descriptor
  once the first entry was seen.\<close>

definition descriptor_entry :: "u8 list \<Rightarrow> DataElement \<Rightarrow> (u8 \<times> nat \<times> u16) option option" where
  "descriptor_entry buffer child =
     (if de_type child \<noteq> 6 then Some None
      else do {
        r \<leftarrow> read_element buffer (de_data child) (de_data_size child);
        case r of
          None \<Rightarrow> Some None
        | Some kind \<Rightarrow>
            if de_type kind \<noteq> 1 \<or> de_data_size kind \<noteq> 1 \<or> de_total_size kind \<ge> de_data_size child
            then Some None
            else do {
              r \<leftarrow> read_element buffer (de_data child + unat (de_total_size kind))
                     (de_data_size child - de_total_size kind);
              case r of
                None \<Rightarrow> Some None
              | Some v \<Rightarrow>
                  if de_type v \<noteq> 4 \<or>
                     unat (de_total_size kind) + unat (de_total_size v) \<noteq> unat (de_data_size child)
                  then Some None
                  else do {
                    b \<leftarrow> byte_at buffer (de_data kind);
                    Some (Some (b, de_data v, de_data_size v))
                  }
            }
      })"

function find_descriptor_entries ::
    "u8 list \<Rightarrow> nat \<Rightarrow> u16 \<Rightarrow> u16 \<Rightarrow> nat \<Rightarrow> (nat \<times> u16) option \<Rightarrow> (nat \<times> u16) option option" where
  "find_descriptor_entries buffer base data_size offset entry_index acc =
     (if offset < data_size then do {
        r \<leftarrow> read_element buffer (base + unat offset) (data_size - offset);
        case r of
          None \<Rightarrow> Some None
        | Some child \<Rightarrow> do {
            entry \<leftarrow> descriptor_entry buffer child;
            case entry of
              None \<Rightarrow> Some None
            | Some (kind, descriptor) \<Rightarrow>
                if (entry_index = 0 \<and> kind \<noteq> 0x22) \<or> (entry_index \<noteq> 0 \<and> kind = 0x22)
                then Some None
                else find_descriptor_entries buffer base data_size (offset + de_total_size child)
                       (entry_index + 1) (if entry_index = 0 then Some descriptor else acc)
          }
      }
      else Some acc)"
  by pat_completeness auto

termination
  by (relation "measure (\<lambda>(b, p, n, k, i, a). unat n - unat k)") (auto dest: offset_measure)

declare find_descriptor_entries.simps [simp del]

definition find_report_descriptor :: "u8 list \<Rightarrow> nat \<Rightarrow> u16 \<Rightarrow> (nat \<times> u16) option option" where
  "find_report_descriptor buffer pos sz = do {
     ok \<leftarrow> validate_element_tree buffer pos sz 0;
     if \<not> ok then Some None
     else do {
       r \<leftarrow> read_element buffer pos sz;
       case r of
         None \<Rightarrow> Some None
       | Some root \<Rightarrow>
           if de_type root \<noteq> 6 \<or> de_total_size root \<noteq> sz then Some None
           else find_descriptor_entries buffer (de_data root) (de_data_size root) 0 0 None
     }
   }"

subsection \<open>Attributes\<close>

definition clear_report_flags :: "Device \<Rightarrow> Device" where
  "clear_report_flags device = device\<lparr>dev_report_descriptor_valid := False,
     dev_report_has_keyboard := False, dev_report_has_consumer_control := False,
     dev_report_has_nkro_keyboard := False, dev_report_uses_ids := False\<rparr>"

definition parse_descriptor_list :: "Device \<Rightarrow> u8 list \<Rightarrow> u16 \<Rightarrow> (Device \<times> log_line list) option" where
  "parse_descriptor_list device buffer len = do {
     let device = clear_report_flags
       (device\<lparr>dev_report_descriptor_present := True, dev_report_descriptor_too_large := False\<rparr>);
     r \<leftarrow> find_report_descriptor buffer 0 len;
     case r of
       None \<Rightarrow> Some (device, [(''[BT] HID Report Descriptor malformed'', [])])
     | Some (pos, sz) \<Rightarrow> do {
         bytes \<leftarrow> slice_at buffer pos (unat sz);
         info \<leftarrow> hid_report_descriptor_parse (Some bytes);
         Some (device\<lparr>dev_report_descriptor_valid := info_valid info,
                 dev_report_has_keyboard := info_has_keyboard info,
                 dev_report_has_consumer_control := info_has_consumer_control info,
                 dev_report_has_nkro_keyboard := info_has_nkro_keyboard info,
                 dev_report_uses_ids := info_uses_report_ids info\<rparr>,
               [(''[BT] HID Report Descriptor valid=%u keyboard=%u consumer=%u nkro=%u report_ids=%u bytes=%u'',
                 [LNum (of_bool (info_valid info)), LNum (of_bool (info_has_keyboard info)),
                  LNum (of_bool (info_has_consumer_control info)),
                  LNum (of_bool (info_has_nkro_keyboard info)),
                  LNum (of_bool (info_uses_report_ids info)), LNum (unat sz)])])
       }
   }"

definition parse_psm_list ::
    "nat \<Rightarrow> Device option \<Rightarrow> u16 \<Rightarrow> u8 list \<Rightarrow> u16 \<Rightarrow> (Device option \<times> log_line list) option" where
  "parse_psm_list frames device attribute_id buffer len = do {
     r \<leftarrow> find_l2cap_psm frames buffer 0 len;
     case r of
       None \<Rightarrow> Some (device, [])
     | Some psm \<Rightarrow>
         (let control = (attribute_id = 0x0004)
          in Some (map_option (\<lambda>d. if control then d\<lparr>dev_hid_control_psm := psm\<rparr>
                                   else d\<lparr>dev_hid_interrupt_psm := psm\<rparr>) device,
                   [(''[BT] %s PSM: 0x%04x'',
                     [LStr (if control then ''Control'' else ''Interrupt''), LNum (unat psm)])]))
   }"

definition parse_name ::
    "Device option \<Rightarrow> u16 \<Rightarrow> u8 list \<Rightarrow> u16 \<Rightarrow> (Device option \<times> log_line list) option" where
  "parse_name device attribute_id buffer len = do {
     r \<leftarrow> read_element buffer 0 len;
     case r of
       None \<Rightarrow> Some (device, [])
     | Some e \<Rightarrow>
         if de_type e \<noteq> 4 then Some (device, [])
         else do {
           let text_length = (if unat (de_data_size e) \<ge> DEVICE_MANAGER_NAME_MAX_LENGTH
                              then DEVICE_MANAGER_NAME_MAX_LENGTH - 1 else unat (de_data_size e));
           bytes \<leftarrow> slice_at buffer (de_data e) text_length;
           let name = map byte_char bytes @ [NUL];
           let service = (attribute_id = 0x0100);
           Some (case device of
               Some d \<Rightarrow>
                 if service \<and> \<not> dev_has_name d \<and> text_length > 0
                 then Some (d\<lparr>dev_name := memcpy_to (dev_name d) name, dev_has_name := True\<rparr>)
                 else Some d
             | None \<Rightarrow> None,
             [(''[BT] %s Name: %s'',
               [LStr (if service then ''Service'' else ''Provider''), LStr (c_string name)])])
         }
   }"

definition parse_attribute ::
    "nat \<Rightarrow> Device option \<Rightarrow> u16 \<Rightarrow> u8 list \<Rightarrow> u16 \<Rightarrow> (Device option \<times> log_line list) option" where
  "parse_attribute frames device attribute_id buffer len =
     (if attribute_id = 0x0206 then
        case device of
          None \<Rightarrow> Some (None, [])
        | Some d \<Rightarrow> map_option (map_prod Some id) (parse_descriptor_list d buffer len)
      else if attribute_id = 0x0004 \<or> attribute_id = 0x000d
      then parse_psm_list frames device attribute_id buffer len
      else if attribute_id \<noteq> 0x0100 \<and> attribute_id \<noteq> 0x0102 then Some (device, [])
      else parse_name device attribute_id buffer len)"

definition sdp_parser_reset :: "SdpParser \<Rightarrow> SdpParser" where
  "sdp_parser_reset parser = parser\<lparr>sp_completed_attribute_count := 0\<rparr>"

definition sdp_parser_feed ::
    "nat \<Rightarrow> SdpParser \<Rightarrow> Device option \<Rightarrow> u16 \<Rightarrow> u16 \<Rightarrow> u16 \<Rightarrow> u8 \<Rightarrow>
     (SdpParser \<times> Device option \<times> log_line list) option" where
  "sdp_parser_feed frames parser device attribute_id attribute_length attribute_offset byte =
     (if attribute_length = 0 \<or> attribute_offset \<ge> attribute_length then Some (parser, device, [])
      else if unat attribute_length > SDP_PARSER_BUFFER_SIZE then
        Some (parser,
              (if attribute_id = 0x0206
               then map_option (\<lambda>d. clear_report_flags (d\<lparr>dev_report_descriptor_present := True,
                                      dev_report_descriptor_too_large := True\<rparr>)) device
               else device),
              [])
      else do {
        buffer \<leftarrow> array_put (sp_buffer parser) (unat attribute_offset) byte;
        let parser = parser\<lparr>sp_buffer := buffer\<rparr>;
        if unat attribute_offset + 1 = unat attribute_length then do {
          let parser = parser\<lparr>sp_completed_attribute_count := sp_completed_attribute_count parser + 1\<rparr>;
          (device, lines) \<leftarrow> parse_attribute frames device attribute_id buffer attribute_length;
          Some (parser, device, lines)
        }
        else Some (parser, device, [])
      })"

subsection \<open>Memory safety\<close>

lemma read_length_safe: "pos + k \<le> length buffer \<Longrightarrow> read_length buffer pos k v \<noteq> None"
  by (induction k arbitrary: pos v) simp_all

lemma size_index_valid_cases:
  "size_index_valid type si \<Longrightarrow> si < 8 \<Longrightarrow> type \<noteq> 0 \<Longrightarrow> \<not> si \<le> 4 \<Longrightarrow> 2 ^ (si - 5) \<in> {1, 2, 4 :: nat}"
  by (auto simp: numeral_eq_Suc less_Suc_eq)

lemma element_header_safe:
  assumes "pos + unat available \<le> length buffer"
  shows "element_header buffer pos available type si \<noteq> None"
  using assms read_length_safe [of "pos + 1" "2 ^ (si - 5)" buffer 0]
  by (auto simp: element_header_def Let_def)

lemma read_element_safe:
  assumes "pos + unat available \<le> length buffer"
  shows "read_element buffer pos available \<noteq> None"
proof (cases "available = 0")
  case False
  then have "0 < unat available" by (simp add: unat_gt_0)
  with assms have "pos < length buffer" by simp
  let ?b = "buffer ! pos"
  from element_header_safe [OF assms] obtain hd where
    "element_header buffer pos available (unat (drop_bit 3 ?b)) (unat (?b AND 7)) = Some hd" by blast
  with False \<open>pos < length buffer\<close> show ?thesis
    by (simp add: read_element_def Let_def split: option.split)
qed (simp add: read_element_def)

lemma read_element_cases:
  assumes "pos + unat available \<le> length buffer"
  obtains (none) "read_element buffer pos available = Some None"
  | (elem) e where "read_element buffer pos available = Some (Some e)" "element_fits pos available e"
proof -
  from read_element_safe [OF assms] obtain r where r: "read_element buffer pos available = Some r" by auto
  show ?thesis
  proof (cases r)
    case None
    with r none show ?thesis by simp
  next
    case (Some e)
    with r read_element_fits elem show ?thesis by auto
  qed
qed

text \<open>The data of an element that fits, and what follows it.\<close>

lemma element_fits_data:
  assumes "element_fits pos available e" and "pos + unat available \<le> n"
  shows "de_data e + unat (de_data_size e) \<le> n"
  using assms by (simp add: element_fits_def word_le_nat_alt)

lemma child_bounds:
  assumes "base + unat data_size \<le> n" and "offset < data_size"
  shows "base + unat offset + unat (data_size - offset) \<le> n"
proof -
  have "unat (data_size - offset) = unat data_size - unat offset"
    using assms(2) by (simp add: unat_sub_if' word_less_nat_alt)
  with assms show ?thesis by (simp add: word_less_nat_alt)
qed

lemma child_step:
  assumes "base + unat data_size \<le> n" and "offset < data_size"
    and "element_fits (base + unat offset) (data_size - offset) child"
  shows "base + unat offset + unat (de_total_size child) \<le> n"
    and "unat (offset + de_total_size child) = unat offset + unat (de_total_size child)"
    and "unat offset + unat (de_total_size child) \<le> unat data_size"
    and "0 < unat (de_total_size child)"
proof -
  from assms(3) have t: "de_total_size child \<le> data_size - offset" by (simp add: element_fits_def)
  show "unat (offset + de_total_size child) = unat offset + unat (de_total_size child)"
    and le: "unat offset + unat (de_total_size child) \<le> unat data_size"
    using offset_step [OF assms(2) t] by simp_all
  from le assms(1) show "base + unat offset + unat (de_total_size child) \<le> n" by simp
  from assms(3) show "0 < unat (de_total_size child)" by (simp add: element_fits_def)
qed

lemma read_length_local: "pos + k \<le> length buffer \<Longrightarrow> read_length (buffer @ ext) pos k v = read_length buffer pos k v"
  by (induction k arbitrary: pos v) (simp_all add: nth_append)

lemma read_element_local:
  assumes "pos + unat available \<le> length buffer"
  shows "read_element (buffer @ ext) pos available = read_element buffer pos available"
proof (cases "available = 0")
  case False
  then have "0 < unat available" by (simp add: unat_gt_0)
  with assms have pos: "pos < length buffer" by simp
  have "element_header (buffer @ ext) pos available t si = element_header buffer pos available t si" for t si
    using assms read_length_local [of "pos + 1" "2 ^ (si - 5)" buffer ext 0]
    by (auto simp: element_header_def Let_def)
  with False pos show ?thesis by (simp add: read_element_def nth_append Let_def)
qed (simp add: read_element_def)

lemma validate_local:
  "pos + unat sz \<le> length buffer \<Longrightarrow>
   validate_element_tree buffer pos sz depth \<noteq> None \<and>
   validate_element_tree (buffer @ ext) pos sz depth = validate_element_tree buffer pos sz depth"
  "base + unat data_size \<le> length buffer \<Longrightarrow>
   validate_children buffer base data_size offset depth \<noteq> None \<and>
   validate_children (buffer @ ext) base data_size offset depth =
     validate_children buffer base data_size offset depth"
proof (induction buffer pos sz depth and buffer base data_size offset depth
    rule: validate_element_tree_validate_children.induct)
  case (1 buffer pos sz depth)
  show ?case
  proof (cases "depth > 4")
    case True
    then show ?thesis by (simp add: validate_element_tree.simps)
  next
    case False
    note loc = read_element_local [OF 1(2), of ext]
    from 1(2) show ?thesis
    proof (cases rule: read_element_cases)
      case none
      with False loc show ?thesis by (auto simp: validate_element_tree.simps)
    next
      case (elem e)
      have "de_data e + unat (de_data_size e) \<le> length buffer"
        using element_fits_data [OF elem(2) 1(2)] .
      with 1(1) [OF False elem(1) refl] elem(1) False loc show ?thesis
        by (auto simp: validate_element_tree.simps)
    qed
  qed
next
  case (2 buffer base data_size offset depth)
  show ?case
  proof (cases "offset < data_size")
    case False
    then show ?thesis by (auto simp: validate_children.simps)
  next
    case True
    note bnd = child_bounds [OF 2(3) True]
    note loc = read_element_local [OF bnd, of ext]
    from bnd show ?thesis
    proof (cases rule: read_element_cases)
      case none
      with True loc show ?thesis by (auto simp: validate_children.simps)
    next
      case (elem e)
      from 2(1) [OF True elem(1) refl] child_step(1) [OF 2(3) True elem(2)]
      obtain ok where ok: "validate_element_tree buffer (base + unat offset) (de_total_size e) (depth + 1) = Some ok"
        and ok': "validate_element_tree (buffer @ ext) (base + unat offset) (de_total_size e) (depth + 1) = Some ok"
        by auto
      from 2(2) [OF True elem(1) refl ok] 2(3) True elem(1) ok ok' loc show ?thesis
        by (auto simp: validate_children.simps [where offset = offset])
    qed
  qed
qed

lemma element_uint16_local:
  assumes "de_data e + unat (de_data_size e) \<le> length buffer"
  shows "element_uint16 buffer e \<noteq> None \<and> element_uint16 (buffer @ ext) e = element_uint16 buffer e"
proof (cases "de_data_size e = 2")
  case True
  with assms have "de_data e + 1 < length buffer" by simp
  then show ?thesis by (simp add: element_uint16_def nth_append)
qed (simp add: element_uint16_def)

lemma psm_in_pair_local:
  assumes "de_data child + unat (de_data_size child) \<le> length buffer"
  shows "psm_in_pair buffer child \<noteq> None \<and> psm_in_pair (buffer @ ext) child = psm_in_pair buffer child"
proof -
  note loc = read_element_local [OF assms, of ext]
  from assms show ?thesis
  proof (cases rule: read_element_cases)
    case none
    with loc show ?thesis by (simp add: psm_in_pair_def)
  next
    case (elem e)
    from element_fits_data [OF elem(2) assms] element_uint16_local [of e buffer ext]
    obtain u where u: "element_uint16 buffer e = Some u" "element_uint16 (buffer @ ext) e = Some u" by auto
    show ?thesis
    proof (cases "de_type e = 3 \<and> u = Some 0x0100 \<and> de_total_size e < de_data_size child")
      case False
      with u elem loc show ?thesis by (auto simp: psm_in_pair_def Let_def)
    next
      case True
      then have lt: "de_total_size e < de_data_size child" by simp
      note bnd = child_bounds [OF assms lt]
      note loc2 = read_element_local [OF bnd, of ext]
      from bnd show ?thesis
      proof (cases rule: read_element_cases)
        case none
        with u elem loc loc2 True show ?thesis by (simp add: psm_in_pair_def)
      next
        case s: (elem s)
        from element_fits_data [OF s(2) bnd] element_uint16_local [of s buffer ext]
        have "element_uint16 buffer s \<noteq> None \<and> element_uint16 (buffer @ ext) s = element_uint16 buffer s"
          by blast
        with u elem loc loc2 True s show ?thesis by (auto simp: psm_in_pair_def)
      qed
    qed
  qed
qed

text \<open>One stack frame per nesting level, and a level takes at least two bytes of header.\<close>

lemma sequence_header:
  assumes "read_element buffer pos available = Some (Some e)" and "de_type e = 6"
  shows "unat (de_data_size e) + 2 \<le> unat available"
proof -
  from assms obtain si h n where
    valid: "size_index_valid 6 si" and
    hdr: "element_header buffer pos available 6 si = Some (Some (h, n))"
    and n: "n \<le> 0xffff" and fit: "h + unat n \<le> unat available" and e: "de_data_size e = ucast n"
    by (auto simp: read_element_def Let_def not_less split: if_splits Option.bind_splits option.splits)
  from valid have "5 \<le> si" by (simp add: size_index_valid_def)
  with hdr have "2 \<le> h" by (auto simp: element_header_def Let_def split: if_splits Option.bind_splits)
  with fit e unat_ucast_u32_u16 [OF n] show ?thesis by simp
qed

lemma find_psm_local:
  "pos + unat sz \<le> length buffer \<Longrightarrow> unat sz < 2 * frames \<Longrightarrow>
   find_l2cap_psm frames buffer pos sz \<noteq> None \<and>
   find_l2cap_psm frames (buffer @ ext) pos sz = find_l2cap_psm frames buffer pos sz"
  "base + unat data_size \<le> length buffer \<Longrightarrow> unat data_size < 2 * frames \<Longrightarrow>
   find_psm_children frames buffer base data_size offset \<noteq> None \<and>
   find_psm_children frames (buffer @ ext) base data_size offset =
     find_psm_children frames buffer base data_size offset"
proof (induction frames buffer pos sz and frames buffer base data_size offset
    rule: find_l2cap_psm_find_psm_children.induct)
  case (1 frames buffer pos sz)
  then obtain k where k: "frames = Suc k" by (cases frames) auto
  note loc = read_element_local [OF 1(2), of ext]
  from 1(2) show ?case
  proof (cases rule: read_element_cases)
    case none
    with k loc show ?thesis by (simp add: find_l2cap_psm.simps)
  next
    case (elem e)
    show ?thesis
    proof (cases "de_type e = 6")
      case False
      with k loc elem show ?thesis by (simp add: find_l2cap_psm.simps)
    next
      case True
      from sequence_header [OF elem(1) True] 1(3) k have "unat (de_data_size e) < 2 * k" by simp
      with 1(1) [OF k elem(1) refl] element_fits_data [OF elem(2) 1(2)] True k loc elem(1)
      show ?thesis by (simp add: find_l2cap_psm.simps [of "Suc k"])
    qed
  qed
next
  case (2 frames buffer base data_size offset)
  show ?case
  proof (cases "offset < data_size")
    case False
    then show ?thesis by (simp add: find_psm_children.simps)
  next
    case True
    note bnd = child_bounds [OF 2(4) True]
    note loc = read_element_local [OF bnd, of ext]
    from bnd show ?thesis
    proof (cases rule: read_element_cases)
      case none
      with True loc show ?thesis by (simp add: find_psm_children.simps)
    next
      case (elem e)
      note step = child_step [OF 2(4) True elem(2)]
      show ?thesis
      proof (cases "de_type e = 6")
        case False
        with 2(3) [OF True elem(1) refl False] 2(4,5) True elem(1) loc show ?thesis
          by (simp add: find_psm_children.simps [of frames _ base data_size offset])
      next
        case seq: True
        from psm_in_pair_local [OF element_fits_data [OF elem(2) bnd], of ext]
        obtain d where d: "psm_in_pair buffer e = Some d" "psm_in_pair (buffer @ ext) e = Some d" by auto
        show ?thesis
        proof (cases d)
          case (Some psm)
          with d seq True elem(1) loc show ?thesis
            by (simp add: find_psm_children.simps [of frames _ base data_size offset])
        next
          case None
          note d' = d [unfolded None]
          have "unat (de_total_size e) < 2 * frames" using step 2(5) by linarith
          with 2(1) [OF True elem(1) refl seq d'(1) refl step(1)]
          obtain n where n: "find_l2cap_psm frames buffer (base + unat offset) (de_total_size e) = Some n"
            "find_l2cap_psm frames (buffer @ ext) (base + unat offset) (de_total_size e) = Some n" by auto
          show ?thesis
          proof (cases n)
            case (Some psm)
            with n d' seq True elem(1) loc show ?thesis
              by (simp add: find_psm_children.simps [of frames _ base data_size offset])
          next
            case None
            with 2(2) [OF True elem(1) refl seq d'(1) refl n(1) None 2(4,5)] n d' seq True elem(1) loc
            show ?thesis by (simp add: find_psm_children.simps [of frames _ base data_size offset])
          qed
        qed
      qed
    qed
  qed
qed

lemma descriptor_entry_local:
  assumes "de_data child + unat (de_data_size child) \<le> length buffer"
  shows "descriptor_entry buffer child \<noteq> None \<and>
    descriptor_entry (buffer @ ext) child = descriptor_entry buffer child \<and>
    (\<forall>kind pos sz. descriptor_entry buffer child = Some (Some (kind, pos, sz)) \<longrightarrow>
       pos + unat sz \<le> length buffer)"
proof (cases "de_type child = 6")
  case False
  then show ?thesis by (simp add: descriptor_entry_def)
next
  case seq: True
  note loc = read_element_local [OF assms, of ext]
  from assms show ?thesis
  proof (cases rule: read_element_cases)
    case none
    with seq loc show ?thesis by (simp add: descriptor_entry_def)
  next
    case (elem k)
    show ?thesis
    proof (cases "de_type k = 1 \<and> de_data_size k = 1 \<and> de_total_size k < de_data_size child")
      case False
      with seq loc elem show ?thesis by (auto simp: descriptor_entry_def not_le not_less)
    next
      case True
      then have lt: "de_total_size k < de_data_size child" by simp
      note bnd = child_bounds [OF assms lt]
      note loc2 = read_element_local [OF bnd, of ext]
      from element_fits_data [OF elem(2) assms] True have b: "de_data k < length buffer" by simp
      from bnd show ?thesis
      proof (cases rule: read_element_cases)
        case none
        with seq loc loc2 elem True show ?thesis by (auto simp: descriptor_entry_def)
      next
        case s: (elem s)
        from element_fits_data [OF s(2) bnd] seq loc loc2 elem True s b show ?thesis
          by (auto simp: descriptor_entry_def nth_append)
      qed
    qed
  qed
qed

lemma find_entries_local:
  "base + unat data_size \<le> length buffer \<Longrightarrow>
   \<forall>pos sz. acc = Some (pos, sz) \<longrightarrow> pos + unat sz \<le> length buffer \<Longrightarrow>
   find_descriptor_entries buffer base data_size offset i acc \<noteq> None \<and>
   find_descriptor_entries (buffer @ ext) base data_size offset i acc =
     find_descriptor_entries buffer base data_size offset i acc \<and>
   (\<forall>pos sz. find_descriptor_entries buffer base data_size offset i acc = Some (Some (pos, sz)) \<longrightarrow>
      pos + unat sz \<le> length buffer)"
proof (induction buffer base data_size offset i acc rule: find_descriptor_entries.induct)
  case (1 buffer base data_size offset i acc)
  show ?case
  proof (cases "offset < data_size")
    case False
    with 1(3) show ?thesis by (simp add: find_descriptor_entries.simps)
  next
    case True
    note bnd = child_bounds [OF 1(2) True]
    note loc = read_element_local [OF bnd, of ext]
    from bnd show ?thesis
    proof (cases rule: read_element_cases)
      case none
      with True loc show ?thesis by (simp add: find_descriptor_entries.simps)
    next
      case (elem e)
      note ent = descriptor_entry_local [OF element_fits_data [OF elem(2) bnd], of ext]
      then obtain r where r: "descriptor_entry buffer e = Some r" "descriptor_entry (buffer @ ext) e = Some r"
        by auto
      show ?thesis
      proof (cases r)
        case None
        with r True loc elem show ?thesis by (simp add: find_descriptor_entries.simps)
      next
        case (Some x)
        obtain kind d where x: "x = (kind, d)" by (cases x)
        show ?thesis
        proof (cases "(i = 0 \<and> kind \<noteq> 0x22) \<or> (i \<noteq> 0 \<and> kind = 0x22)")
          case True
          with r Some x \<open>offset < data_size\<close> loc elem show ?thesis
            by (simp add: find_descriptor_entries.simps)
        next
          case False
          let ?acc = "if i = 0 then Some d else acc"
          have "\<forall>pos sz. ?acc = Some (pos, sz) \<longrightarrow> pos + unat sz \<le> length buffer"
            using ent r(1) Some x 1(3) by auto
          note IH = 1(1) [OF True elem(1) refl r(1) Some x [symmetric] False 1(2) this]
          have "find_descriptor_entries buffer base data_size offset i acc =
              find_descriptor_entries buffer base data_size (offset + de_total_size e) (i + 1) ?acc"
            by (subst find_descriptor_entries.simps) (use r Some x False True elem in auto)
          moreover have "find_descriptor_entries (buffer @ ext) base data_size offset i acc =
              find_descriptor_entries (buffer @ ext) base data_size (offset + de_total_size e) (i + 1) ?acc"
            by (subst find_descriptor_entries.simps) (use r Some x False True elem loc in auto)
          ultimately show ?thesis using IH by presburger
        qed
      qed
    qed
  qed
qed

lemma find_report_descriptor_local:
  assumes "pos + unat sz \<le> length buffer"
  shows "find_report_descriptor buffer pos sz \<noteq> None \<and>
    find_report_descriptor (buffer @ ext) pos sz = find_report_descriptor buffer pos sz \<and>
    (\<forall>p n. find_report_descriptor buffer pos sz = Some (Some (p, n)) \<longrightarrow> p + unat n \<le> length buffer)"
proof -
  from validate_local(1) [OF assms, of 0 ext] obtain ok where
    ok: "validate_element_tree buffer pos sz 0 = Some ok" "validate_element_tree (buffer @ ext) pos sz 0 = Some ok"
    by auto
  note loc = read_element_local [OF assms, of ext]
  from assms show ?thesis
  proof (cases rule: read_element_cases)
    case none
    with ok loc show ?thesis by (simp add: find_report_descriptor_def)
  next
    case (elem e)
    from find_entries_local [OF element_fits_data [OF elem(2) assms], of None 0 0 ext] ok loc elem
    show ?thesis by (simp add: find_report_descriptor_def)
  qed
qed

lemma slice_at_append: "i + n \<le> length xs \<Longrightarrow> slice_at (xs @ ext) i n = slice_at xs i n"
  by (simp add: slice_at_def)

lemma parse_descriptor_list_local:
  assumes "unat len \<le> length buffer"
  shows "parse_descriptor_list device buffer len \<noteq> None \<and>
    parse_descriptor_list device (buffer @ ext) len = parse_descriptor_list device buffer len"
proof -
  from assms have "0 + unat len \<le> length buffer" by simp
  note loc = find_report_descriptor_local [OF this, of ext]
  then obtain r where r: "find_report_descriptor buffer 0 len = Some r"
    "find_report_descriptor (buffer @ ext) 0 len = Some r" by auto
  show ?thesis
  proof (cases r)
    case None
    with r show ?thesis by (simp add: parse_descriptor_list_def)
  next
    case (Some x)
    obtain p n where x: "x = (p, n)" by (cases x)
    with Some r loc have bnd: "p + unat n \<le> length buffer" by simp
    obtain info where "hid_report_descriptor_parse (Some (take (unat n) (drop p buffer))) = Some info"
      using descriptor_parse_total by blast
    with r Some x slice_at_append [OF bnd, of ext] bnd show ?thesis
      by (simp add: parse_descriptor_list_def)
  qed
qed


lemma parse_name_local:
  assumes "unat len \<le> length buffer"
  shows "parse_name device a buffer len \<noteq> None \<and> parse_name device a (buffer @ ext) len = parse_name device a buffer len"
proof -
  from assms have bnd: "0 + unat len \<le> length buffer" by simp
  note loc = read_element_local [OF bnd, of ext]
  from bnd show ?thesis
  proof (cases rule: read_element_cases)
    case none
    with loc show ?thesis by (simp add: parse_name_def)
  next
    case (elem e)
    let ?n = "if unat (de_data_size e) \<ge> DEVICE_MANAGER_NAME_MAX_LENGTH
              then DEVICE_MANAGER_NAME_MAX_LENGTH - 1 else unat (de_data_size e)"
    have "?n \<le> unat (de_data_size e)" by (simp add: DEVICE_MANAGER_NAME_MAX_LENGTH_def)
    with element_fits_data [OF elem(2) bnd] have b: "de_data e + ?n \<le> length buffer" by linarith
    then obtain bs where "slice_at buffer (de_data e) ?n = Some bs" "slice_at (buffer @ ext) (de_data e) ?n = Some bs"
      using slice_at_append [OF b, of ext] by simp
    with loc elem show ?thesis by (simp add: parse_name_def Let_def split del: if_split) (simp add: Let_def)
  qed
qed

lemma parse_psm_list_local:
  assumes "unat len \<le> length buffer" and "unat len < 2 * frames"
  shows "parse_psm_list frames device a buffer len \<noteq> None \<and>
    parse_psm_list frames device a (buffer @ ext) len = parse_psm_list frames device a buffer len"
  using find_psm_local(1) [of 0 len buffer frames ext] assms
  by (auto simp: parse_psm_list_def Let_def split: option.split)

lemma parse_attribute_local:
  assumes "unat len \<le> length buffer" and "unat len < 2 * frames"
  shows "parse_attribute frames device a buffer len \<noteq> None \<and>
    parse_attribute frames device a (buffer @ ext) len = parse_attribute frames device a buffer len"
  using parse_descriptor_list_local [OF assms(1)] parse_psm_list_local [OF assms] parse_name_local [OF assms(1)]
  by (auto simp: parse_attribute_def split: option.split) blast

section \<open>Feeding an attribute\<close>

definition sp_wf :: "SdpParser \<Rightarrow> bool" where
  "sp_wf parser \<longleftrightarrow> length (sp_buffer parser) = SDP_PARSER_BUFFER_SIZE"

lemma feed_safe:
  assumes wf: "sp_wf parser" and frames: "128 < frames"
  shows "\<exists>parser' device' lines.
    sdp_parser_feed frames parser device a n i b = Some (parser', device', lines) \<and> sp_wf parser'"
proof (cases "n = 0 \<or> i \<ge> n \<or> unat n > SDP_PARSER_BUFFER_SIZE")
  case True
  with wf show ?thesis by (auto simp: sdp_parser_feed_def)
next
  case False
  then have i: "unat i < unat n" and n: "unat n \<le> 256"
    by (simp_all add: word_less_nat_alt not_le SDP_PARSER_BUFFER_SIZE_def)
  let ?buf = "(sp_buffer parser)[unat i := b]"
  from wf n have len: "unat n \<le> length ?buf" "length ?buf = 256"
    by (simp_all add: sp_wf_def SDP_PARSER_BUFFER_SIZE_def)
  from n frames have "unat n < 2 * frames" by linarith
  from parse_attribute_local [OF len(1) this, of device a "[]"] obtain r where
    "parse_attribute frames device a ?buf n = Some r" by auto
  with False i len wf show ?thesis
    by (cases r) (auto simp: sdp_parser_feed_def sp_wf_def SDP_PARSER_BUFFER_SIZE_def Let_def)
qed

text \<open>The bytes of an attribute, delivered in order.\<close>

fun feed_from ::
    "nat \<Rightarrow> u16 \<Rightarrow> u16 \<Rightarrow> nat \<Rightarrow> u8 list \<Rightarrow> SdpParser \<times> Device option \<times> log_line list \<Rightarrow>
     (SdpParser \<times> Device option \<times> log_line list) option" where
  "feed_from frames a n i [] st = Some st"
| "feed_from frames a n i (b # bs) (parser, device, lines) = do {
     (parser, device, new) \<leftarrow> sdp_parser_feed frames parser device a n (of_nat i) b;
     feed_from frames a n (i + 1) bs (parser, device, lines @ new)
   }"

lemma feed_from_prefix:
  assumes "sp_wf parser" and "unat n \<le> 256" and "i + length bs < unat n"
  shows "feed_from frames a n i bs (parser, device, lines) =
    Some (parser\<lparr>sp_buffer := take i (sp_buffer parser) @ bs @ drop (i + length bs) (sp_buffer parser)\<rparr>,
          device, lines)"
  using assms
proof (induction bs arbitrary: i parser)
  case Nil
  then show ?case by simp
next
  case (Cons b bs)
  have lt: "i < 65536" and u: "unat (of_nat i :: u16) = i"
    using Cons.prems by (simp_all add: unat_of_nat)
  let ?p = "parser\<lparr>sp_buffer := (sp_buffer parser)[i := b]\<rparr>"
  have i: "i < length (sp_buffer parser)" using Cons.prems by (simp add: sp_wf_def SDP_PARSER_BUFFER_SIZE_def)
  have n0: "n \<noteq> 0" using Cons.prems(3) by (auto simp: unat_eq_0)
  have "sdp_parser_feed frames parser device a n (of_nat i) b = Some (?p, device, [])"
    using Cons.prems u i n0 by (simp add: sdp_parser_feed_def word_le_nat_alt SDP_PARSER_BUFFER_SIZE_def)
  moreover have "sp_wf ?p" using Cons.prems(1) by (simp add: sp_wf_def)
  moreover have "take (Suc i) ((sp_buffer parser)[i := b]) = take i (sp_buffer parser) @ [b]"
    using i by (simp add: take_Suc_conv_app_nth)
  moreover have "drop (Suc (i + length bs)) ((sp_buffer parser)[i := b]) = drop (Suc (i + length bs)) (sp_buffer parser)"
    by simp
  ultimately show ?case using Cons.IH [of ?p "Suc i"] Cons.prems by simp
qed

lemma feed_from_append:
  "feed_from frames a n i (bs @ cs) st =
   feed_from frames a n i bs st \<bind> feed_from frames a n (i + length bs) cs"
proof (induction bs arbitrary: i st)
  case Nil
  then show ?case by simp
next
  case (Cons x bs)
  obtain p d l where st: "st = (p, d, l)" by (cases st)
  show ?case
  proof (cases "sdp_parser_feed frames p d a n (of_nat i) x")
    case None
    with st show ?thesis by simp
  next
    case (Some r)
    obtain p' d' l' where "r = (p', d', l')" by (cases r)
    with Some st Cons.IH [of "i + 1"] show ?thesis by simp
  qed
qed

lemma feed_attribute:
  assumes wf: "sp_wf parser" and n: "length bytes = unat n" "0 < unat n" "unat n \<le> 256"
    and frames: "128 < frames"
  shows "\<exists>device' new. parse_attribute frames device a bytes n = Some (device', new) \<and>
    feed_from frames a n 0 bytes (parser, device, lines) =
      Some (\<lparr>sp_buffer = bytes @ drop (unat n) (sp_buffer parser),
             sp_completed_attribute_count = sp_completed_attribute_count parser + 1\<rparr>,
            device', lines @ new)"
proof -
  from n obtain bs b where bytes: "bytes = bs @ [b]" by (cases bytes rule: rev_cases) auto
  let ?buf = "bs @ drop (length bs) (sp_buffer parser)"
  have len: "length bs < unat n" "unat n = Suc (length bs)" using n bytes by simp_all
  from n len have lb: "length bs \<le> 255" by simp
  have pre: "feed_from frames a n 0 bs (parser, device, lines) = Some (parser\<lparr>sp_buffer := ?buf\<rparr>, device, lines)"
    using feed_from_prefix [OF wf n(3), of 0 bs] len by simp
  have blen: "length (sp_buffer parser) = 256" using wf by (simp add: sp_wf_def SDP_PARSER_BUFFER_SIZE_def)
  have u: "unat (of_nat (length bs) :: u16) = length bs" using n len by (simp add: unat_of_nat)
  have "drop (length bs) (sp_buffer parser) \<noteq> []" using blen n len by simp
  then obtain c r where dr: "drop (length bs) (sp_buffer parser) = c # r"
    by (cases "drop (length bs) (sp_buffer parser)") auto
  then have "r = drop (unat n) (sp_buffer parser)"
    unfolding len(2) by (metis drop_Suc list.sel(3) tl_drop)
  then have buf: "?buf[length bs := b] = bytes @ drop (unat n) (sp_buffer parser)"
    unfolding dr bytes by simp
  from n frames have fr: "unat n < 2 * frames" by linarith
  from parse_attribute_local [OF _ fr, of bytes device a "drop (unat n) (sp_buffer parser)"] n
  obtain device' new where pa: "parse_attribute frames device a bytes n = Some (device', new)"
    "parse_attribute frames device a (bytes @ drop (unat n) (sp_buffer parser)) n = Some (device', new)"
    by auto
  have "sdp_parser_feed frames (parser\<lparr>sp_buffer := ?buf\<rparr>) device a n (of_nat (length bs)) b =
      Some (\<lparr>sp_buffer = bytes @ drop (unat n) (sp_buffer parser),
             sp_completed_attribute_count = sp_completed_attribute_count parser + 1\<rparr>, device', new)"
    using len u blen pa buf lb
    by (simp add: sdp_parser_feed_def word_le_nat_alt SDP_PARSER_BUFFER_SIZE_def unat_eq_0 [symmetric]
        Let_def n)
  with pre show ?thesis using pa(1) unfolding bytes feed_from_append by simp
qed

section \<open>Attributes as a keyboard sends them\<close>

text \<open>A HIDDescriptorList with one report descriptor, and a ProtocolDescriptorList of L2CAP and HIDP.\<close>

definition hid_descriptor_list :: "u8 list \<Rightarrow> u8 list" where
  "hid_descriptor_list d =
     [0x35, of_nat (length d + 6), 0x35, of_nat (length d + 4), 0x08, 0x22, 0x25, of_nat (length d)] @ d"

definition protocol_list :: "u16 \<Rightarrow> u8 list" where
  "protocol_list psm =
     [0x35, 0x0d, 0x35, 0x06, 0x19, 0x01, 0x00, 0x09, ucast (drop_bit 8 psm), ucast psm,
      0x35, 0x03, 0x19, 0x00, 0x11]"

text \<open>Reading a sequence or string with a one-byte length, and a byte or a 16-bit value.\<close>

lemma read_short_element:
  assumes b: "byte_at buffer pos = Some b" "byte_at buffer (pos + 1) = Some l"
    and hd: "b = 0x35 \<or> b = 0x25" and fit: "unat l + 2 \<le> unat available"
  shows "read_element buffer pos available = Some (Some \<lparr>de_type = (if b = 0x35 then 6 else 4),
    de_size_index = 5, de_data = pos + 2, de_data_size = ucast l, de_total_size = ucast l + 2\<rparr>)"
proof -
  have l: "unat l < 256" using unsigned_less [of l, where 'a = nat] by simp
  have av: "available \<noteq> 0" using fit by auto
  have ul: "unat (ucast l :: u32) = unat l"
    using l by (simp add: unsigned_ucast_eq take_bit_nat_eq_self)
  then have le: "\<not> (ucast l :: u32) > 0xffff" using l by (simp add: word_less_nat_alt)
  have tot: "(of_nat (2 + unat l) :: u16) = ucast l + 2" by (simp add: of_nat_unat)
  have cast: "(ucast (ucast l :: u32) :: u16) = ucast l"
    by (rule bit_word_eqI) (auto simp: bit_simps)
  let ?t = "if b = 0x35 then 6 else 4 :: nat"
  have parts: "unat (drop_bit 3 b) = ?t" "unat (b AND 7) = 5" "size_index_valid ?t 5"
    using hd by (auto simp: size_index_valid_def)
  have hdr: "element_header buffer pos available ?t 5 = Some (Some (2, ucast l))"
    using b(2) fit by (simp add: element_header_def)
  show ?thesis
    unfolding read_element_def Let_def b(1) bind.bind_lunit parts hdr
    using av le fit parts(3) by (simp add: ul cast of_nat_unat)
qed

lemma read_byte_element:
  assumes "byte_at buffer pos = Some 0x08" and "2 \<le> unat available"
  shows "read_element buffer pos available = Some (Some \<lparr>de_type = 1, de_size_index = 0,
    de_data = pos + 1, de_data_size = 1, de_total_size = 2\<rparr>)"
  using assms by (auto simp: read_element_def size_index_valid_def element_header_def array_at_eq_Some
    word_less_nat_alt)

lemma read_u16_element:
  assumes "byte_at buffer pos = Some b" and "b = 0x09 \<or> b = 0x19" and "3 \<le> unat available"
  shows "read_element buffer pos available = Some (Some \<lparr>de_type = (if b = 0x09 then 1 else 3),
    de_size_index = 1, de_data = pos + 1, de_data_size = 2, de_total_size = 3\<rparr>)"
  using assms by (auto simp: read_element_def size_index_valid_def element_header_def array_at_eq_Some
    word_less_nat_alt)

lemma psm_of_protocol_list:
  "find_l2cap_psm (Suc frames) (protocol_list psm) 0 15 = Some (Some psm)"
proof -
  have "push_bit 8 (ucast (ucast (drop_bit 8 psm) :: u8)) OR ucast (ucast psm :: u8) = psm"
    by (rule bit_word_eqI) (auto simp: bit_simps)
  then show ?thesis
    by (simp add: find_l2cap_psm.simps find_psm_children.simps protocol_list_def read_short_element
       psm_in_pair_def read_u16_element element_uint16_def)
qed

text \<open>Nested empty sequences: a data element of \<open>2 * n + 2\<close> bytes with \<open>n + 1\<close> levels.\<close>

fun nested :: "nat \<Rightarrow> u8 list" where
  "nested 0 = [0x35, 0]"
| "nested (Suc n) = 0x35 # of_nat (2 * n + 2) # nested n"

lemma length_nested [simp]: "length (nested n) = 2 * n + 2"
  by (induction n) simp_all

lemma nested_root:
  assumes "n \<le> 127"
  shows "read_element (pre @ nested n) (length pre) (of_nat (2 * n + 2)) =
    Some (Some \<lparr>de_type = 6, de_size_index = 5, de_data = length pre + 2,
      de_data_size = of_nat (2 * n), de_total_size = of_nat (2 * n + 2)\<rparr>)"
proof -
  have b: "byte_at (pre @ nested n) (length pre) = Some 0x35"
    "byte_at (pre @ nested n) (length pre + 1) = Some (of_nat (2 * n))"
    by (cases n; simp add: nth_append)+
  have u: "unat (of_nat (2 * n) :: u8) = 2 * n" "unat (of_nat (2 * n + 2) :: u16) = 2 * n + 2"
    using assms by (simp_all only: unat_of_nat) simp_all
  have c: "(ucast (of_nat (2 * n) :: u8) :: u16) = of_nat (2 * n)"
    using u(1) by (metis of_nat_unat)
  show ?thesis
    using read_short_element [OF b, of "of_nat (2 * n + 2)"] u unfolding c by (simp add: add.commute)
qed

lemma nested_search:
  "n \<le> 127 \<Longrightarrow>
   find_l2cap_psm frames (pre @ nested n) (length pre) (of_nat (2 * n + 2)) =
     (if frames \<le> n then None else Some None)"
proof (induction n arbitrary: frames pre)
  case 0
  from nested_root [of 0 pre] show ?case
    by (cases frames) (simp_all add: find_l2cap_psm.simps find_psm_children.simps)
next
  case (Suc n)
  let ?b = "pre @ nested (Suc n)" and ?pre = "pre @ [0x35, of_nat (2 * n + 2)]"
  have b: "?b = ?pre @ nested n" by simp
  note root = nested_root [OF Suc.prems, of pre]
  have "n \<le> 127" using Suc.prems by simp
  note child = nested_root [OF this, of ?pre, folded b]
  note IH = Suc.IH [OF \<open>n \<le> 127\<close>, of _ ?pre, folded b]
  have pos: "(0 :: u16) < of_nat (2 * n + 2)"
    using Suc.prems by (simp only: word_less_nat_alt unat_of_nat) simp
  have pair: "psm_in_pair ?b \<lparr>de_type = 6, de_size_index = 5, de_data = length ?pre + 2,
      de_data_size = of_nat (2 * n), de_total_size = of_nat (2 * n + 2)\<rparr> = Some None"
  proof (cases n)
    case 0
    then show ?thesis by (simp add: psm_in_pair_def read_element_def)
  next
    case (Suc m)
    have b2: "?b = (?pre @ [0x35, of_nat (2 * m + 2)]) @ nested m" using Suc by simp
    have "m \<le> 127" using Suc Suc.prems by simp
    note grand = nested_root [OF this, of "?pre @ [0x35, of_nat (2 * m + 2)]", folded b2]
    have "2 * n = 2 * m + 2" using Suc by simp
    then show ?thesis using grand by (simp add: psm_in_pair_def)
  qed
  show ?case
  proof (cases frames)
    case 0
    then show ?thesis by (simp add: find_l2cap_psm.simps)
  next
    case (Suc k)
    have e: "2 * Suc n = 2 * n + 2" by simp
    have "find_l2cap_psm frames ?b (length pre) (of_nat (2 * Suc n + 2)) =
        find_psm_children k ?b (length ?pre) (of_nat (2 * n + 2)) 0"
      unfolding Suc find_l2cap_psm.simps [of "Suc k"] using root by (simp del: nested.simps)
    also have "\<dots> = (if k \<le> n then None else Some None)"
      using pos child pair IH [of k]
      by (subst find_psm_children.simps) (simp add: find_psm_children.simps del: nested.simps)
    finally show ?thesis using Suc by simp
  qed
qed

subsection \<open>The report descriptor of a descriptor list\<close>

lemma hid_descriptor_list_found:
  assumes "length d \<le> 248"
  shows "find_report_descriptor (hid_descriptor_list d) 0 (of_nat (length d + 8)) =
    Some (Some (8, of_nat (length d)))"
proof -
  let ?b = "hid_descriptor_list d"
  define w :: u16 where "w = of_nat (length d)"
  have w: "unat w = length d" using assms by (simp add: w_def unat_of_nat)
  have uw: "c \<le> 8 \<Longrightarrow> unat (of_nat c + w) = length d + c" for c
    using assms unfolding w_def by (simp only: unat_of_nat flip: of_nat_add) simp
  have u8: "c \<le> 6 \<Longrightarrow> unat (of_nat (length d + c) :: u8) = length d + c" for c
    using assms by (simp only: unat_of_nat) simp
  have cast: "c \<le> 6 \<Longrightarrow> (ucast (of_nat (length d + c) :: u8) :: u16) = of_nat c + w" for c
    using u8 [of c] unfolding w_def by (metis of_nat_unat of_nat_add add.commute)
  have at: "byte_at ?b 0 = Some 0x35" "byte_at ?b 1 = Some (of_nat (length d + 6))"
    "byte_at ?b 2 = Some 0x35" "byte_at ?b 3 = Some (of_nat (length d + 4))"
    "byte_at ?b 4 = Some 0x08" "byte_at ?b 5 = Some 0x22" "byte_at ?b 6 = Some 0x25"
    "byte_at ?b 7 = Some (of_nat (length d + 0))"
    by (simp_all add: hid_descriptor_list_def)
  have root: "read_element ?b 0 (8 + w) = Some (Some \<lparr>de_type = 6, de_size_index = 5, de_data = 2,
      de_data_size = 6 + w, de_total_size = 8 + w\<rparr>)"
    using read_short_element [of ?b 0 "0x35" _ "8 + w"] at(1,2) u8 [of 6] uw [of 8] cast [of 6]
    by simp
  have entry: "read_element ?b 2 (6 + w) = Some (Some \<lparr>de_type = 6, de_size_index = 5, de_data = 4,
      de_data_size = 4 + w, de_total_size = 6 + w\<rparr>)"
    using read_short_element [of ?b 2 "0x35" _ "6 + w"] at(3,4) u8 [of 4] uw [of 6] cast [of 4]
    by simp
  have kind: "n \<ge> 2 \<Longrightarrow> read_element ?b 4 n = Some (Some \<lparr>de_type = 1, de_size_index = 0,
      de_data = 5, de_data_size = 1, de_total_size = 2\<rparr>)" for n
    using read_byte_element [of ?b 4 n] at(5) by (simp add: word_le_nat_alt)
  have str: "read_element ?b 6 (2 + w) = Some (Some \<lparr>de_type = 4, de_size_index = 5, de_data = 8,
      de_data_size = w, de_total_size = 2 + w\<rparr>)"
    using read_short_element [of ?b 6 "0x25" _ "2 + w"] at(7,8) u8 [of 0] uw [of 2] cast [of 0]
    by simp
  have lt: "0 < 6 + w" "0 < 4 + w" "2 < 4 + w" "2 \<le> 4 + w" "(2 :: u16) \<le> 2"
    using uw [of 6] uw [of 4] by (simp_all add: word_less_nat_alt word_le_nat_alt)
  have ne: "2 + w \<noteq> 0" using uw [of 2] by auto
  have u2: "unat (4 + w) = length d + 4" "unat (2 + w) = length d + 2"
    using uw [of 4] uw [of 2] by simp_all
  have valid: "validate_element_tree ?b 0 (8 + w) 0 = Some True"
    using root entry kind str lt u2
    by (simp add: validate_element_tree.simps validate_children.simps)
  have "find_descriptor_entries ?b 2 (6 + w) 0 0 None = Some (Some (8, w))"
    using entry kind str lt u2 at(6) w ne
    by (simp add: find_descriptor_entries.simps descriptor_entry_def)
  then have "find_report_descriptor ?b 0 (8 + w) = Some (Some (8, w))"
    using valid root by (simp add: find_report_descriptor_def)
  then show ?thesis by (simp add: w_def add.commute)
qed


section \<open>Properties\<close>

text \<open>
  Whatever an SDP response delivers, in whatever order, feeding a byte stays inside the 256-byte
  buffer and inside every data element: with 129 stack frames for the search of nested sequences,
  which the largest attribute can need, no call faults, and the buffer keeps its size.
\<close>

theorem sdp_feed_memory_safe:
  assumes "sp_wf parser" and "128 < frames"
  shows "\<exists>parser' device' lines.
    sdp_parser_feed frames parser device a n i b = Some (parser', device', lines) \<and> sp_wf parser'"
  by (rule feed_safe [OF assms])

definition idle_parser :: SdpParser where
  "idle_parser = \<lparr>sp_buffer = replicate 256 0, sp_completed_attribute_count = 0\<rparr>"

lemma sp_wf_idle: "sp_wf idle_parser"
  by (simp add: sp_wf_def idle_parser_def SDP_PARSER_BUFFER_SIZE_def)

theorem sdp_feed_memory_safe_witness:
  "\<exists>parser' device' lines.
    sdp_parser_feed 129 idle_parser None 0x0100 1 0 0x25 = Some (parser', device', lines) \<and> sp_wf parser'"
  by (rule sdp_feed_memory_safe [OF sp_wf_idle]) simp

text \<open>
  C31. Reassembly: the bytes of an attribute of 1 to 256 bytes, delivered one at a time in order, are
  parsed exactly once, as a whole, when the last one arrives; what an earlier attribute left in the
  buffer has no influence on the result, and the attribute counter advances by one.
\<close>

theorem sdp_attribute_reassembled:
  assumes "sp_wf parser" and "length bytes = unat n" and "0 < unat n" and "unat n \<le> 256"
    and "128 < frames"
  shows "\<exists>device' new. parse_attribute frames device a bytes n = Some (device', new) \<and>
    feed_from frames a n 0 bytes (parser, device, lines) =
      Some (\<lparr>sp_buffer = bytes @ drop (unat n) (sp_buffer parser),
             sp_completed_attribute_count = sp_completed_attribute_count parser + 1\<rparr>,
            device', lines @ new)"
  by (rule feed_attribute [OF assms])

theorem sdp_attribute_reassembled_witness:
  "\<exists>device' new. parse_attribute 129 None 0x0102 [0x25, 0x01, 0x41] 3 = Some (device', new) \<and>
    feed_from 129 0x0102 3 0 [0x25, 0x01, 0x41] (idle_parser, None, []) =
      Some (\<lparr>sp_buffer = [0x25, 0x01, 0x41] @ drop (unat (3 :: u16)) (sp_buffer idle_parser),
             sp_completed_attribute_count = sp_completed_attribute_count idle_parser + 1\<rparr>,
            device', [] @ new)"
  by (rule sdp_attribute_reassembled [OF sp_wf_idle]) simp_all

text \<open>
  A report descriptor of up to 248 bytes that a keyboard publishes in its HIDDescriptorList
  reaches the descriptor scan unchanged: the device is marked with exactly the capabilities that
  the scan of those bytes reports.
\<close>

theorem report_descriptor_delivered:
  assumes "length d \<le> 248"
  shows "\<exists>info lines. hid_report_descriptor_parse (Some d) = Some info \<and>
    parse_attribute frames (Some device) 0x0206 (hid_descriptor_list d) (of_nat (length d + 8)) =
      Some (Some (device\<lparr>dev_report_descriptor_present := True,
                         dev_report_descriptor_too_large := False,
                         dev_report_descriptor_valid := info_valid info,
                         dev_report_has_keyboard := info_has_keyboard info,
                         dev_report_has_consumer_control := info_has_consumer_control info,
                         dev_report_has_nkro_keyboard := info_has_nkro_keyboard info,
                         dev_report_uses_ids := info_uses_report_ids info\<rparr>), lines)"
proof -
  obtain info where info: "hid_report_descriptor_parse (Some d) = Some info"
    using descriptor_parse_total by blast
  have "unat (of_nat (length d) :: u16) = length d" using assms by (simp add: unat_of_nat)
  then have "slice_at (hid_descriptor_list d) 8 (unat (of_nat (length d) :: u16)) = Some d"
    by (simp add: slice_at_def hid_descriptor_list_def)
  with info hid_descriptor_list_found [OF assms] show ?thesis
    by (simp add: parse_attribute_def parse_descriptor_list_def clear_report_flags_def)
qed

theorem report_descriptor_delivered_witness:
  "\<exists>info lines. hid_report_descriptor_parse (Some nkro_descriptor) = Some info \<and>
    parse_attribute 1 (Some zero_device) 0x0206 (hid_descriptor_list nkro_descriptor)
      (of_nat (length nkro_descriptor + 8)) =
      Some (Some (zero_device\<lparr>dev_report_descriptor_present := True,
                         dev_report_descriptor_too_large := False,
                         dev_report_descriptor_valid := info_valid info,
                         dev_report_has_keyboard := info_has_keyboard info,
                         dev_report_has_consumer_control := info_has_consumer_control info,
                         dev_report_has_nkro_keyboard := info_has_nkro_keyboard info,
                         dev_report_uses_ids := info_uses_report_ids info\<rparr>), lines)"
  by (rule report_descriptor_delivered) (simp add: nkro_descriptor_def)

text \<open>
  The control PSM is read from a ProtocolDescriptorList and the interrupt PSM from the
  additional list, for every value of the PSM, and nothing else of the device changes.
\<close>

theorem psm_lists_parsed:
  "parse_attribute (Suc frames) (Some device) 0x0004 (protocol_list psm) 15 =
     Some (Some (device\<lparr>dev_hid_control_psm := psm\<rparr>),
           [(''[BT] %s PSM: 0x%04x'', [LStr ''Control'', LNum (unat psm)])]) \<and>
   parse_attribute (Suc frames) (Some device) 0x000d (protocol_list psm) 15 =
     Some (Some (device\<lparr>dev_hid_interrupt_psm := psm\<rparr>),
           [(''[BT] %s PSM: 0x%04x'', [LStr ''Interrupt'', LNum (unat psm)])])"
  by (simp add: parse_attribute_def parse_psm_list_def psm_of_protocol_list)


end
