(* ===== verification/Bluetooth_App.thy ===== *)
theory Bluetooth_App
  imports Bt_State Control_Request_Queue Control_Command Hid_Boot_Report Hid_Channels Usb_Keyboard
    Device_Manager Sdp_Parser
begin

unbundle bit_operations_syntax

text \<open>
  \<open>src/bt/bluetooth.c\<close>, first part: the static state of the Bluetooth application and the helper
  functions that start its activities. Calls into BTstack are recorded in order in \<open>calls\<close>; what
  BTstack answers is a parameter, a record of functions of the calls made so far (the call that is
  answered is the last one). Messages are recorded in \<open>app_log\<close>.
\<close>

section \<open>The interface to BTstack\<close>

datatype bt_timer = INQUIRY_TIMER | PAIRING_PIN_TIMER

datatype bt_call =
    gap_inquiry_start nat
  | hci_create_connection bd_addr
  | hci_create_connection_cancel bd_addr
  | hci_pin_code_request_reply bd_addr string
  | gap_disconnect u16
  | gap_request_security_level u16 nat
  | l2cap_create_channel bd_addr u16
  | l2cap_request_can_send_now_event u16
  | l2cap_send u16 "u8 list"
  | sdp_client_query_uuid16 bd_addr
  | gap_get_link_key_for_bd_addr bd_addr
  | gap_drop_link_key_for_bd_addr bd_addr
  | gap_store_link_key_for_bd_addr bd_addr "u8 list" nat
  | gap_send_link_key_response bd_addr "u8 list" nat
  | gap_delete_all_link_keys
  | gap_local_bd_addr
  | tlv_get_tag
  | tlv_store_tag bd_addr
  | tlv_delete_tag
  | run_loop_add_timer bt_timer nat
  | run_loop_remove_timer bt_timer
  | stack_setup string

text \<open>
  The answers: the status of a call that returns one; the local channel identifier that a successful
  \<open>l2cap_create_channel\<close> writes; the link key and its type, if the database has one; whether a TLV
  instance exists, the size and the six bytes that reading the tag of the selected device yields,
  and the result of storing it; the address of the adapter; whether the radio driver came up.
\<close>

record btstack =
  be_status :: "bt_call list \<Rightarrow> u8"
  be_cid :: "bt_call list \<Rightarrow> u16"
  be_link_key :: "bt_call list \<Rightarrow> (u8 list \<times> nat) option"
  be_tlv :: "bt_call list \<Rightarrow> bool"
  be_tlv_get :: "bt_call list \<Rightarrow> int \<times> u8 list"
  be_tlv_store :: "bt_call list \<Rightarrow> int"
  be_local_address :: "bt_call list \<Rightarrow> bd_addr"
  be_arch_ok :: bool

definition ERROR_CODE_SUCCESS :: u8 where "ERROR_CODE_SUCCESS = 0x00"
definition ERROR_CODE_UNKNOWN_CONNECTION_IDENTIFIER :: u8 where
  "ERROR_CODE_UNKNOWN_CONNECTION_IDENTIFIER = 0x02"
definition ERROR_CODE_AUTHENTICATION_FAILURE :: u8 where
  "ERROR_CODE_AUTHENTICATION_FAILURE = 0x05"
definition ERROR_CODE_UNSUPPORTED_FEATURE_OR_PARAMETER_VALUE :: u8 where
  "ERROR_CODE_UNSUPPORTED_FEATURE_OR_PARAMETER_VALUE = 0x11"
definition HCI_CON_HANDLE_INVALID :: u16 where "HCI_CON_HANDLE_INVALID = 0xffff"
definition INVALID_LINK_KEY :: nat where "INVALID_LINK_KEY = 0xffff"

section \<open>State\<close>

record bt_app =
  local_address :: bd_addr
  connected_device_addr :: bd_addr
  connecting_device_addr :: bd_addr
  connecting_device_valid :: bool
  connection_cancel_requested :: bool
  stack_working :: bool
  startup_logged :: bool
  current_state :: bt_state
  inquiry_count :: nat
  inquiry_timer_armed :: bool
  device_manager :: DeviceManager
  acl_handle :: u16
  hid_channels :: HidChannels
  command_buffer :: "char list"
  command_length :: nat
  sdp_parser :: SdpParser
  selected_device_addr :: bd_addr
  selected_device_valid :: bool
  auto_connect_enabled :: bool
  pairing_pin_pending :: bool
  pairing_pin_timer_armed :: bool
  control_requests :: control_request_queue
  keyboard :: usb_keyboard
  calls :: "bt_call list"
  app_log :: "log_line list"

text \<open>The static initialisers; the rest is zeroed.\<close>

definition bt_app_boot :: bt_app where
  "bt_app_boot =
     \<lparr>local_address = replicate 6 0, connected_device_addr = replicate 6 0,
      connecting_device_addr = replicate 6 0, connecting_device_valid = False,
      connection_cancel_requested = False, stack_working = False, startup_logged = False,
      current_state = STATE_INITIALIZING, inquiry_count = 0, inquiry_timer_armed = False,
      device_manager = device_manager_init, acl_handle = HCI_CON_HANDLE_INVALID,
      hid_channels = hid_channels_init, command_buffer = replicate 32 NUL, command_length = 0,
      sdp_parser = idle_parser, selected_device_addr = replicate 6 0, selected_device_valid = False,
      auto_connect_enabled = True, pairing_pin_pending = False, pairing_pin_timer_armed = False,
      control_requests = control_request_queue_init, keyboard = usb_keyboard_boot, calls = [],
      app_log = []\<rparr>"

definition bt_call :: "bt_call \<Rightarrow> bt_app \<Rightarrow> bt_app" where
  "bt_call c a = a\<lparr>calls := calls a @ [c]\<rparr>"

definition usb_serial_printf :: "string \<Rightarrow> log_arg list \<Rightarrow> bt_app \<Rightarrow> bt_app" where
  "usb_serial_printf fmt args a = a\<lparr>app_log := app_log a @ [(fmt, args)]\<rparr>"

text \<open>A call that returns a status.\<close>

definition bt_status_call :: "btstack \<Rightarrow> bt_call \<Rightarrow> bt_app \<Rightarrow> u8 \<times> bt_app" where
  "bt_status_call env c a = (let a = bt_call c a in (be_status env (calls a), a))"

definition get_link_key :: "btstack \<Rightarrow> bd_addr \<Rightarrow> bt_app \<Rightarrow> (u8 list \<times> nat) option \<times> bt_app" where
  "get_link_key env address a =
     (let a = bt_call (gap_get_link_key_for_bd_addr address) a in (be_link_key env (calls a), a))"

section \<open>The selected keyboard in flash\<close>

definition load_selected_device :: "btstack \<Rightarrow> bt_app \<Rightarrow> bt_app" where
  "load_selected_device env a =
     (if \<not> be_tlv env (calls a) then a
      else let a = bt_call tlv_get_tag a;
               (sz, bytes) = be_tlv_get env (calls a)
           in a\<lparr>selected_device_addr := bytes, selected_device_valid := (sz = 6)\<rparr>)"

definition store_selected_device :: "btstack \<Rightarrow> bd_addr \<Rightarrow> bt_app \<Rightarrow> bool \<times> bt_app" where
  "store_selected_device env address a =
     (if \<not> be_tlv env (calls a) then (False, a)
      else let a = bt_call (tlv_store_tag address) a in (be_tlv_store env (calls a) = 0, a))"

definition delete_selected_device :: "btstack \<Rightarrow> bt_app \<Rightarrow> bt_app" where
  "delete_selected_device env a = (if be_tlv env (calls a) then bt_call tlv_delete_tag a else a)"

section \<open>Pairing PIN display, state changes and inquiry\<close>

definition clear_pairing_pin :: "bt_app \<Rightarrow> bt_app" where
  "clear_pairing_pin a =
     (let a = a\<lparr>pairing_pin_pending := False\<rparr>
      in if pairing_pin_timer_armed a
         then (bt_call (run_loop_remove_timer PAIRING_PIN_TIMER) a)\<lparr>pairing_pin_timer_armed := False\<rparr>
         else a)"

definition pairing_pin_timeout :: "bt_app \<Rightarrow> bt_app" where
  "pairing_pin_timeout a =
     usb_serial_printf ''[BT] Pairing PIN display expired'' []
       (a\<lparr>pairing_pin_timer_armed := False, pairing_pin_pending := False\<rparr>)"

definition show_pairing_pin :: "bt_app \<Rightarrow> bt_app" where
  "show_pairing_pin a =
     (bt_call (run_loop_add_timer PAIRING_PIN_TIMER 30000)
        ((clear_pairing_pin a)\<lparr>pairing_pin_pending := True\<rparr>))\<lparr>pairing_pin_timer_armed := True\<rparr>"

definition transition_to_state :: "bt_state \<Rightarrow> bt_app \<Rightarrow> bt_app" where
  "transition_to_state new_state a =
     (let a = (if new_state \<noteq> STATE_AUTHENTICATING then clear_pairing_pin a else a)
      in if current_state a \<noteq> new_state
         then (let a = (if \<not> bt_state_transition_allowed (current_state a) new_state
                        then usb_serial_printf ''[BT] Unexpected state transition %s -> %s''
                               [LStr (bt_state_name (current_state a)), LStr (bt_state_name new_state)] a
                        else a);
                   a = usb_serial_printf ''[BT] State: %s'' [LStr (bt_state_name new_state)] a
               in a\<lparr>current_state := new_state\<rparr>)
         else a)"

definition cancel_inquiry_timer :: "bt_app \<Rightarrow> bt_app" where
  "cancel_inquiry_timer a =
     (if inquiry_timer_armed a
      then (bt_call (run_loop_remove_timer INQUIRY_TIMER) a)\<lparr>inquiry_timer_armed := False\<rparr>
      else a)"

definition start_inquiry :: "bt_app \<Rightarrow> bt_app" where
  "start_inquiry a =
     (if current_state a \<noteq> STATE_IDLE
      then usb_serial_printf ''[BT] Inquiry request ignored in state=%s''
             [LStr (bt_state_name (current_state a))] a
      else let a = cancel_inquiry_timer a;
               a = transition_to_state STATE_INQUIRY a;
               a = a\<lparr>inquiry_count := inquiry_count a + 1\<rparr>;
               a = usb_serial_printf ''[BT] Inquiry #%d started'' [LNum (inquiry_count a)] a
           in bt_call (gap_inquiry_start 5) a)"

definition start_idle_timer :: "bt_app \<Rightarrow> bt_app" where
  "start_idle_timer a =
     (if \<not> auto_connect_enabled a \<or> \<not> selected_device_valid a then a
      else if inquiry_timer_armed a
      then usb_serial_printf ''[BT] Inquiry retry already scheduled'' [] a
      else let a = usb_serial_printf ''[BT] Waiting before next inquiry...'' [] a;
               a = bt_call (run_loop_add_timer INQUIRY_TIMER 5000) a
           in a\<lparr>inquiry_timer_armed := True\<rparr>)"

section \<open>Starting and cancelling a connection\<close>

text \<open>The saved keyboard gets an entry of the device table, if need be after clearing the table.\<close>

definition restore_saved_device :: "btstack \<Rightarrow> bd_addr \<Rightarrow> bt_app \<Rightarrow> bt_app" where
  "restore_saved_device env address a =
     (let (saved, created, dm) =
            device_manager_upsert (device_manager a) address False 0 0x0540 None;
          a = a\<lparr>device_manager := dm\<rparr>;
          (saved, a) =
            (case saved of
               Some i \<Rightarrow> (Some i, a)
             | None \<Rightarrow>
                 let a = usb_serial_printf
                           ''[BT] Clearing discovery list to restore saved keyboard'' [] a;
                     (saved, created, dm) =
                       device_manager_upsert device_manager_init address False 0 0x0540 None
                 in (saved, a\<lparr>device_manager := dm\<rparr>))
      in case saved of
           None \<Rightarrow> a
         | Some i \<Rightarrow>
             let (key, a) = get_link_key env address a
             in a\<lparr>device_manager :=
                    dm_modify i (\<lambda>d. d\<lparr>dev_bonded := (key \<noteq> None)\<rparr>) (device_manager a)\<rparr>)"

definition begin_connection :: "btstack \<Rightarrow> bd_addr \<Rightarrow> bt_app \<Rightarrow> bool \<times> bt_app" where
  "begin_connection env address a =
     (if current_state a \<noteq> STATE_IDLE \<and> current_state a \<noteq> STATE_INQUIRY
      then (False, usb_serial_printf ''[BT] Connect request ignored in state=%s''
                     [LStr (bt_state_name (current_state a))] a)
      else
        let a = cancel_inquiry_timer a;
            a = (if selected_device_valid a \<and> address = selected_device_addr a \<and>
                    device_manager_find (device_manager a) address = None
                 then restore_saved_device env address a else a);
            a = usb_serial_printf ''[BT] Connecting to %s...'' [LAddr address] a;
            a = a\<lparr>connecting_device_addr := address, connecting_device_valid := True,
                  connection_cancel_requested := False\<rparr>;
            a = transition_to_state STATE_CONNECTING a;
            (status, a) = bt_status_call env (hci_create_connection address) a
        in if status \<noteq> ERROR_CODE_SUCCESS
           then (let a = usb_serial_printf ''[BT] Connection failed status=0x%02x'' [LNum (unat status)] a;
                     a = a\<lparr>connecting_device_valid := False\<rparr>;
                     a = transition_to_state STATE_IDLE a
                 in (False, start_idle_timer a))
           else (True, a))"

definition inquiry_timer_handler :: "btstack \<Rightarrow> bt_app \<Rightarrow> bt_app" where
  "inquiry_timer_handler env a =
     (let a = a\<lparr>inquiry_timer_armed := False\<rparr>
      in if current_state a = STATE_IDLE \<and> auto_connect_enabled a \<and> selected_device_valid a
         then snd (begin_connection env (selected_device_addr a)
                (usb_serial_printf ''[BT] Auto-recovery retry'' [] a))
         else a)"

definition cancel_pending_connection :: "btstack \<Rightarrow> bt_app \<Rightarrow> bt_app" where
  "cancel_pending_connection env a =
     (if current_state a \<noteq> STATE_CONNECTING \<or> \<not> connecting_device_valid a then a
      else let a = a\<lparr>connection_cancel_requested := True\<rparr>;
               (status, a) = bt_status_call env (hci_create_connection_cancel (connecting_device_addr a)) a
           in usb_serial_printf ''[BT] Pending connection cancel requested status=0x%02x''
                [LNum (unat status)] a)"

definition log_device :: "Device \<Rightarrow> bt_app \<Rightarrow> bt_app" where
  "log_device device a =
     usb_serial_printf ''[BT] Found: %s RSSI=%d CoD=0x%06lx''
       [LAddr (dev_address device), LInt (sint (dev_rssi device)),
        LNum (unat (dev_class_of_device device))] a"

section \<open>Channels\<close>

definition get_connected_device :: "bt_app \<Rightarrow> nat option" where
  "get_connected_device a =
     find (\<lambda>i. dev_address (dm_devices (device_manager a) ! i) = connected_device_addr a)
       [0..<dm_count (device_manager a)]"

abbreviation device_at :: "bt_app \<Rightarrow> nat \<Rightarrow> Device" where
  "device_at a i \<equiv> dm_devices (device_manager a) ! i"

definition modify_device :: "nat \<Rightarrow> (Device \<Rightarrow> Device) \<Rightarrow> bt_app \<Rightarrow> bt_app" where
  "modify_device i f a = a\<lparr>device_manager := dm_modify i f (device_manager a)\<rparr>"

definition reset_hid_channels :: "bt_app \<Rightarrow> bt_app" where
  "reset_hid_channels a = a\<lparr>hid_channels := hid_channels_reset_connection (hid_channels a)\<rparr>"

definition schedule_keyboard_led_report :: "btstack \<Rightarrow> bt_app \<Rightarrow> bt_app" where
  "schedule_keyboard_led_report env a =
     (let ch = hid_channels a
      in if \<not> hc_led_report_pending ch \<or> hc_led_can_send_requested ch \<or> \<not> hc_control_open ch \<or>
            current_state a \<noteq> STATE_HID_CONNECTED
         then a
         else let (status, a) = bt_status_call env (l2cap_request_can_send_now_event (hc_control_cid ch)) a
              in if status = ERROR_CODE_SUCCESS
                 then a\<lparr>hid_channels := (hid_channels a)\<lparr>hc_led_can_send_requested := True\<rparr>\<rparr>
                 else usb_serial_printf ''[BT] LED report scheduling failed status=0x%02x''
                        [LNum (unat status)] a)"

text \<open>The USB side prints its own messages first.\<close>

definition keyboard_action ::
    "(usb_keyboard \<Rightarrow> usb_keyboard \<times> log_line list) \<Rightarrow> bt_app \<Rightarrow> bt_app" where
  "keyboard_action f a =
     (let (k, lines) = f (keyboard a) in a\<lparr>keyboard := k, app_log := app_log a @ lines\<rparr>)"

definition release_usb_keyboard :: "bt_app \<Rightarrow> bt_app" where
  "release_usb_keyboard a =
     usb_serial_printf ''[USB] RELEASE_ALL'' [] (keyboard_action keyboard_release_all a)"

definition disconnect_acl_after_error :: "string \<Rightarrow> u8 \<Rightarrow> bt_app \<Rightarrow> bt_app" where
  "disconnect_acl_after_error stage status a =
     (let a = usb_serial_printf ''[BT] %s failed status=0x%02x'' [LStr stage, LNum (unat status)] a;
          a = release_usb_keyboard a
      in if acl_handle a \<noteq> HCI_CON_HANDLE_INVALID
         then bt_call (gap_disconnect (acl_handle a)) a
         else start_idle_timer (transition_to_state STATE_IDLE (reset_hid_channels a)))"

text \<open>\<open>l2cap_create_channel\<close> writes the local channel identifier when it succeeds.\<close>

definition open_interrupt_channel :: "btstack \<Rightarrow> bt_app \<Rightarrow> bt_app" where
  "open_interrupt_channel env a =
     (case get_connected_device a of
        Some i \<Rightarrow>
          if dev_hid_interrupt_psm (device_at a i) = 0
          then disconnect_acl_after_error ''HID Interrupt PSM''
                 ERROR_CODE_UNSUPPORTED_FEATURE_OR_PARAMETER_VALUE a
          else let psm = dev_hid_interrupt_psm (device_at a i);
                   a = transition_to_state STATE_OPENING_INTERRUPT a;
                   a = usb_serial_printf ''[BT] Opening Interrupt Channel (PSM=0x%04x)'' [LNum (unat psm)] a;
                   (status, a) = bt_status_call env (l2cap_create_channel (connected_device_addr a) psm) a
               in if status \<noteq> ERROR_CODE_SUCCESS
                  then disconnect_acl_after_error ''Interrupt channel open'' status a
                  else a\<lparr>hid_channels := (hid_channels a)\<lparr>hc_interrupt_cid := be_cid env (calls a)\<rparr>\<rparr>
      | None \<Rightarrow> disconnect_acl_after_error ''HID Interrupt PSM''
                  ERROR_CODE_UNSUPPORTED_FEATURE_OR_PARAMETER_VALUE a)"

definition open_control_channel :: "btstack \<Rightarrow> bt_app \<Rightarrow> bt_app" where
  "open_control_channel env a =
     (case get_connected_device a of
        Some i \<Rightarrow>
          if dev_hid_control_psm (device_at a i) = 0
          then disconnect_acl_after_error ''HID Control PSM''
                 ERROR_CODE_UNSUPPORTED_FEATURE_OR_PARAMETER_VALUE a
          else let psm = dev_hid_control_psm (device_at a i);
                   a = transition_to_state STATE_OPENING_CONTROL a;
                   a = usb_serial_printf ''[BT] Opening Control Channel (PSM=0x%04x)'' [LNum (unat psm)] a;
                   (status, a) = bt_status_call env (l2cap_create_channel (connected_device_addr a) psm) a
               in if status \<noteq> ERROR_CODE_SUCCESS
                  then disconnect_acl_after_error ''Control channel open'' status a
                  else a\<lparr>hid_channels := (hid_channels a)\<lparr>hc_control_cid := be_cid env (calls a)\<rparr>\<rparr>
      | None \<Rightarrow> disconnect_acl_after_error ''HID Control PSM''
                  ERROR_CODE_UNSUPPORTED_FEATURE_OR_PARAMETER_VALUE a)"

definition clear_sdp_results :: "Device \<Rightarrow> Device" where
  "clear_sdp_results device = device\<lparr>dev_hid_control_psm := 0, dev_hid_interrupt_psm := 0,
     dev_hid_service_found := False, dev_sdp_completed := False,
     dev_report_descriptor_present := False, dev_report_descriptor_too_large := False,
     dev_report_descriptor_valid := False, dev_report_has_keyboard := False,
     dev_report_has_consumer_control := False, dev_report_has_nkro_keyboard := False,
     dev_report_uses_ids := False\<rparr>"

definition start_sdp_discovery :: "btstack \<Rightarrow> bt_app \<Rightarrow> bt_app" where
  "start_sdp_discovery env a =
     (if current_state a \<noteq> STATE_AUTHENTICATING then a
      else let a = (case get_connected_device a of
                      Some i \<Rightarrow> modify_device i clear_sdp_results a
                    | None \<Rightarrow> a);
               a = a\<lparr>sdp_parser := sdp_parser_reset (sdp_parser a)\<rparr>;
               a = transition_to_state STATE_SERVICE_DISCOVERY a;
               a = usb_serial_printf ''[BT] Starting SDP Service Discovery'' [] a;
               (status, a) = bt_status_call env (sdp_client_query_uuid16 (connected_device_addr a)) a
           in if status \<noteq> ERROR_CODE_SUCCESS then disconnect_acl_after_error ''SDP start'' status a
              else a)"

end
