(* ===== verification/Bluetooth_Events.thy ===== *)
theory Bluetooth_Events
  imports Bluetooth_App
begin

unbundle bit_operations_syntax

text \<open>
  \<open>src/bt/bluetooth.c\<close>, second part: the handlers of HID data, SDP results and HCI events. An event
  is the value its BTstack accessors return, one constructor per \<open>case\<close> of the C switch; a packet
  that the code reads byte by byte is its bytes, whose number is \<open>size\<close>. \<open>None\<close> is a read outside a
  packet or buffer, or no stack frame left for the PSM search.
\<close>

section \<open>Events\<close>

datatype sdp_event =
    SDP_EVENT_QUERY_ATTRIBUTE_VALUE u16 u16 u16 u8
  | SDP_EVENT_QUERY_COMPLETE u8
  | SDP_EVENT_OTHER u8

datatype hci_event =
    BTSTACK_EVENT_STATE bool
  | GAP_EVENT_INQUIRY_RESULT bd_addr bool i8 u32 "u8 list option"
  | GAP_EVENT_INQUIRY_COMPLETE
  | HCI_EVENT_CONNECTION_COMPLETE u8 u16 bd_addr
  | L2CAP_EVENT_CHANNEL_OPENED u8 u16 u16 u16
  | L2CAP_EVENT_CAN_SEND_NOW u16
  | L2CAP_EVENT_CHANNEL_CLOSED u16
  | GAP_EVENT_SECURITY_LEVEL u16 u8 nat
  | HCI_EVENT_AUTHENTICATION_COMPLETE_EVENT u16 u8
  | HCI_EVENT_ENCRYPTION_CHANGE u16 u8 u8
  | HCI_EVENT_DISCONNECTION_COMPLETE u16 u8
  | HCI_EVENT_PIN_CODE_REQUEST bd_addr
  | HCI_EVENT_LINK_KEY_REQUEST bd_addr
  | HCI_EVENT_LINK_KEY_NOTIFICATION bd_addr "u8 list"
  | HCI_EVENT_BOOKKEEPING
  | HCI_EVENT_OTHER u8

datatype bt_packet =
    L2CAP_DATA_PACKET u16 "u8 list"
  | HCI_EVENT_PACKET hci_event
  | OTHER_PACKET

section \<open>HID data\<close>

definition zero_boot_report :: hid_boot_keyboard_report where
  "zero_boot_report = \<lparr>br_report_id = 0, br_modifier = 0, br_keycodes = replicate 6 0\<rparr>"

text \<open>The handshake on the control channel.\<close>

definition handle_control_data :: "btstack \<Rightarrow> u8 list \<Rightarrow> bt_app \<Rightarrow> bt_app option" where
  "handle_control_data env packet a =
     (if length packet < 1 then Some a
      else do {
        b \<leftarrow> byte_at packet 0;
        let message_type = drop_bit 4 b;
        let status = b AND 0x0f;
        Some (if current_state a = STATE_SETTING_BOOT_PROTOCOL \<and> message_type = 0
              then (let a = usb_serial_printf ''[BT] Boot protocol response=0x%02x'' [LNum (unat status)] a
                    in if status = 0 then open_interrupt_channel env a
                       else disconnect_acl_after_error ''Set Boot Protocol'' status a)
              else a)
      })"

definition handle_hid_data_packet :: "btstack \<Rightarrow> u16 \<Rightarrow> u8 list \<Rightarrow> bt_app \<Rightarrow> bt_app option" where
  "handle_hid_data_packet env channel packet a =
     (if channel = hc_control_cid (hid_channels a) then handle_control_data env packet a
      else if channel \<noteq> hc_interrupt_cid (hid_channels a) \<or> \<not> hc_interrupt_open (hid_channels a)
      then Some a
      else do {
        (parse_result, report) \<leftarrow>
          hid_boot_keyboard_parse_input (Some packet) (length packet) zero_boot_report;
        case parse_result of
          HID_BOOT_PARSE_UNSUPPORTED \<Rightarrow> do {
            header \<leftarrow> (if length packet \<noteq> 0 then byte_at packet 0 else Some 0);
            Some (usb_serial_printf ''[HID] Unsupported packet header=0x%02x size=%u''
                    [LNum (unat header), LNum (length packet)] a)
          }
        | HID_BOOT_PARSE_INVALID \<Rightarrow> do {
            rid \<leftarrow> (if length packet = 10 then byte_at packet 1 else Some 0);
            Some (usb_serial_printf ''[HID] Invalid boot report id=%u size=%u''
                    [LNum (unat rid), LNum (length packet)] a)
          }
        | HID_BOOT_PARSE_OK \<Rightarrow>
            Some (keyboard_action (keyboard_send_report (br_modifier report) (br_keycodes report))
                    (usb_serial_printf ''[HID] RX id=%u mod=%02x keys=%02x,%02x,%02x,%02x,%02x,%02x''
                       (LNum (unat (br_report_id report)) # LNum (unat (br_modifier report)) #
                        map (\<lambda>k. LNum (unat k)) (br_keycodes report)) a))
      })"

section \<open>SDP results\<close>

text \<open>The stack frames assumed for the PSM search: enough for every attribute the parser accepts.\<close>

definition SDP_SEARCH_FRAMES :: nat where
  "SDP_SEARCH_FRAMES = 129"

definition handle_sdp_attribute ::
    "u16 \<Rightarrow> u16 \<Rightarrow> u16 \<Rightarrow> u8 \<Rightarrow> bt_app \<Rightarrow> bt_app option" where
  "handle_sdp_attribute attribute_id attribute_length attribute_offset byte a = do {
     let i = get_connected_device a;
     (parser, device, lines) \<leftarrow>
       sdp_parser_feed SDP_SEARCH_FRAMES (sdp_parser a) (map_option (device_at a) i)
         attribute_id attribute_length attribute_offset byte;
     let a = a\<lparr>sdp_parser := parser, app_log := app_log a @ lines\<rparr>;
     Some (case (i, device) of
             (Some i, Some d) \<Rightarrow> modify_device i (\<lambda>_. d) a
           | _ \<Rightarrow> a)
   }"

definition handle_sdp_complete :: "btstack \<Rightarrow> u8 \<Rightarrow> bt_app \<Rightarrow> bt_app" where
  "handle_sdp_complete env status a =
     (let a = usb_serial_printf ''[BT] Event: SDP_EVENT_QUERY_COMPLETE'' [] a;
          a = usb_serial_printf ''[BT] SDP complete'' [] a
      in if status = 0 then
           (case get_connected_device a of
              Some i \<Rightarrow>
                let a = modify_device i (\<lambda>d. d\<lparr>dev_sdp_completed := True\<rparr>) a;
                    a = (if dev_hid_control_psm (device_at a i) = 0 \<or>
                            dev_hid_interrupt_psm (device_at a i) = 0
                         then modify_device i
                                (\<lambda>d. d\<lparr>dev_hid_control_psm := 0x0011, dev_hid_interrupt_psm := 0x0013\<rparr>)
                                (usb_serial_printf ''[BT] SDP attributes=%u; using standard HID PSMs''
                                   [LNum (unat (sp_completed_attribute_count (sdp_parser a)))] a)
                         else a)
                in if dev_hid_control_psm (device_at a i) \<noteq> 0 \<and>
                      dev_hid_interrupt_psm (device_at a i) \<noteq> 0
                   then open_control_channel env
                          (usb_serial_printf ''[BT] HID Service found'' []
                             (modify_device i (\<lambda>d. d\<lparr>dev_hid_service_found := True\<rparr>) a))
                   else disconnect_acl_after_error ''HID SDP attributes''
                          ERROR_CODE_UNSUPPORTED_FEATURE_OR_PARAMETER_VALUE a
            | None \<Rightarrow> disconnect_acl_after_error ''Connected device lookup''
                        ERROR_CODE_UNKNOWN_CONNECTION_IDENTIFIER a)
         else disconnect_acl_after_error ''SDP query'' status a)"

definition handle_sdp_client_query_result :: "btstack \<Rightarrow> sdp_event \<Rightarrow> bt_app \<Rightarrow> bt_app option" where
  "handle_sdp_client_query_result env event a =
     (case event of
        SDP_EVENT_QUERY_ATTRIBUTE_VALUE attribute_id attribute_length attribute_offset byte \<Rightarrow>
          handle_sdp_attribute attribute_id attribute_length attribute_offset byte a
      | SDP_EVENT_QUERY_COMPLETE status \<Rightarrow> Some (handle_sdp_complete env status a)
      | SDP_EVENT_OTHER event \<Rightarrow>
          Some (usb_serial_printf ''[BT] Unknown SDP event 0x%02x'' [LNum (unat event)] a))"

section \<open>HCI events\<close>

definition handle_disconnected_state :: "bt_app \<Rightarrow> bt_app" where
  "handle_disconnected_state a =
     (reset_hid_channels (release_usb_keyboard a))\<lparr>acl_handle := HCI_CON_HANDLE_INVALID\<rparr>"

definition on_stack_state :: "btstack \<Rightarrow> bool \<Rightarrow> bt_app \<Rightarrow> bt_app" where
  "on_stack_state env working a =
     (let a = usb_serial_printf ''[BT] Event: BTSTACK_EVENT_STATE'' [] a
      in if \<not> working then a
         else let a = bt_call gap_local_bd_addr a;
                  a = a\<lparr>local_address := be_local_address env (calls a), stack_working := True\<rparr>;
                  a = transition_to_state STATE_IDLE a
              in if auto_connect_enabled a \<and> selected_device_valid a
                 then snd (begin_connection env (selected_device_addr a)
                        (usb_serial_printf ''[BT] Auto-recovery starting for saved keyboard %s''
                           [LAddr (selected_device_addr a)] a))
                 else a)"

definition on_inquiry_result ::
    "btstack \<Rightarrow> bd_addr \<Rightarrow> bool \<Rightarrow> i8 \<Rightarrow> u32 \<Rightarrow> u8 list option \<Rightarrow> bt_app \<Rightarrow> bt_app" where
  "on_inquiry_result env address has_rssi rssi class_of_device name a =
     (let a = usb_serial_printf ''[BT] Event: GAP_EVENT_INQUIRY_RESULT'' [] a;
          (device, created, dm) =
            device_manager_upsert (device_manager a) address has_rssi rssi class_of_device name;
          a = a\<lparr>device_manager := dm\<rparr>
      in case device of
           None \<Rightarrow> a
         | Some i \<Rightarrow>
             let a = (if created then log_device (device_at a i) a else a)
             in if dev_hid_supported (device_at a i)
                then let (key, a) = get_link_key env (dev_address (device_at a i)) a
                     in modify_device i (\<lambda>d. d\<lparr>dev_bonded := (key \<noteq> None)\<rparr>) a
                else a)"

text \<open>The keyboard an inquiry leads to, if any.\<close>

definition inquiry_target :: "bt_app \<Rightarrow> bd_addr option" where
  "inquiry_target a =
     (if auto_connect_enabled a \<and> selected_device_valid a
      then (case device_manager_find (device_manager a) (selected_device_addr a) of
              Some i \<Rightarrow> if dev_hid_supported (device_at a i) then Some (selected_device_addr a) else None
            | None \<Rightarrow> None)
      else if auto_connect_enabled a \<and> \<not> selected_device_valid a
      then device_manager_get_connection_target (device_manager a)
      else None)"

definition on_inquiry_complete :: "btstack \<Rightarrow> bt_app \<Rightarrow> bt_app" where
  "on_inquiry_complete env a =
     (if current_state a \<noteq> STATE_INQUIRY
      then usb_serial_printf ''[BT] Stale inquiry completion ignored in state=%s''
             [LStr (bt_state_name (current_state a))] a
      else
        let a = usb_serial_printf ''[BT] Event: GAP_EVENT_INQUIRY_COMPLETE'' [] a;
            a = usb_serial_printf ''[BT] Inquiry #%d complete (%d devices)''
                  [LNum (inquiry_count a), LNum (dm_count (device_manager a))] a;
            a = a\<lparr>app_log := app_log a @ device_manager_print_devices (device_manager a)\<rparr>
        in case inquiry_target a of
             Some target_addr \<Rightarrow>
               let a = (if auto_connect_enabled a \<and> \<not> selected_device_valid a
                        then snd (store_selected_device env target_addr
                               (a\<lparr>selected_device_addr := target_addr, selected_device_valid := True\<rparr>))
                        else a);
                   a = (case device_manager_find (device_manager a) target_addr of
                          Some i \<Rightarrow> if dev_bonded (device_at a i)
                                    then usb_serial_printf ''[BT] Selecting bonded keyboard %s''
                                           [LAddr target_addr] a
                                    else a
                        | None \<Rightarrow> a)
               in snd (begin_connection env target_addr a)
           | None \<Rightarrow> start_idle_timer (transition_to_state STATE_IDLE a))"

definition on_connection_complete :: "u8 \<Rightarrow> u16 \<Rightarrow> bd_addr \<Rightarrow> bt_app \<Rightarrow> bt_app" where
  "on_connection_complete status handle address a =
     (let a = usb_serial_printf ''[BT] Event: HCI_EVENT_CONNECTION_COMPLETE'' [] a
      in if current_state a \<noteq> STATE_CONNECTING
         then let a = usb_serial_printf ''[BT] Stale connection completion ignored status=0x%02x state=%s''
                        [LNum (unat status), LStr (bt_state_name (current_state a))] a
              in if status = ERROR_CODE_SUCCESS then bt_call (gap_disconnect handle) a else a
         else
           let a = a\<lparr>connecting_device_valid := False\<rparr>
           in if connection_cancel_requested a
              then let a = a\<lparr>connection_cancel_requested := False\<rparr>;
                       a = usb_serial_printf
                             ''[BT] Explicit disconnect completed pending connection cancellation'' [] a
                   in if status = ERROR_CODE_SUCCESS
                      then bt_call (gap_disconnect handle)
                             (transition_to_state STATE_CONNECTED (a\<lparr>acl_handle := handle\<rparr>))
                      else start_idle_timer (transition_to_state STATE_IDLE a)
              else if status = 0
              then let a = usb_serial_printf ''[BT] Connected handle=0x%04x'' [LNum (unat handle)] a;
                       a = a\<lparr>acl_handle := handle\<rparr>;
                       a = reset_hid_channels a;
                       a = transition_to_state STATE_CONNECTED a;
                       a = (case device_manager_find (device_manager a) address of
                              Some i \<Rightarrow> modify_device i (\<lambda>d. d\<lparr>dev_connected := True\<rparr>) a
                            | None \<Rightarrow> a);
                       a = a\<lparr>connected_device_addr := address\<rparr>;
                       a = transition_to_state STATE_AUTHENTICATING a;
                       a = usb_serial_printf ''[BT] Requesting encrypted link'' [] a
                   in bt_call (gap_request_security_level (acl_handle a) 2) a
              else start_idle_timer (transition_to_state STATE_IDLE
                     (usb_serial_printf ''[BT] Connection failed status=0x%02x'' [LNum (unat status)] a)))"

definition on_channel_opened :: "btstack \<Rightarrow> u8 \<Rightarrow> u16 \<Rightarrow> u16 \<Rightarrow> u16 \<Rightarrow> bt_app \<Rightarrow> bt_app" where
  "on_channel_opened env status psm local_cid remote_cid a =
     (let a = usb_serial_printf ''[BT] Event: L2CAP_EVENT_CHANNEL_OPENED'' [] a
      in if status \<noteq> 0
         then let a = usb_serial_printf ''[BT] L2CAP open failed status=0x%02x'' [LNum (unat status)] a;
                  a = usb_serial_printf ''[BT] PSM        = 0x%04x'' [LNum (unat psm)] a;
                  a = usb_serial_printf ''[BT] Local CID  = 0x%04x'' [LNum (unat local_cid)] a;
                  a = usb_serial_printf ''[BT] Remote CID = 0x%04x'' [LNum (unat remote_cid)] a
              in disconnect_acl_after_error ''L2CAP channel open'' status a
         else
           let cid = local_cid;
               a = usb_serial_printf ''[BT] L2CAP opened PSM=0x%04x CID=0x%04x''
                     [LNum (unat psm), LNum (unat cid)] a
           in case get_connected_device a of
                None \<Rightarrow> disconnect_acl_after_error ''L2CAP device lookup''
                          ERROR_CODE_UNKNOWN_CONNECTION_IDENTIFIER a
              | Some i \<Rightarrow>
                  if psm = dev_hid_control_psm (device_at a i)
                  then let a = a\<lparr>hid_channels := hid_channels_control_opened (hid_channels a) cid\<rparr>;
                           a = transition_to_state STATE_SETTING_BOOT_PROTOCOL a;
                           (request_status, a) = bt_status_call env
                             (l2cap_request_can_send_now_event (hc_control_cid (hid_channels a))) a
                       in if request_status \<noteq> ERROR_CODE_SUCCESS
                          then disconnect_acl_after_error ''Set Boot Protocol scheduling'' request_status a
                          else a
                  else if psm = dev_hid_interrupt_psm (device_at a i)
                  then let a = a\<lparr>hid_channels := hid_channels_interrupt_opened (hid_channels a) cid\<rparr>;
                           a = transition_to_state STATE_HID_CONNECTED a;
                           a = usb_serial_printf ''[BT] HID_READY'' [] a;
                           a = a\<lparr>hid_channels := hid_channels_request_led_sync (hid_channels a)\<rparr>
                       in schedule_keyboard_led_report env a
                  else a)"

definition on_can_send_now :: "btstack \<Rightarrow> u16 \<Rightarrow> bt_app \<Rightarrow> bt_app" where
  "on_can_send_now env cid a =
     (let ch = hid_channels a
      in if cid = hc_control_cid ch \<and> hc_boot_protocol_request_pending ch
         then let a = a\<lparr>hid_channels := ch\<lparr>hc_boot_protocol_request_pending := False\<rparr>\<rparr>;
                  request = push_bit 4 7 OR 0 :: u8;
                  (status, a) = bt_status_call env (l2cap_send (hc_control_cid ch) [request]) a;
                  a = usb_serial_printf ''[BT] Set Boot Protocol sent'' [] a
              in if status \<noteq> ERROR_CODE_SUCCESS
                 then disconnect_acl_after_error ''Set Boot Protocol send'' status a
                 else a
         else if cid = hc_control_cid ch \<and> hc_led_can_send_requested ch
         then let a = a\<lparr>hid_channels := ch\<lparr>hc_led_can_send_requested := False\<rparr>\<rparr>;
                  (output_size, output_packet) = hid_boot_keyboard_output_packet (hc_led_state ch);
                  (status, a) = bt_status_call env
                    (l2cap_send (hc_control_cid ch) (take (unat output_size) output_packet)) a
              in if status = ERROR_CODE_SUCCESS
                 then usb_serial_printf ''[BT] LED TX bits=0x%02x'' [LNum (unat (hc_led_state ch))]
                        (a\<lparr>hid_channels := (hid_channels a)\<lparr>hc_led_report_pending := False\<rparr>\<rparr>)
                 else usb_serial_printf ''[BT] LED report send failed status=0x%02x'' [LNum (unat status)] a
         else a)"

definition on_channel_closed :: "u16 \<Rightarrow> bt_app \<Rightarrow> bt_app" where
  "on_channel_closed cid a =
     (let a = usb_serial_printf ''[BT] L2CAP channel closed CID=0x%04x'' [LNum (unat cid)] a;
          (closed, ch) = hid_channels_closed (hid_channels a) cid;
          a = a\<lparr>hid_channels := ch\<rparr>;
          a = (if closed AND HID_CHANNEL_CLOSED_INTERRUPT \<noteq> 0 then release_usb_keyboard a else a)
      in if closed \<noteq> HID_CHANNEL_CLOSED_NONE \<and> current_state a \<noteq> STATE_DISCONNECTED \<and>
            acl_handle a \<noteq> HCI_CON_HANDLE_INVALID
         then bt_call (gap_disconnect (acl_handle a)) a
         else a)"

definition on_security_level :: "btstack \<Rightarrow> u16 \<Rightarrow> u8 \<Rightarrow> nat \<Rightarrow> bt_app \<Rightarrow> bt_app" where
  "on_security_level env handle status level a =
     (let a = usb_serial_printf ''[BT] Security handle=0x%04x level=%u status=0x%02x''
                [LNum (unat handle), LNum level, LNum (unat status)] a
      in if handle \<noteq> acl_handle a \<or> current_state a \<noteq> STATE_AUTHENTICATING then a
         else if status = ERROR_CODE_SUCCESS \<and> level \<ge> 2 then start_sdp_discovery env a
         else disconnect_acl_after_error ''Authentication''
                (if status \<noteq> 0 then status else ERROR_CODE_AUTHENTICATION_FAILURE) a)"

definition on_authentication_complete :: "u16 \<Rightarrow> u8 \<Rightarrow> bt_app \<Rightarrow> bt_app" where
  "on_authentication_complete handle status a =
     (let a = usb_serial_printf ''[BT] Authentication handle=0x%04x status=0x%02x''
                [LNum (unat handle), LNum (unat status)] a
      in if handle = acl_handle a \<and> current_state a = STATE_AUTHENTICATING \<and>
            status \<noteq> ERROR_CODE_SUCCESS
         then disconnect_acl_after_error ''Authentication'' status a
         else a)"

definition on_encryption_change :: "btstack \<Rightarrow> u16 \<Rightarrow> u8 \<Rightarrow> u8 \<Rightarrow> bt_app \<Rightarrow> bt_app" where
  "on_encryption_change env handle status enabled a =
     (let a = usb_serial_printf ''[BT] Encryption handle=0x%04x enabled=%u status=0x%02x''
                [LNum (unat handle), LNum (unat enabled), LNum (unat status)] a
      in if handle \<noteq> acl_handle a \<or> current_state a \<noteq> STATE_AUTHENTICATING then a
         else if status = ERROR_CODE_SUCCESS \<and> enabled \<noteq> 0 then start_sdp_discovery env a
         else disconnect_acl_after_error ''Encryption''
                (if status \<noteq> 0 then status else ERROR_CODE_AUTHENTICATION_FAILURE) a)"

definition on_disconnection_complete :: "u16 \<Rightarrow> u8 \<Rightarrow> bt_app \<Rightarrow> bt_app" where
  "on_disconnection_complete handle reason a =
     (let a = usb_serial_printf ''[BT] Event: HCI_EVENT_DISCONNECTION_COMPLETE'' [] a;
          a = usb_serial_printf ''[BT] Disconnected reason=0x%02x'' [LNum (unat reason)] a;
          a = usb_serial_printf ''[BT] DISCONNECTED'' [] a;
          a = transition_to_state STATE_DISCONNECTED a;
          a = a\<lparr>device_manager := device_manager_clear_connections (device_manager a)\<rparr>;
          a = handle_disconnected_state a;
          a = transition_to_state STATE_IDLE a
      in start_idle_timer a)"

definition on_pin_code_request :: "btstack \<Rightarrow> bd_addr \<Rightarrow> bt_app \<Rightarrow> bt_app" where
  "on_pin_code_request env addr a =
     (let a = usb_serial_printf ''[BT] Event: HCI_EVENT_PIN_CODE_REQUEST'' [] a;
          (stale_key, a) = get_link_key env addr a;
          a = (case stale_key of
                 None \<Rightarrow> a
               | Some (key, stale_key_type) \<Rightarrow>
                   let a = bt_call (gap_drop_link_key_for_bd_addr addr) a;
                       a = (case device_manager_find (device_manager a) addr of
                              Some i \<Rightarrow> modify_device i (\<lambda>d. d\<lparr>dev_bonded := False\<rparr>) a
                            | None \<Rightarrow> a)
                   in usb_serial_printf ''[BT] Stale link key deleted before PIN pairing type=%u''
                        [LNum stale_key_type] a);
          a = usb_serial_printf ''[BT] Type PIN 0000 on keyboard, then press Enter'' [] a;
          a = show_pairing_pin a
      in bt_call (hci_pin_code_request_reply addr ''0000'') a)"

definition on_link_key_request :: "btstack \<Rightarrow> bd_addr \<Rightarrow> bt_app \<Rightarrow> bt_app" where
  "on_link_key_request env address a =
     (let a = usb_serial_printf ''[BT] Event: HCI_EVENT_LINK_KEY_REQUEST'' [] a;
          (found, a) = get_link_key env address a;
          (link_key, link_key_type) =
            (case found of Some k \<Rightarrow> k | None \<Rightarrow> (replicate 16 0, INVALID_LINK_KEY));
          (response_status, a) =
            bt_status_call env (gap_send_link_key_response address link_key link_key_type) a
      in usb_serial_printf ''[BT] Link key response found=%u type=%u status=0x%02x''
           [LNum (of_bool (found \<noteq> None)), LNum link_key_type, LNum (unat response_status)] a)"

definition link_key_matches :: "(u8 list \<times> nat) option \<Rightarrow> u8 list \<Rightarrow> nat \<Rightarrow> bool" where
  "link_key_matches stored key type = (stored = Some (key, type))"

definition on_link_key_notification :: "btstack \<Rightarrow> bd_addr \<Rightarrow> u8 list \<Rightarrow> bt_app \<Rightarrow> bt_app option" where
  "on_link_key_notification env address packet a =
     (let a = usb_serial_printf ''[BT] Event: HCI_EVENT_LINK_KEY_NOTIFICATION'' [] a
      in if length packet < 25
         then Some (usb_serial_printf ''[BT] Invalid link key notification size=%u''
                      [LNum (length packet)] a)
         else do {
           notified_key \<leftarrow> slice_at packet 8 16;
           b \<leftarrow> byte_at packet 24;
           let notified_type = unat b;
           let (stored, a) = get_link_key env address a;
           let verified = link_key_matches stored notified_key notified_type;
           let write_needed = \<not> verified;
           let (verified, a) =
             (if write_needed
              then (let a = bt_call (gap_store_link_key_for_bd_addr address notified_key notified_type) a;
                        (stored, a) = get_link_key env address a
                    in (link_key_matches stored notified_key notified_type, a))
              else (verified, a));
           let a = usb_serial_printf ''[BT] Link key persisted type=%u write_needed=%u verified=%u''
             [LNum notified_type, LNum (of_bool write_needed), LNum (of_bool verified)] a;
           Some (case device_manager_find (device_manager a) address of
                   Some i \<Rightarrow> modify_device i (\<lambda>d. d\<lparr>dev_bonded := verified\<rparr>) a
                 | None \<Rightarrow> a)
         })"

definition handle_hci_event :: "btstack \<Rightarrow> hci_event \<Rightarrow> bt_app \<Rightarrow> bt_app option" where
  "handle_hci_event env event a =
     (case event of
        BTSTACK_EVENT_STATE working \<Rightarrow> Some (on_stack_state env working a)
      | GAP_EVENT_INQUIRY_RESULT address has_rssi rssi class_of_device name \<Rightarrow>
          Some (on_inquiry_result env address has_rssi rssi class_of_device name a)
      | GAP_EVENT_INQUIRY_COMPLETE \<Rightarrow> Some (on_inquiry_complete env a)
      | HCI_EVENT_CONNECTION_COMPLETE status handle address \<Rightarrow>
          Some (on_connection_complete status handle address a)
      | L2CAP_EVENT_CHANNEL_OPENED status psm local_cid remote_cid \<Rightarrow>
          Some (on_channel_opened env status psm local_cid remote_cid a)
      | L2CAP_EVENT_CAN_SEND_NOW cid \<Rightarrow> Some (on_can_send_now env cid a)
      | L2CAP_EVENT_CHANNEL_CLOSED cid \<Rightarrow> Some (on_channel_closed cid a)
      | GAP_EVENT_SECURITY_LEVEL handle status level \<Rightarrow>
          Some (on_security_level env handle status level a)
      | HCI_EVENT_AUTHENTICATION_COMPLETE_EVENT handle status \<Rightarrow>
          Some (on_authentication_complete handle status a)
      | HCI_EVENT_ENCRYPTION_CHANGE handle status enabled \<Rightarrow>
          Some (on_encryption_change env handle status enabled a)
      | HCI_EVENT_DISCONNECTION_COMPLETE handle reason \<Rightarrow>
          Some (on_disconnection_complete handle reason a)
      | HCI_EVENT_PIN_CODE_REQUEST addr \<Rightarrow> Some (on_pin_code_request env addr a)
      | HCI_EVENT_LINK_KEY_REQUEST address \<Rightarrow> Some (on_link_key_request env address a)
      | HCI_EVENT_LINK_KEY_NOTIFICATION address packet \<Rightarrow>
          on_link_key_notification env address packet a
      | HCI_EVENT_BOOKKEEPING \<Rightarrow> Some a
      | HCI_EVENT_OTHER event_type \<Rightarrow>
          Some (usb_serial_printf ''[BT] Unknown HCI event 0x%02x'' [LNum (unat event_type)] a))"

definition hci_event_handler :: "btstack \<Rightarrow> bt_packet \<Rightarrow> bt_app \<Rightarrow> bt_app option" where
  "hci_event_handler env packet a =
     (case packet of
        L2CAP_DATA_PACKET channel bytes \<Rightarrow> handle_hid_data_packet env channel bytes a
      | HCI_EVENT_PACKET event \<Rightarrow> handle_hci_event env event a
      | OTHER_PACKET \<Rightarrow> Some a)"

end
