(* ===== verification/Bluetooth_Control.thy ===== *)
theory Bluetooth_Control
  imports Bluetooth_Events
begin

unbundle bit_operations_syntax

text \<open>
  \<open>src/bt/bluetooth.c\<close>, third part: the execution of control requests, the snapshot for the HTTP
  server, initialisation, the console and the cooperative task. The firmware version is a parameter
  (\<open>firmware_version.h\<close> is generated). What \<open>usb_serial_read\<close> returned in a round of the task, and
  whether a CDC terminal is connected, are arguments; the events that \<open>async_context_poll\<close> dispatches
  are steps of their own.
\<close>

section \<open>Control requests\<close>

definition status_lines :: "bt_app \<Rightarrow> log_line list" where
  "status_lines a =
     (''[BT] Status state=%s devices=%u auto_connect=%u selected=%s'',
      [LStr (bt_state_name (current_state a)), LNum (dm_count (device_manager a)),
       LNum (of_bool (auto_connect_enabled a)),
       (if selected_device_valid a then LAddr (selected_device_addr a) else LStr ''<auto>'')])
     # device_manager_print_devices (device_manager a)"

definition execute_scan :: "bt_app \<Rightarrow> bt_app" where
  "execute_scan a =
     (if current_state a \<noteq> STATE_IDLE
      then usb_serial_printf ''[BT] Scan requires Idle state (current=%s)''
             [LStr (bt_state_name (current_state a))] a
      else start_inquiry (a\<lparr>auto_connect_enabled := False, device_manager := device_manager_init\<rparr>))"

definition execute_connect :: "btstack \<Rightarrow> bd_addr \<Rightarrow> bt_app \<Rightarrow> bt_app" where
  "execute_connect env address a =
     (case device_manager_find (device_manager a) address of
        Some i \<Rightarrow>
          if \<not> dev_hid_supported (device_at a i)
          then usb_serial_printf ''[BT] Keyboard %s not found; run scan first'' [LAddr address] a
          else if current_state a \<noteq> STATE_IDLE
          then usb_serial_printf ''[BT] Connect requires Idle state (current=%s)''
                 [LStr (bt_state_name (current_state a))] a
          else let a = a\<lparr>selected_device_addr := address, selected_device_valid := True,
                         auto_connect_enabled := True\<rparr>;
                   (saved, a) = store_selected_device env (selected_device_addr a) a;
                   a = usb_serial_printf ''[BT] Selected keyboard saved=%u'' [LNum (of_bool saved)] a
               in snd (begin_connection env (selected_device_addr a) a)
      | None \<Rightarrow> usb_serial_printf ''[BT] Keyboard %s not found; run scan first'' [LAddr address] a)"

definition execute_disconnect :: "btstack \<Rightarrow> bt_app \<Rightarrow> bt_app" where
  "execute_disconnect env a =
     (let a = a\<lparr>auto_connect_enabled := False\<rparr>
      in if acl_handle a \<noteq> HCI_CON_HANDLE_INVALID then bt_call (gap_disconnect (acl_handle a)) a
         else if current_state a = STATE_CONNECTING \<and> connecting_device_valid a
         then cancel_pending_connection env a
         else usb_serial_printf ''[BT] No active keyboard connection'' [] a)"

definition execute_reconnect :: "btstack \<Rightarrow> bt_app \<Rightarrow> bt_app" where
  "execute_reconnect env a =
     (let a = a\<lparr>auto_connect_enabled := True\<rparr>
      in if acl_handle a \<noteq> HCI_CON_HANDLE_INVALID
         then usb_serial_printf ''[BT] Keyboard is already connected'' [] a
         else
           let target = (if selected_device_valid a then Some (selected_device_addr a)
                         else device_manager_get_connection_target (device_manager a))
           in if current_state a = STATE_IDLE
              then (case target of
                      Some target_address \<Rightarrow>
                        let a = (if \<not> selected_device_valid a
                                 then snd (store_selected_device env target_address
                                        (a\<lparr>selected_device_addr := target_address,
                                           selected_device_valid := True\<rparr>))
                                 else a)
                        in snd (begin_connection env target_address a)
                    | None \<Rightarrow> start_inquiry a)
              else usb_serial_printf ''[BT] Reconnect queued; current state=%s''
                     [LStr (bt_state_name (current_state a))] a)"

definition execute_forget :: "btstack \<Rightarrow> bt_app \<Rightarrow> bt_app" where
  "execute_forget env a =
     (let a = a\<lparr>auto_connect_enabled := False, selected_device_valid := False\<rparr>;
          a = delete_selected_device env a;
          a = bt_call gap_delete_all_link_keys a;
          a = a\<lparr>device_manager := device_manager_clear_bonded (device_manager a)\<rparr>;
          a = usb_serial_printf ''[BT] All keyboard bonds deleted'' [] a
      in if acl_handle a \<noteq> HCI_CON_HANDLE_INVALID then bt_call (gap_disconnect (acl_handle a)) a
         else cancel_pending_connection env a)"

definition execute_control_request :: "btstack \<Rightarrow> bluetooth_control_request \<Rightarrow> bt_app \<Rightarrow> bt_app" where
  "execute_control_request env request a =
     (case rq_action request of
        BLUETOOTH_CONTROL_HELP \<Rightarrow> usb_serial_printf ''%s'' [LStr control_command_help] a
      | BLUETOOTH_CONTROL_STATUS \<Rightarrow> a\<lparr>app_log := app_log a @ status_lines a\<rparr>
      | BLUETOOTH_CONTROL_SCAN \<Rightarrow> execute_scan a
      | BLUETOOTH_CONTROL_CONNECT \<Rightarrow> execute_connect env (rq_address request) a
      | BLUETOOTH_CONTROL_DISCONNECT \<Rightarrow> execute_disconnect env a
      | BLUETOOTH_CONTROL_RECONNECT \<Rightarrow> execute_reconnect env a
      | BLUETOOTH_CONTROL_FORGET \<Rightarrow> execute_forget env a)"

definition bluetooth_control_submit :: "bluetooth_control_request \<Rightarrow> bt_app \<Rightarrow> bool \<times> bt_app" where
  "bluetooth_control_submit request a =
     (let (ok, q) = control_request_queue_push (control_requests a) request
      in (ok, a\<lparr>control_requests := q\<rparr>))"

section \<open>Snapshot\<close>

text \<open>\<open>strncpy(field, s, sizeof(field) - 1)\<close> into a zeroed field of \<open>n\<close> characters.\<close>

definition strncpy_field :: "nat \<Rightarrow> string \<Rightarrow> char list" where
  "strncpy_field n s = take (n - 1) s @ replicate (n - length (take (n - 1) s)) NUL"

record bluetooth_control_device =
  cd_address :: bd_addr
  cd_name :: "char list"
  cd_rssi :: i8
  cd_has_rssi :: bool
  cd_keyboard :: bool
  cd_bonded :: bool
  cd_connected :: bool
  cd_report_descriptor_present :: bool
  cd_report_descriptor_too_large :: bool
  cd_report_descriptor_valid :: bool
  cd_report_has_keyboard :: bool
  cd_report_has_consumer_control :: bool
  cd_report_has_nkro_keyboard :: bool
  cd_report_uses_ids :: bool

record bluetooth_control_snapshot =
  sn_version :: "char list"
  sn_state :: "char list"
  sn_auto_connect :: bool
  sn_has_pairing_pin :: bool
  sn_pairing_pin :: "char list"
  sn_has_selected_device :: bool
  sn_selected_device :: bd_addr
  sn_device_count :: nat
  sn_devices :: "bluetooth_control_device list"

definition zero_control_device :: bluetooth_control_device where
  "zero_control_device =
     \<lparr>cd_address = replicate 6 0, cd_name = replicate 64 NUL, cd_rssi = 0, cd_has_rssi = False,
      cd_keyboard = False, cd_bonded = False, cd_connected = False,
      cd_report_descriptor_present = False, cd_report_descriptor_too_large = False,
      cd_report_descriptor_valid = False, cd_report_has_keyboard = False,
      cd_report_has_consumer_control = False, cd_report_has_nkro_keyboard = False,
      cd_report_uses_ids = False\<rparr>"

definition control_device :: "Device \<Rightarrow> bluetooth_control_device" where
  "control_device source =
     \<lparr>cd_address = dev_address source,
      cd_name = strncpy_field 64 (if dev_has_name source then c_string (dev_name source) else []),
      cd_rssi = dev_rssi source, cd_has_rssi = dev_has_rssi source,
      cd_keyboard = dev_hid_supported source, cd_bonded = dev_bonded source,
      cd_connected = dev_connected source,
      cd_report_descriptor_present = dev_report_descriptor_present source,
      cd_report_descriptor_too_large = dev_report_descriptor_too_large source,
      cd_report_descriptor_valid = dev_report_descriptor_valid source,
      cd_report_has_keyboard = dev_report_has_keyboard source,
      cd_report_has_consumer_control = dev_report_has_consumer_control source,
      cd_report_has_nkro_keyboard = dev_report_has_nkro_keyboard source,
      cd_report_uses_ids = dev_report_uses_ids source\<rparr>"

definition bluetooth_control_get_snapshot :: "string \<Rightarrow> bt_app \<Rightarrow> bluetooth_control_snapshot" where
  "bluetooth_control_get_snapshot version a =
     (let count = min (dm_count (device_manager a)) 16
      in \<lparr>sn_version = strncpy_field 32 version,
          sn_state = strncpy_field 24 (bt_state_name (current_state a)),
          sn_auto_connect = auto_connect_enabled a,
          sn_has_pairing_pin = pairing_pin_pending a,
          sn_pairing_pin = strncpy_field 7 (if pairing_pin_pending a then ''0000'' else []),
          sn_has_selected_device = selected_device_valid a,
          sn_selected_device = (if selected_device_valid a then selected_device_addr a
                                else replicate 6 0),
          sn_device_count = count,
          sn_devices = map control_device (take count (dm_devices (device_manager a))) @
                       replicate (16 - count) zero_control_device\<rparr>)"

section \<open>Console\<close>

definition request_of_command :: "control_command \<Rightarrow> bluetooth_control_request option" where
  "request_of_command command =
     (case cmd_type command of
        CONTROL_COMMAND_HELP \<Rightarrow> Some (zero_request\<lparr>rq_action := BLUETOOTH_CONTROL_HELP\<rparr>)
      | CONTROL_COMMAND_STATUS \<Rightarrow> Some (zero_request\<lparr>rq_action := BLUETOOTH_CONTROL_STATUS\<rparr>)
      | CONTROL_COMMAND_SCAN \<Rightarrow> Some (zero_request\<lparr>rq_action := BLUETOOTH_CONTROL_SCAN\<rparr>)
      | CONTROL_COMMAND_CONNECT \<Rightarrow> Some (zero_request\<lparr>rq_action := BLUETOOTH_CONTROL_CONNECT,
                                                    rq_address := cmd_address command\<rparr>)
      | CONTROL_COMMAND_DISCONNECT \<Rightarrow> Some (zero_request\<lparr>rq_action := BLUETOOTH_CONTROL_DISCONNECT\<rparr>)
      | CONTROL_COMMAND_RECONNECT \<Rightarrow> Some (zero_request\<lparr>rq_action := BLUETOOTH_CONTROL_RECONNECT\<rparr>)
      | CONTROL_COMMAND_FORGET \<Rightarrow> Some (zero_request\<lparr>rq_action := BLUETOOTH_CONTROL_FORGET\<rparr>)
      | _ \<Rightarrow> None)"

definition submit_parsed_command :: "control_command \<Rightarrow> bt_app \<Rightarrow> bool \<times> bt_app" where
  "submit_parsed_command command a =
     (case request_of_command command of
        None \<Rightarrow> (False, a)
      | Some request \<Rightarrow> bluetooth_control_submit request a)"

definition LF :: char where "LF = CHR 0x0A"
definition CR :: char where "CR = CHR 0x0D"

text \<open>One received character; \<open>None\<close> is a write behind the 32-byte buffer or an unterminated read.\<close>

definition console_char :: "bt_app \<Rightarrow> char \<Rightarrow> bt_app option" where
  "console_char a ch =
     (if ch = CR \<or> ch = LF then
        if command_length a = 0 then Some a
        else do {
          buf \<leftarrow> array_put (command_buffer a) (command_length a) NUL;
          let a = a\<lparr>command_buffer := buf\<rparr>;
          (ok, command) \<leftarrow> control_command_parse (Some buf);
          if \<not> ok
          then Some ((usb_serial_printf (''[BT] Unknown command: %s'' @ [CR, LF] @ ''%s'')
                        [LStr (c_string buf), LStr control_command_help] a)\<lparr>command_length := 0\<rparr>)
          else (let (submitted, a) = submit_parsed_command command a;
                    a = (if \<not> submitted
                         then usb_serial_printf ''[BT] Control request queue full'' [] a else a)
                in Some (a\<lparr>command_length := 0\<rparr>))
        }
      else if command_length a < 31 then do {
        buf \<leftarrow> array_put (command_buffer a) (command_length a) ch;
        Some (a\<lparr>command_buffer := buf, command_length := command_length a + 1\<rparr>)
      }
      else Some (usb_serial_printf ''[BT] Command too long'' [] (a\<lparr>command_length := 0\<rparr>)))"

fun console_input :: "char list \<Rightarrow> bt_app \<Rightarrow> bt_app option" where
  "console_input [] a = Some a"
| "console_input (ch # cs) a = do {
     a \<leftarrow> console_char a ch;
     console_input cs a
   }"

section \<open>The task\<close>

text \<open>The loop that empties the request queue; \<open>fuel\<close> bounds its rounds and running out is \<open>None\<close>.\<close>

fun run_control_requests :: "btstack \<Rightarrow> nat \<Rightarrow> bt_app \<Rightarrow> bt_app option" where
  "run_control_requests env fuel a =
     (case control_request_queue_pop (control_requests a) of
        None \<Rightarrow> Some a
      | Some (request, q) \<Rightarrow>
          (case fuel of
             0 \<Rightarrow> None
           | Suc fuel \<Rightarrow>
               run_control_requests env fuel
                 (execute_control_request env request (a\<lparr>control_requests := q\<rparr>))))"

declare run_control_requests.simps [simp del]

definition log_startup :: "string \<Rightarrow> bool \<Rightarrow> bt_app \<Rightarrow> bt_app" where
  "log_startup version connected a =
     (if stack_working a \<and> \<not> startup_logged a \<and> connected
      then usb_serial_printf ''[BT] Stack started; firmware=%s adapter address %s''
             [LStr version, LAddr (local_address a)] (a\<lparr>startup_logged := True\<rparr>)
      else a)"

definition bluetooth_task :: "btstack \<Rightarrow> string \<Rightarrow> u8 list \<Rightarrow> bool \<Rightarrow> bt_app \<Rightarrow> bt_app option" where
  "bluetooth_task env version input connected a = do {
     let a = schedule_keyboard_led_report env a;
     a \<leftarrow> console_input (map byte_char input) a;
     a \<leftarrow> run_control_requests env CONTROL_REQUEST_QUEUE_CAPACITY a;
     Some (log_startup version connected a)
   }"

definition bluetooth_init :: "btstack \<Rightarrow> bt_app \<Rightarrow> bt_app" where
  "bluetooth_init env a =
     (if \<not> be_arch_ok env
      then usb_serial_printf ''BT: CYW43 initialization failed'' [] a
      else let a = a\<lparr>hid_channels := hid_channels_init, control_requests := control_request_queue_init\<rparr>;
               a = load_selected_device env a;
               a = bt_call (stack_setup ''l2cap_init'') a;
               a = bt_call (stack_setup ''sdp_client_init'') a;
               a = a\<lparr>device_manager := device_manager_init\<rparr>;
               a = bt_call (stack_setup ''gap_set_bondable_mode'') a;
               a = bt_call (stack_setup ''gap_ssp_set_io_capability'') a;
               a = bt_call (stack_setup ''gap_ssp_set_auto_accept'') a;
               a = bt_call (stack_setup ''hci_set_inquiry_mode'') a;
               a = bt_call (stack_setup ''hci_add_event_handler'') a
           in bt_call (stack_setup ''hci_power_control'') a)"

definition bluetooth_set_keyboard_leds :: "u8 \<Rightarrow> bt_app \<Rightarrow> bt_app" where
  "bluetooth_set_keyboard_leds leds a =
     a\<lparr>hid_channels := snd (hid_channels_set_leds (hid_channels a) leds)\<rparr>"

definition bluetooth_forward_key_event :: "bool \<Rightarrow> u8 \<Rightarrow> u8 \<Rightarrow> bt_app \<Rightarrow> bt_app" where
  "bluetooth_forward_key_event pressed modifier keycode a =
     (if pressed then keyboard_action (keyboard_press modifier keycode) a
      else keyboard_action keyboard_release a)"

end
