(* ===== verification/Bluetooth_Frames.thy ===== *)
theory Bluetooth_Frames
  imports Bluetooth_Control
begin

unbundle bit_operations_syntax

text \<open>
  Frame equations of the Bluetooth application's operations: which fields of the state each of them
  leaves as they were. They are simplification rules, so a proof about an event names only the
  operations that change the field it speaks of.
\<close>

lemma bt_call_frame [simp]:
  "local_address (bt_call c a) = local_address a"
  "connected_device_addr (bt_call c a) = connected_device_addr a"
  "connecting_device_addr (bt_call c a) = connecting_device_addr a"
  "connecting_device_valid (bt_call c a) = connecting_device_valid a"
  "connection_cancel_requested (bt_call c a) = connection_cancel_requested a"
  "stack_working (bt_call c a) = stack_working a"
  "startup_logged (bt_call c a) = startup_logged a"
  "current_state (bt_call c a) = current_state a"
  "inquiry_count (bt_call c a) = inquiry_count a"
  "inquiry_timer_armed (bt_call c a) = inquiry_timer_armed a"
  "device_manager (bt_call c a) = device_manager a"
  "acl_handle (bt_call c a) = acl_handle a"
  "hid_channels (bt_call c a) = hid_channels a"
  "command_buffer (bt_call c a) = command_buffer a"
  "command_length (bt_call c a) = command_length a"
  "sdp_parser (bt_call c a) = sdp_parser a"
  "selected_device_addr (bt_call c a) = selected_device_addr a"
  "selected_device_valid (bt_call c a) = selected_device_valid a"
  "auto_connect_enabled (bt_call c a) = auto_connect_enabled a"
  "pairing_pin_pending (bt_call c a) = pairing_pin_pending a"
  "pairing_pin_timer_armed (bt_call c a) = pairing_pin_timer_armed a"
  "control_requests (bt_call c a) = control_requests a"
  "keyboard (bt_call c a) = keyboard a"
  "app_log (bt_call c a) = app_log a"
  by (simp_all add: bt_call_def)

lemma usb_serial_printf_frame [simp]:
  "local_address (usb_serial_printf fmt args a) = local_address a"
  "connected_device_addr (usb_serial_printf fmt args a) = connected_device_addr a"
  "connecting_device_addr (usb_serial_printf fmt args a) = connecting_device_addr a"
  "connecting_device_valid (usb_serial_printf fmt args a) = connecting_device_valid a"
  "connection_cancel_requested (usb_serial_printf fmt args a) = connection_cancel_requested a"
  "stack_working (usb_serial_printf fmt args a) = stack_working a"
  "startup_logged (usb_serial_printf fmt args a) = startup_logged a"
  "current_state (usb_serial_printf fmt args a) = current_state a"
  "inquiry_count (usb_serial_printf fmt args a) = inquiry_count a"
  "inquiry_timer_armed (usb_serial_printf fmt args a) = inquiry_timer_armed a"
  "device_manager (usb_serial_printf fmt args a) = device_manager a"
  "acl_handle (usb_serial_printf fmt args a) = acl_handle a"
  "hid_channels (usb_serial_printf fmt args a) = hid_channels a"
  "command_buffer (usb_serial_printf fmt args a) = command_buffer a"
  "command_length (usb_serial_printf fmt args a) = command_length a"
  "sdp_parser (usb_serial_printf fmt args a) = sdp_parser a"
  "selected_device_addr (usb_serial_printf fmt args a) = selected_device_addr a"
  "selected_device_valid (usb_serial_printf fmt args a) = selected_device_valid a"
  "auto_connect_enabled (usb_serial_printf fmt args a) = auto_connect_enabled a"
  "pairing_pin_pending (usb_serial_printf fmt args a) = pairing_pin_pending a"
  "pairing_pin_timer_armed (usb_serial_printf fmt args a) = pairing_pin_timer_armed a"
  "control_requests (usb_serial_printf fmt args a) = control_requests a"
  "keyboard (usb_serial_printf fmt args a) = keyboard a"
  "calls (usb_serial_printf fmt args a) = calls a"
  by (simp_all add: usb_serial_printf_def)

lemma clear_pairing_pin_frame [simp]:
  "local_address (clear_pairing_pin a) = local_address a"
  "connected_device_addr (clear_pairing_pin a) = connected_device_addr a"
  "connecting_device_addr (clear_pairing_pin a) = connecting_device_addr a"
  "connecting_device_valid (clear_pairing_pin a) = connecting_device_valid a"
  "connection_cancel_requested (clear_pairing_pin a) = connection_cancel_requested a"
  "stack_working (clear_pairing_pin a) = stack_working a"
  "startup_logged (clear_pairing_pin a) = startup_logged a"
  "current_state (clear_pairing_pin a) = current_state a"
  "inquiry_count (clear_pairing_pin a) = inquiry_count a"
  "inquiry_timer_armed (clear_pairing_pin a) = inquiry_timer_armed a"
  "device_manager (clear_pairing_pin a) = device_manager a"
  "acl_handle (clear_pairing_pin a) = acl_handle a"
  "hid_channels (clear_pairing_pin a) = hid_channels a"
  "command_buffer (clear_pairing_pin a) = command_buffer a"
  "command_length (clear_pairing_pin a) = command_length a"
  "sdp_parser (clear_pairing_pin a) = sdp_parser a"
  "selected_device_addr (clear_pairing_pin a) = selected_device_addr a"
  "selected_device_valid (clear_pairing_pin a) = selected_device_valid a"
  "auto_connect_enabled (clear_pairing_pin a) = auto_connect_enabled a"
  "control_requests (clear_pairing_pin a) = control_requests a"
  "keyboard (clear_pairing_pin a) = keyboard a"
  "app_log (clear_pairing_pin a) = app_log a"
  by (simp_all add: clear_pairing_pin_def Let_def)

lemma show_pairing_pin_frame [simp]:
  "local_address (show_pairing_pin a) = local_address a"
  "connected_device_addr (show_pairing_pin a) = connected_device_addr a"
  "connecting_device_addr (show_pairing_pin a) = connecting_device_addr a"
  "connecting_device_valid (show_pairing_pin a) = connecting_device_valid a"
  "connection_cancel_requested (show_pairing_pin a) = connection_cancel_requested a"
  "stack_working (show_pairing_pin a) = stack_working a"
  "startup_logged (show_pairing_pin a) = startup_logged a"
  "current_state (show_pairing_pin a) = current_state a"
  "inquiry_count (show_pairing_pin a) = inquiry_count a"
  "inquiry_timer_armed (show_pairing_pin a) = inquiry_timer_armed a"
  "device_manager (show_pairing_pin a) = device_manager a"
  "acl_handle (show_pairing_pin a) = acl_handle a"
  "hid_channels (show_pairing_pin a) = hid_channels a"
  "command_buffer (show_pairing_pin a) = command_buffer a"
  "command_length (show_pairing_pin a) = command_length a"
  "sdp_parser (show_pairing_pin a) = sdp_parser a"
  "selected_device_addr (show_pairing_pin a) = selected_device_addr a"
  "selected_device_valid (show_pairing_pin a) = selected_device_valid a"
  "auto_connect_enabled (show_pairing_pin a) = auto_connect_enabled a"
  "control_requests (show_pairing_pin a) = control_requests a"
  "keyboard (show_pairing_pin a) = keyboard a"
  "app_log (show_pairing_pin a) = app_log a"
  by (simp_all add: show_pairing_pin_def)

lemma transition_to_state_frame [simp]:
  "local_address (transition_to_state s a) = local_address a"
  "connected_device_addr (transition_to_state s a) = connected_device_addr a"
  "connecting_device_addr (transition_to_state s a) = connecting_device_addr a"
  "connecting_device_valid (transition_to_state s a) = connecting_device_valid a"
  "connection_cancel_requested (transition_to_state s a) = connection_cancel_requested a"
  "stack_working (transition_to_state s a) = stack_working a"
  "startup_logged (transition_to_state s a) = startup_logged a"
  "inquiry_count (transition_to_state s a) = inquiry_count a"
  "inquiry_timer_armed (transition_to_state s a) = inquiry_timer_armed a"
  "device_manager (transition_to_state s a) = device_manager a"
  "acl_handle (transition_to_state s a) = acl_handle a"
  "hid_channels (transition_to_state s a) = hid_channels a"
  "command_buffer (transition_to_state s a) = command_buffer a"
  "command_length (transition_to_state s a) = command_length a"
  "sdp_parser (transition_to_state s a) = sdp_parser a"
  "selected_device_addr (transition_to_state s a) = selected_device_addr a"
  "selected_device_valid (transition_to_state s a) = selected_device_valid a"
  "auto_connect_enabled (transition_to_state s a) = auto_connect_enabled a"
  "control_requests (transition_to_state s a) = control_requests a"
  "keyboard (transition_to_state s a) = keyboard a"
  by (simp_all add: transition_to_state_def Let_def)

lemma cancel_inquiry_timer_frame [simp]:
  "local_address (cancel_inquiry_timer a) = local_address a"
  "connected_device_addr (cancel_inquiry_timer a) = connected_device_addr a"
  "connecting_device_addr (cancel_inquiry_timer a) = connecting_device_addr a"
  "connecting_device_valid (cancel_inquiry_timer a) = connecting_device_valid a"
  "connection_cancel_requested (cancel_inquiry_timer a) = connection_cancel_requested a"
  "stack_working (cancel_inquiry_timer a) = stack_working a"
  "startup_logged (cancel_inquiry_timer a) = startup_logged a"
  "current_state (cancel_inquiry_timer a) = current_state a"
  "inquiry_count (cancel_inquiry_timer a) = inquiry_count a"
  "device_manager (cancel_inquiry_timer a) = device_manager a"
  "acl_handle (cancel_inquiry_timer a) = acl_handle a"
  "hid_channels (cancel_inquiry_timer a) = hid_channels a"
  "command_buffer (cancel_inquiry_timer a) = command_buffer a"
  "command_length (cancel_inquiry_timer a) = command_length a"
  "sdp_parser (cancel_inquiry_timer a) = sdp_parser a"
  "selected_device_addr (cancel_inquiry_timer a) = selected_device_addr a"
  "selected_device_valid (cancel_inquiry_timer a) = selected_device_valid a"
  "auto_connect_enabled (cancel_inquiry_timer a) = auto_connect_enabled a"
  "pairing_pin_pending (cancel_inquiry_timer a) = pairing_pin_pending a"
  "pairing_pin_timer_armed (cancel_inquiry_timer a) = pairing_pin_timer_armed a"
  "control_requests (cancel_inquiry_timer a) = control_requests a"
  "keyboard (cancel_inquiry_timer a) = keyboard a"
  "app_log (cancel_inquiry_timer a) = app_log a"
  by (simp_all add: cancel_inquiry_timer_def)

lemma start_inquiry_frame [simp]:
  "local_address (start_inquiry a) = local_address a"
  "connected_device_addr (start_inquiry a) = connected_device_addr a"
  "connecting_device_addr (start_inquiry a) = connecting_device_addr a"
  "connecting_device_valid (start_inquiry a) = connecting_device_valid a"
  "connection_cancel_requested (start_inquiry a) = connection_cancel_requested a"
  "stack_working (start_inquiry a) = stack_working a"
  "startup_logged (start_inquiry a) = startup_logged a"
  "device_manager (start_inquiry a) = device_manager a"
  "acl_handle (start_inquiry a) = acl_handle a"
  "hid_channels (start_inquiry a) = hid_channels a"
  "command_buffer (start_inquiry a) = command_buffer a"
  "command_length (start_inquiry a) = command_length a"
  "sdp_parser (start_inquiry a) = sdp_parser a"
  "selected_device_addr (start_inquiry a) = selected_device_addr a"
  "selected_device_valid (start_inquiry a) = selected_device_valid a"
  "auto_connect_enabled (start_inquiry a) = auto_connect_enabled a"
  "control_requests (start_inquiry a) = control_requests a"
  "keyboard (start_inquiry a) = keyboard a"
  by (simp_all add: start_inquiry_def Let_def)

lemma start_idle_timer_frame [simp]:
  "local_address (start_idle_timer a) = local_address a"
  "connected_device_addr (start_idle_timer a) = connected_device_addr a"
  "connecting_device_addr (start_idle_timer a) = connecting_device_addr a"
  "connecting_device_valid (start_idle_timer a) = connecting_device_valid a"
  "connection_cancel_requested (start_idle_timer a) = connection_cancel_requested a"
  "stack_working (start_idle_timer a) = stack_working a"
  "startup_logged (start_idle_timer a) = startup_logged a"
  "current_state (start_idle_timer a) = current_state a"
  "inquiry_count (start_idle_timer a) = inquiry_count a"
  "device_manager (start_idle_timer a) = device_manager a"
  "acl_handle (start_idle_timer a) = acl_handle a"
  "hid_channels (start_idle_timer a) = hid_channels a"
  "command_buffer (start_idle_timer a) = command_buffer a"
  "command_length (start_idle_timer a) = command_length a"
  "sdp_parser (start_idle_timer a) = sdp_parser a"
  "selected_device_addr (start_idle_timer a) = selected_device_addr a"
  "selected_device_valid (start_idle_timer a) = selected_device_valid a"
  "auto_connect_enabled (start_idle_timer a) = auto_connect_enabled a"
  "pairing_pin_pending (start_idle_timer a) = pairing_pin_pending a"
  "pairing_pin_timer_armed (start_idle_timer a) = pairing_pin_timer_armed a"
  "control_requests (start_idle_timer a) = control_requests a"
  "keyboard (start_idle_timer a) = keyboard a"
  by (simp_all add: start_idle_timer_def Let_def)

lemma store_selected_device_frame [simp]:
  "local_address (snd (store_selected_device env ad a)) = local_address a"
  "connected_device_addr (snd (store_selected_device env ad a)) = connected_device_addr a"
  "connecting_device_addr (snd (store_selected_device env ad a)) = connecting_device_addr a"
  "connecting_device_valid (snd (store_selected_device env ad a)) = connecting_device_valid a"
  "connection_cancel_requested (snd (store_selected_device env ad a)) = connection_cancel_requested a"
  "stack_working (snd (store_selected_device env ad a)) = stack_working a"
  "startup_logged (snd (store_selected_device env ad a)) = startup_logged a"
  "current_state (snd (store_selected_device env ad a)) = current_state a"
  "inquiry_count (snd (store_selected_device env ad a)) = inquiry_count a"
  "inquiry_timer_armed (snd (store_selected_device env ad a)) = inquiry_timer_armed a"
  "device_manager (snd (store_selected_device env ad a)) = device_manager a"
  "acl_handle (snd (store_selected_device env ad a)) = acl_handle a"
  "hid_channels (snd (store_selected_device env ad a)) = hid_channels a"
  "command_buffer (snd (store_selected_device env ad a)) = command_buffer a"
  "command_length (snd (store_selected_device env ad a)) = command_length a"
  "sdp_parser (snd (store_selected_device env ad a)) = sdp_parser a"
  "selected_device_addr (snd (store_selected_device env ad a)) = selected_device_addr a"
  "selected_device_valid (snd (store_selected_device env ad a)) = selected_device_valid a"
  "auto_connect_enabled (snd (store_selected_device env ad a)) = auto_connect_enabled a"
  "pairing_pin_pending (snd (store_selected_device env ad a)) = pairing_pin_pending a"
  "pairing_pin_timer_armed (snd (store_selected_device env ad a)) = pairing_pin_timer_armed a"
  "control_requests (snd (store_selected_device env ad a)) = control_requests a"
  "keyboard (snd (store_selected_device env ad a)) = keyboard a"
  "app_log (snd (store_selected_device env ad a)) = app_log a"
  by (simp_all add: store_selected_device_def Let_def)

lemma delete_selected_device_frame [simp]:
  "local_address (delete_selected_device env a) = local_address a"
  "connected_device_addr (delete_selected_device env a) = connected_device_addr a"
  "connecting_device_addr (delete_selected_device env a) = connecting_device_addr a"
  "connecting_device_valid (delete_selected_device env a) = connecting_device_valid a"
  "connection_cancel_requested (delete_selected_device env a) = connection_cancel_requested a"
  "stack_working (delete_selected_device env a) = stack_working a"
  "startup_logged (delete_selected_device env a) = startup_logged a"
  "current_state (delete_selected_device env a) = current_state a"
  "inquiry_count (delete_selected_device env a) = inquiry_count a"
  "inquiry_timer_armed (delete_selected_device env a) = inquiry_timer_armed a"
  "device_manager (delete_selected_device env a) = device_manager a"
  "acl_handle (delete_selected_device env a) = acl_handle a"
  "hid_channels (delete_selected_device env a) = hid_channels a"
  "command_buffer (delete_selected_device env a) = command_buffer a"
  "command_length (delete_selected_device env a) = command_length a"
  "sdp_parser (delete_selected_device env a) = sdp_parser a"
  "selected_device_addr (delete_selected_device env a) = selected_device_addr a"
  "selected_device_valid (delete_selected_device env a) = selected_device_valid a"
  "auto_connect_enabled (delete_selected_device env a) = auto_connect_enabled a"
  "pairing_pin_pending (delete_selected_device env a) = pairing_pin_pending a"
  "pairing_pin_timer_armed (delete_selected_device env a) = pairing_pin_timer_armed a"
  "control_requests (delete_selected_device env a) = control_requests a"
  "keyboard (delete_selected_device env a) = keyboard a"
  "app_log (delete_selected_device env a) = app_log a"
  by (simp_all add: delete_selected_device_def)

lemma restore_saved_device_frame [simp]:
  "local_address (restore_saved_device env ad a) = local_address a"
  "connected_device_addr (restore_saved_device env ad a) = connected_device_addr a"
  "connecting_device_addr (restore_saved_device env ad a) = connecting_device_addr a"
  "connecting_device_valid (restore_saved_device env ad a) = connecting_device_valid a"
  "connection_cancel_requested (restore_saved_device env ad a) = connection_cancel_requested a"
  "stack_working (restore_saved_device env ad a) = stack_working a"
  "startup_logged (restore_saved_device env ad a) = startup_logged a"
  "current_state (restore_saved_device env ad a) = current_state a"
  "inquiry_count (restore_saved_device env ad a) = inquiry_count a"
  "inquiry_timer_armed (restore_saved_device env ad a) = inquiry_timer_armed a"
  "acl_handle (restore_saved_device env ad a) = acl_handle a"
  "hid_channels (restore_saved_device env ad a) = hid_channels a"
  "command_buffer (restore_saved_device env ad a) = command_buffer a"
  "command_length (restore_saved_device env ad a) = command_length a"
  "sdp_parser (restore_saved_device env ad a) = sdp_parser a"
  "selected_device_addr (restore_saved_device env ad a) = selected_device_addr a"
  "selected_device_valid (restore_saved_device env ad a) = selected_device_valid a"
  "auto_connect_enabled (restore_saved_device env ad a) = auto_connect_enabled a"
  "pairing_pin_pending (restore_saved_device env ad a) = pairing_pin_pending a"
  "pairing_pin_timer_armed (restore_saved_device env ad a) = pairing_pin_timer_armed a"
  "control_requests (restore_saved_device env ad a) = control_requests a"
  "keyboard (restore_saved_device env ad a) = keyboard a"
  by (simp_all add: restore_saved_device_def get_link_key_def Let_def split: prod.split option.split)

lemma begin_connection_frame [simp]:
  "local_address (snd (begin_connection env ad a)) = local_address a"
  "connected_device_addr (snd (begin_connection env ad a)) = connected_device_addr a"
  "stack_working (snd (begin_connection env ad a)) = stack_working a"
  "startup_logged (snd (begin_connection env ad a)) = startup_logged a"
  "inquiry_count (snd (begin_connection env ad a)) = inquiry_count a"
  "acl_handle (snd (begin_connection env ad a)) = acl_handle a"
  "hid_channels (snd (begin_connection env ad a)) = hid_channels a"
  "command_buffer (snd (begin_connection env ad a)) = command_buffer a"
  "command_length (snd (begin_connection env ad a)) = command_length a"
  "sdp_parser (snd (begin_connection env ad a)) = sdp_parser a"
  "selected_device_addr (snd (begin_connection env ad a)) = selected_device_addr a"
  "selected_device_valid (snd (begin_connection env ad a)) = selected_device_valid a"
  "auto_connect_enabled (snd (begin_connection env ad a)) = auto_connect_enabled a"
  "control_requests (snd (begin_connection env ad a)) = control_requests a"
  "keyboard (snd (begin_connection env ad a)) = keyboard a"
  by (simp_all add: begin_connection_def bt_status_call_def Let_def)

lemma cancel_pending_connection_frame [simp]:
  "local_address (cancel_pending_connection env a) = local_address a"
  "connected_device_addr (cancel_pending_connection env a) = connected_device_addr a"
  "connecting_device_addr (cancel_pending_connection env a) = connecting_device_addr a"
  "connecting_device_valid (cancel_pending_connection env a) = connecting_device_valid a"
  "stack_working (cancel_pending_connection env a) = stack_working a"
  "startup_logged (cancel_pending_connection env a) = startup_logged a"
  "current_state (cancel_pending_connection env a) = current_state a"
  "inquiry_count (cancel_pending_connection env a) = inquiry_count a"
  "inquiry_timer_armed (cancel_pending_connection env a) = inquiry_timer_armed a"
  "device_manager (cancel_pending_connection env a) = device_manager a"
  "acl_handle (cancel_pending_connection env a) = acl_handle a"
  "hid_channels (cancel_pending_connection env a) = hid_channels a"
  "command_buffer (cancel_pending_connection env a) = command_buffer a"
  "command_length (cancel_pending_connection env a) = command_length a"
  "sdp_parser (cancel_pending_connection env a) = sdp_parser a"
  "selected_device_addr (cancel_pending_connection env a) = selected_device_addr a"
  "selected_device_valid (cancel_pending_connection env a) = selected_device_valid a"
  "auto_connect_enabled (cancel_pending_connection env a) = auto_connect_enabled a"
  "pairing_pin_pending (cancel_pending_connection env a) = pairing_pin_pending a"
  "pairing_pin_timer_armed (cancel_pending_connection env a) = pairing_pin_timer_armed a"
  "control_requests (cancel_pending_connection env a) = control_requests a"
  "keyboard (cancel_pending_connection env a) = keyboard a"
  by (simp_all add: cancel_pending_connection_def bt_status_call_def Let_def)

lemma log_device_frame [simp]:
  "local_address (log_device d a) = local_address a"
  "connected_device_addr (log_device d a) = connected_device_addr a"
  "connecting_device_addr (log_device d a) = connecting_device_addr a"
  "connecting_device_valid (log_device d a) = connecting_device_valid a"
  "connection_cancel_requested (log_device d a) = connection_cancel_requested a"
  "stack_working (log_device d a) = stack_working a"
  "startup_logged (log_device d a) = startup_logged a"
  "current_state (log_device d a) = current_state a"
  "inquiry_count (log_device d a) = inquiry_count a"
  "inquiry_timer_armed (log_device d a) = inquiry_timer_armed a"
  "device_manager (log_device d a) = device_manager a"
  "acl_handle (log_device d a) = acl_handle a"
  "hid_channels (log_device d a) = hid_channels a"
  "command_buffer (log_device d a) = command_buffer a"
  "command_length (log_device d a) = command_length a"
  "sdp_parser (log_device d a) = sdp_parser a"
  "selected_device_addr (log_device d a) = selected_device_addr a"
  "selected_device_valid (log_device d a) = selected_device_valid a"
  "auto_connect_enabled (log_device d a) = auto_connect_enabled a"
  "pairing_pin_pending (log_device d a) = pairing_pin_pending a"
  "pairing_pin_timer_armed (log_device d a) = pairing_pin_timer_armed a"
  "control_requests (log_device d a) = control_requests a"
  "keyboard (log_device d a) = keyboard a"
  "calls (log_device d a) = calls a"
  by (simp_all add: log_device_def)

lemma modify_device_frame [simp]:
  "local_address (modify_device i f a) = local_address a"
  "connected_device_addr (modify_device i f a) = connected_device_addr a"
  "connecting_device_addr (modify_device i f a) = connecting_device_addr a"
  "connecting_device_valid (modify_device i f a) = connecting_device_valid a"
  "connection_cancel_requested (modify_device i f a) = connection_cancel_requested a"
  "stack_working (modify_device i f a) = stack_working a"
  "startup_logged (modify_device i f a) = startup_logged a"
  "current_state (modify_device i f a) = current_state a"
  "inquiry_count (modify_device i f a) = inquiry_count a"
  "inquiry_timer_armed (modify_device i f a) = inquiry_timer_armed a"
  "acl_handle (modify_device i f a) = acl_handle a"
  "hid_channels (modify_device i f a) = hid_channels a"
  "command_buffer (modify_device i f a) = command_buffer a"
  "command_length (modify_device i f a) = command_length a"
  "sdp_parser (modify_device i f a) = sdp_parser a"
  "selected_device_addr (modify_device i f a) = selected_device_addr a"
  "selected_device_valid (modify_device i f a) = selected_device_valid a"
  "auto_connect_enabled (modify_device i f a) = auto_connect_enabled a"
  "pairing_pin_pending (modify_device i f a) = pairing_pin_pending a"
  "pairing_pin_timer_armed (modify_device i f a) = pairing_pin_timer_armed a"
  "control_requests (modify_device i f a) = control_requests a"
  "keyboard (modify_device i f a) = keyboard a"
  "calls (modify_device i f a) = calls a"
  "app_log (modify_device i f a) = app_log a"
  by (simp_all add: modify_device_def)

lemma reset_hid_channels_frame [simp]:
  "local_address (reset_hid_channels a) = local_address a"
  "connected_device_addr (reset_hid_channels a) = connected_device_addr a"
  "connecting_device_addr (reset_hid_channels a) = connecting_device_addr a"
  "connecting_device_valid (reset_hid_channels a) = connecting_device_valid a"
  "connection_cancel_requested (reset_hid_channels a) = connection_cancel_requested a"
  "stack_working (reset_hid_channels a) = stack_working a"
  "startup_logged (reset_hid_channels a) = startup_logged a"
  "current_state (reset_hid_channels a) = current_state a"
  "inquiry_count (reset_hid_channels a) = inquiry_count a"
  "inquiry_timer_armed (reset_hid_channels a) = inquiry_timer_armed a"
  "device_manager (reset_hid_channels a) = device_manager a"
  "acl_handle (reset_hid_channels a) = acl_handle a"
  "command_buffer (reset_hid_channels a) = command_buffer a"
  "command_length (reset_hid_channels a) = command_length a"
  "sdp_parser (reset_hid_channels a) = sdp_parser a"
  "selected_device_addr (reset_hid_channels a) = selected_device_addr a"
  "selected_device_valid (reset_hid_channels a) = selected_device_valid a"
  "auto_connect_enabled (reset_hid_channels a) = auto_connect_enabled a"
  "pairing_pin_pending (reset_hid_channels a) = pairing_pin_pending a"
  "pairing_pin_timer_armed (reset_hid_channels a) = pairing_pin_timer_armed a"
  "control_requests (reset_hid_channels a) = control_requests a"
  "keyboard (reset_hid_channels a) = keyboard a"
  "calls (reset_hid_channels a) = calls a"
  "app_log (reset_hid_channels a) = app_log a"
  by (simp_all add: reset_hid_channels_def)

lemma schedule_keyboard_led_report_frame [simp]:
  "local_address (schedule_keyboard_led_report env a) = local_address a"
  "connected_device_addr (schedule_keyboard_led_report env a) = connected_device_addr a"
  "connecting_device_addr (schedule_keyboard_led_report env a) = connecting_device_addr a"
  "connecting_device_valid (schedule_keyboard_led_report env a) = connecting_device_valid a"
  "connection_cancel_requested (schedule_keyboard_led_report env a) = connection_cancel_requested a"
  "stack_working (schedule_keyboard_led_report env a) = stack_working a"
  "startup_logged (schedule_keyboard_led_report env a) = startup_logged a"
  "current_state (schedule_keyboard_led_report env a) = current_state a"
  "inquiry_count (schedule_keyboard_led_report env a) = inquiry_count a"
  "inquiry_timer_armed (schedule_keyboard_led_report env a) = inquiry_timer_armed a"
  "device_manager (schedule_keyboard_led_report env a) = device_manager a"
  "acl_handle (schedule_keyboard_led_report env a) = acl_handle a"
  "command_buffer (schedule_keyboard_led_report env a) = command_buffer a"
  "command_length (schedule_keyboard_led_report env a) = command_length a"
  "sdp_parser (schedule_keyboard_led_report env a) = sdp_parser a"
  "selected_device_addr (schedule_keyboard_led_report env a) = selected_device_addr a"
  "selected_device_valid (schedule_keyboard_led_report env a) = selected_device_valid a"
  "auto_connect_enabled (schedule_keyboard_led_report env a) = auto_connect_enabled a"
  "pairing_pin_pending (schedule_keyboard_led_report env a) = pairing_pin_pending a"
  "pairing_pin_timer_armed (schedule_keyboard_led_report env a) = pairing_pin_timer_armed a"
  "control_requests (schedule_keyboard_led_report env a) = control_requests a"
  "keyboard (schedule_keyboard_led_report env a) = keyboard a"
  by (simp_all add: schedule_keyboard_led_report_def bt_status_call_def Let_def)

lemma keyboard_action_frame [simp]:
  "local_address (keyboard_action f a) = local_address a"
  "connected_device_addr (keyboard_action f a) = connected_device_addr a"
  "connecting_device_addr (keyboard_action f a) = connecting_device_addr a"
  "connecting_device_valid (keyboard_action f a) = connecting_device_valid a"
  "connection_cancel_requested (keyboard_action f a) = connection_cancel_requested a"
  "stack_working (keyboard_action f a) = stack_working a"
  "startup_logged (keyboard_action f a) = startup_logged a"
  "current_state (keyboard_action f a) = current_state a"
  "inquiry_count (keyboard_action f a) = inquiry_count a"
  "inquiry_timer_armed (keyboard_action f a) = inquiry_timer_armed a"
  "device_manager (keyboard_action f a) = device_manager a"
  "acl_handle (keyboard_action f a) = acl_handle a"
  "hid_channels (keyboard_action f a) = hid_channels a"
  "command_buffer (keyboard_action f a) = command_buffer a"
  "command_length (keyboard_action f a) = command_length a"
  "sdp_parser (keyboard_action f a) = sdp_parser a"
  "selected_device_addr (keyboard_action f a) = selected_device_addr a"
  "selected_device_valid (keyboard_action f a) = selected_device_valid a"
  "auto_connect_enabled (keyboard_action f a) = auto_connect_enabled a"
  "pairing_pin_pending (keyboard_action f a) = pairing_pin_pending a"
  "pairing_pin_timer_armed (keyboard_action f a) = pairing_pin_timer_armed a"
  "control_requests (keyboard_action f a) = control_requests a"
  "calls (keyboard_action f a) = calls a"
  by (simp_all add: keyboard_action_def Let_def split: prod.split)

lemma release_usb_keyboard_frame [simp]:
  "local_address (release_usb_keyboard a) = local_address a"
  "connected_device_addr (release_usb_keyboard a) = connected_device_addr a"
  "connecting_device_addr (release_usb_keyboard a) = connecting_device_addr a"
  "connecting_device_valid (release_usb_keyboard a) = connecting_device_valid a"
  "connection_cancel_requested (release_usb_keyboard a) = connection_cancel_requested a"
  "stack_working (release_usb_keyboard a) = stack_working a"
  "startup_logged (release_usb_keyboard a) = startup_logged a"
  "current_state (release_usb_keyboard a) = current_state a"
  "inquiry_count (release_usb_keyboard a) = inquiry_count a"
  "inquiry_timer_armed (release_usb_keyboard a) = inquiry_timer_armed a"
  "device_manager (release_usb_keyboard a) = device_manager a"
  "acl_handle (release_usb_keyboard a) = acl_handle a"
  "hid_channels (release_usb_keyboard a) = hid_channels a"
  "command_buffer (release_usb_keyboard a) = command_buffer a"
  "command_length (release_usb_keyboard a) = command_length a"
  "sdp_parser (release_usb_keyboard a) = sdp_parser a"
  "selected_device_addr (release_usb_keyboard a) = selected_device_addr a"
  "selected_device_valid (release_usb_keyboard a) = selected_device_valid a"
  "auto_connect_enabled (release_usb_keyboard a) = auto_connect_enabled a"
  "pairing_pin_pending (release_usb_keyboard a) = pairing_pin_pending a"
  "pairing_pin_timer_armed (release_usb_keyboard a) = pairing_pin_timer_armed a"
  "control_requests (release_usb_keyboard a) = control_requests a"
  "calls (release_usb_keyboard a) = calls a"
  by (simp_all add: release_usb_keyboard_def)

lemma disconnect_acl_after_error_frame [simp]:
  "local_address (disconnect_acl_after_error st e a) = local_address a"
  "connected_device_addr (disconnect_acl_after_error st e a) = connected_device_addr a"
  "connecting_device_addr (disconnect_acl_after_error st e a) = connecting_device_addr a"
  "connecting_device_valid (disconnect_acl_after_error st e a) = connecting_device_valid a"
  "connection_cancel_requested (disconnect_acl_after_error st e a) = connection_cancel_requested a"
  "stack_working (disconnect_acl_after_error st e a) = stack_working a"
  "startup_logged (disconnect_acl_after_error st e a) = startup_logged a"
  "inquiry_count (disconnect_acl_after_error st e a) = inquiry_count a"
  "device_manager (disconnect_acl_after_error st e a) = device_manager a"
  "acl_handle (disconnect_acl_after_error st e a) = acl_handle a"
  "command_buffer (disconnect_acl_after_error st e a) = command_buffer a"
  "command_length (disconnect_acl_after_error st e a) = command_length a"
  "sdp_parser (disconnect_acl_after_error st e a) = sdp_parser a"
  "selected_device_addr (disconnect_acl_after_error st e a) = selected_device_addr a"
  "selected_device_valid (disconnect_acl_after_error st e a) = selected_device_valid a"
  "auto_connect_enabled (disconnect_acl_after_error st e a) = auto_connect_enabled a"
  "control_requests (disconnect_acl_after_error st e a) = control_requests a"
  by (simp_all add: disconnect_acl_after_error_def Let_def)

lemma open_interrupt_channel_frame [simp]:
  "local_address (open_interrupt_channel env a) = local_address a"
  "connected_device_addr (open_interrupt_channel env a) = connected_device_addr a"
  "connecting_device_addr (open_interrupt_channel env a) = connecting_device_addr a"
  "connecting_device_valid (open_interrupt_channel env a) = connecting_device_valid a"
  "connection_cancel_requested (open_interrupt_channel env a) = connection_cancel_requested a"
  "stack_working (open_interrupt_channel env a) = stack_working a"
  "startup_logged (open_interrupt_channel env a) = startup_logged a"
  "inquiry_count (open_interrupt_channel env a) = inquiry_count a"
  "device_manager (open_interrupt_channel env a) = device_manager a"
  "acl_handle (open_interrupt_channel env a) = acl_handle a"
  "command_buffer (open_interrupt_channel env a) = command_buffer a"
  "command_length (open_interrupt_channel env a) = command_length a"
  "sdp_parser (open_interrupt_channel env a) = sdp_parser a"
  "selected_device_addr (open_interrupt_channel env a) = selected_device_addr a"
  "selected_device_valid (open_interrupt_channel env a) = selected_device_valid a"
  "auto_connect_enabled (open_interrupt_channel env a) = auto_connect_enabled a"
  "control_requests (open_interrupt_channel env a) = control_requests a"
  by (simp_all add: open_interrupt_channel_def bt_status_call_def Let_def split: option.split)

lemma open_control_channel_frame [simp]:
  "local_address (open_control_channel env a) = local_address a"
  "connected_device_addr (open_control_channel env a) = connected_device_addr a"
  "connecting_device_addr (open_control_channel env a) = connecting_device_addr a"
  "connecting_device_valid (open_control_channel env a) = connecting_device_valid a"
  "connection_cancel_requested (open_control_channel env a) = connection_cancel_requested a"
  "stack_working (open_control_channel env a) = stack_working a"
  "startup_logged (open_control_channel env a) = startup_logged a"
  "inquiry_count (open_control_channel env a) = inquiry_count a"
  "device_manager (open_control_channel env a) = device_manager a"
  "acl_handle (open_control_channel env a) = acl_handle a"
  "command_buffer (open_control_channel env a) = command_buffer a"
  "command_length (open_control_channel env a) = command_length a"
  "sdp_parser (open_control_channel env a) = sdp_parser a"
  "selected_device_addr (open_control_channel env a) = selected_device_addr a"
  "selected_device_valid (open_control_channel env a) = selected_device_valid a"
  "auto_connect_enabled (open_control_channel env a) = auto_connect_enabled a"
  "control_requests (open_control_channel env a) = control_requests a"
  by (simp_all add: open_control_channel_def bt_status_call_def Let_def split: option.split)

lemma start_sdp_discovery_frame [simp]:
  "local_address (start_sdp_discovery env a) = local_address a"
  "connected_device_addr (start_sdp_discovery env a) = connected_device_addr a"
  "connecting_device_addr (start_sdp_discovery env a) = connecting_device_addr a"
  "connecting_device_valid (start_sdp_discovery env a) = connecting_device_valid a"
  "connection_cancel_requested (start_sdp_discovery env a) = connection_cancel_requested a"
  "stack_working (start_sdp_discovery env a) = stack_working a"
  "startup_logged (start_sdp_discovery env a) = startup_logged a"
  "inquiry_count (start_sdp_discovery env a) = inquiry_count a"
  "acl_handle (start_sdp_discovery env a) = acl_handle a"
  "command_buffer (start_sdp_discovery env a) = command_buffer a"
  "command_length (start_sdp_discovery env a) = command_length a"
  "selected_device_addr (start_sdp_discovery env a) = selected_device_addr a"
  "selected_device_valid (start_sdp_discovery env a) = selected_device_valid a"
  "auto_connect_enabled (start_sdp_discovery env a) = auto_connect_enabled a"
  "control_requests (start_sdp_discovery env a) = control_requests a"
  by (simp_all add: start_sdp_discovery_def bt_status_call_def Let_def split: option.split)

lemma state_of_transition [simp]: "current_state (transition_to_state s a) = s"
  by (simp add: transition_to_state_def Let_def)

end
