(* ===== verification/Bluetooth_Safety.thy ===== *)
theory Bluetooth_Safety
  imports Bluetooth_Frames
begin

unbundle bit_operations_syntax

text \<open>
  Memory safety and termination of the Bluetooth application: every handler keeps the device table,
  the SDP buffer and the console buffer well formed, and from a reachable state no event reads or
  writes outside a buffer.
\<close>

section \<open>Well-formedness\<close>

definition app_wf :: "bt_app \<Rightarrow> bool" where
  "app_wf a \<longleftrightarrow> dm_wf (device_manager a) \<and> hc_wf (hid_channels a) \<and> kq_wf (keyboard a) \<and>
     crq_wf (control_requests a) \<and> sp_wf (sdp_parser a) \<and>
     length (command_buffer a) = 32 \<and> command_length a < 32"

lemma app_wfD:
  assumes "app_wf a"
  shows "dm_wf (device_manager a)" "hc_wf (hid_channels a)" "kq_wf (keyboard a)"
    "crq_wf (control_requests a)" "sp_wf (sdp_parser a)" "length (command_buffer a) = 32"
    "command_length a < 32"
  using assms by (simp_all add: app_wf_def)

lemma app_wf_boot: "app_wf bt_app_boot"
  by (simp add: app_wf_def bt_app_boot_def sp_wf_idle)

text \<open>Operations that touch no component keep the invariant.\<close>

lemma app_wf_frame [simp]:
  "app_wf (bt_call c a) = app_wf a"
  "app_wf (usb_serial_printf fmt args a) = app_wf a"
  "app_wf (clear_pairing_pin a) = app_wf a"
  "app_wf (show_pairing_pin a) = app_wf a"
  "app_wf (transition_to_state s a) = app_wf a"
  "app_wf (cancel_inquiry_timer a) = app_wf a"
  "app_wf (start_inquiry a) = app_wf a"
  "app_wf (start_idle_timer a) = app_wf a"
  "app_wf (snd (store_selected_device env ad a)) = app_wf a"
  "app_wf (delete_selected_device env a) = app_wf a"
  "app_wf (cancel_pending_connection env a) = app_wf a"
  "app_wf (log_device d a) = app_wf a"
  by (simp_all add: app_wf_def)

lemma app_wf_updates [simp]:
  "app_wf (a\<lparr>local_address := v1\<rparr>) = app_wf a"
  "app_wf (a\<lparr>connected_device_addr := v1\<rparr>) = app_wf a"
  "app_wf (a\<lparr>connecting_device_addr := v1\<rparr>) = app_wf a"
  "app_wf (a\<lparr>connecting_device_valid := v2\<rparr>) = app_wf a"
  "app_wf (a\<lparr>connection_cancel_requested := v2\<rparr>) = app_wf a"
  "app_wf (a\<lparr>stack_working := v2\<rparr>) = app_wf a"
  "app_wf (a\<lparr>startup_logged := v2\<rparr>) = app_wf a"
  "app_wf (a\<lparr>current_state := v3\<rparr>) = app_wf a"
  "app_wf (a\<lparr>inquiry_timer_armed := v2\<rparr>) = app_wf a"
  "app_wf (a\<lparr>acl_handle := v4\<rparr>) = app_wf a"
  "app_wf (a\<lparr>selected_device_addr := v1\<rparr>) = app_wf a"
  "app_wf (a\<lparr>selected_device_valid := v2\<rparr>) = app_wf a"
  "app_wf (a\<lparr>auto_connect_enabled := v2\<rparr>) = app_wf a"
  "app_wf (a\<lparr>pairing_pin_pending := v2\<rparr>) = app_wf a"
  "app_wf (a\<lparr>pairing_pin_timer_armed := v2\<rparr>) = app_wf a"
  "app_wf (a\<lparr>app_log := v5\<rparr>) = app_wf a"
  by (simp_all add: app_wf_def)

text \<open>Updates of one component.\<close>

lemma app_wf_device_manager: "app_wf a \<Longrightarrow> dm_wf dm \<Longrightarrow> app_wf (a\<lparr>device_manager := dm\<rparr>)"
  by (simp add: app_wf_def)

lemma app_wf_hid_channels: "app_wf a \<Longrightarrow> hc_wf ch \<Longrightarrow> app_wf (a\<lparr>hid_channels := ch\<rparr>)"
  by (simp add: app_wf_def)

lemma app_wf_sdp_parser: "app_wf a \<Longrightarrow> sp_wf p \<Longrightarrow> app_wf (a\<lparr>sdp_parser := p\<rparr>)"
  by (simp add: app_wf_def)

lemma app_wf_control_requests: "app_wf a \<Longrightarrow> crq_wf q \<Longrightarrow> app_wf (a\<lparr>control_requests := q\<rparr>)"
  by (simp add: app_wf_def)

lemma app_wf_keyboard_action:
  "app_wf a \<Longrightarrow> (kq_wf (keyboard a) \<Longrightarrow> kq_wf (fst (f (keyboard a)))) \<Longrightarrow> app_wf (keyboard_action f a)"
  by (cases "f (keyboard a)") (simp add: app_wf_def keyboard_action_def)

lemma app_wf_release [intro]: "app_wf a \<Longrightarrow> app_wf (release_usb_keyboard a)"
  by (simp add: release_usb_keyboard_def app_wf_keyboard_action)

lemma app_wf_reset_channels [intro]: "app_wf a \<Longrightarrow> app_wf (reset_hid_channels a)"
  by (simp add: reset_hid_channels_def app_wf_hid_channels hc_wf_ops app_wfD)

text \<open>An assignment to fields of a device other than its name, class and address.\<close>

definition harmless :: "(Device \<Rightarrow> Device) \<Rightarrow> bool" where
  "harmless f \<longleftrightarrow> (\<forall>d. dev_address (f d) = dev_address d \<and> (device_wf d \<longrightarrow> device_wf (f d)))"

lemma harmless_updates [simp]:
  "harmless (\<lambda>d. d\<lparr>dev_bonded := b\<rparr>)"
  "harmless (\<lambda>d. d\<lparr>dev_connected := b\<rparr>)"
  "harmless (\<lambda>d. d\<lparr>dev_sdp_completed := b\<rparr>)"
  "harmless (\<lambda>d. d\<lparr>dev_hid_service_found := b\<rparr>)"
  "harmless (\<lambda>d. d\<lparr>dev_hid_control_psm := v, dev_hid_interrupt_psm := w\<rparr>)"
  "harmless clear_sdp_results"
  by (simp_all add: harmless_def device_wf_def clear_sdp_results_def)

lemma dm_wf_harmless:
  assumes wf: "dm_wf m" and i: "i < dm_count m" and f: "harmless f"
  shows "dm_wf (dm_modify i f m)"
proof -
  have "dm_used m ! i \<in> set (dm_used m)" using i length_dm_used [OF wf] by simp
  with wf have "device_wf (dm_used m ! i)" by (simp add: dm_wf_def)
  with f show ?thesis by (intro dm_modify_wf [OF wf i]) (simp_all add: harmless_def)
qed

lemma app_wf_modify_device:
  "app_wf a \<Longrightarrow> i < dm_count (device_manager a) \<Longrightarrow> harmless f \<Longrightarrow> app_wf (modify_device i f a)"
  by (simp add: modify_device_def app_wf_device_manager dm_wf_harmless app_wfD)

lemma get_connected_device_find:
  "get_connected_device a = device_manager_find (device_manager a) (connected_device_addr a)"
  by (simp add: get_connected_device_def device_manager_find_def)

lemma get_connected_device_less: "get_connected_device a = Some i \<Longrightarrow> i < dm_count (device_manager a)"
  by (simp add: get_connected_device_find dm_find_Some)

lemma get_connected_device_frame [simp]:
  "get_connected_device (usb_serial_printf fmt args a) = get_connected_device a"
  "get_connected_device (bt_call c a) = get_connected_device a"
  "get_connected_device (transition_to_state s a) = get_connected_device a"
  by (simp_all add: get_connected_device_def)

lemma modify_device_count [simp]:
  "dm_count (device_manager (modify_device i f a)) = dm_count (device_manager a)"
  by (simp add: modify_device_def)

lemma upsert_wf:
  assumes wf: "dm_wf m" and u: "device_manager_upsert m ad h r c n = (res, created, m')"
  shows "dm_wf m' \<and> (\<forall>i. res = Some i \<longrightarrow> i < dm_count m')"
proof (cases res)
  case None
  with u have "m' = m" 
    by (auto simp: device_manager_upsert_def Let_def split: option.splits if_splits)
  with wf None show ?thesis by simp
next
  case (Some i)
  with u have "dm_put m ad (h, r, c, n) = Some m'" by (simp add: dm_put_def)
  from dm.put_SomeD [OF wf this] have wf': "dm_wf m'" by simp
  with upsert_find [OF wf u [unfolded Some]] dm_find_Some Some show ?thesis by auto
qed

text \<open>The restored entry exists: the table was cleared if it was full.\<close>

lemma app_wf_restore [intro]:
  assumes wf: "app_wf a"
  shows "app_wf (restore_saved_device env ad a)"
proof -
  obtain res created m where u: "device_manager_upsert (device_manager a) ad False 0 0x0540 None = (res, created, m)"
    by (cases "device_manager_upsert (device_manager a) ad False 0 0x0540 None")
  obtain res2 created2 m2 where u2: "device_manager_upsert device_manager_init ad False 0 0x0540 None = (res2, created2, m2)"
    by (cases "device_manager_upsert device_manager_init ad False 0 0x0540 None")
  from upsert_wf [OF app_wfD(1) [OF wf] u] upsert_wf [OF dm_init_wf u2] wf show ?thesis
    by (auto simp: restore_saved_device_def u u2 get_link_key_def Let_def
        intro!: app_wf_device_manager dm_wf_harmless split: option.split)
qed

lemma app_wf_begin [intro]: "app_wf a \<Longrightarrow> app_wf (snd (begin_connection env ad a))"
  by (simp add: begin_connection_def bt_status_call_def Let_def app_wf_restore)

lemma app_wf_schedule [intro]:
  assumes "app_wf a"
  shows "app_wf (schedule_keyboard_led_report env a)"
  using assms app_wfD(2) [OF assms]
  by (auto simp: schedule_keyboard_led_report_def bt_status_call_def Let_def hc_wf_def
      intro!: app_wf_hid_channels)

lemma app_wf_error [intro]: "app_wf a \<Longrightarrow> app_wf (disconnect_acl_after_error st e a)"
  by (simp add: disconnect_acl_after_error_def Let_def app_wf_release app_wf_reset_channels)

lemma hc_wf_cid [simp]: "hc_wf (ch\<lparr>hc_control_cid := c\<rparr>) = hc_wf ch" "hc_wf (ch\<lparr>hc_interrupt_cid := c\<rparr>) = hc_wf ch"
  by (simp_all add: hc_wf_def)

lemma app_wf_open [intro]:
  assumes "app_wf a"
  shows "app_wf (open_control_channel env a)" "app_wf (open_interrupt_channel env a)"
  using assms app_wfD(2) [OF assms]
  by (auto simp: open_control_channel_def open_interrupt_channel_def bt_status_call_def Let_def
      intro!: app_wf_hid_channels split: option.split)

lemma app_wf_start_sdp [intro]:
  assumes "app_wf a"
  shows "app_wf (start_sdp_discovery env a)"
proof -
  have "sp_wf (sdp_parser_reset p) = sp_wf p" for p by (simp add: sp_wf_def sdp_parser_reset_def)
  with assms app_wfD(5) [OF assms] show ?thesis
    by (auto simp: start_sdp_discovery_def bt_status_call_def Let_def
      intro!: app_wf_error app_wf_sdp_parser app_wf_modify_device dest: get_connected_device_less split: option.split)
qed


section \<open>Event handlers keep the invariant\<close>

lemma sdp_feed_device:
  assumes "sdp_parser_feed frames p (Some d) aid n i b = Some (p', device, lines)"
  shows "\<exists>d'. device = Some d' \<and> dev_address d' = dev_address d \<and> (device_wf d \<longrightarrow> device_wf d')"
proof -
  have name: "\<exists>d'. device = Some d' \<and> dev_address d' = dev_address d \<and> (device_wf d \<longrightarrow> device_wf d')"
    if "parse_name (Some d) aid buf n = Some (device, lines)" for buf lines device
  proof -
    have "length bs < 64 \<Longrightarrow> device_wf d \<Longrightarrow>
        device_wf (d\<lparr>dev_name := memcpy_to (dev_name d) (map byte_char bs @ [NUL]), dev_has_name := h\<rparr>)" for bs h
      by (simp add: device_wf_def DEVICE_MANAGER_NAME_MAX_LENGTH_def memcpy_to_def)
    with that show ?thesis
      by (auto simp: parse_name_def Let_def slice_at_eq_Some DEVICE_MANAGER_NAME_MAX_LENGTH_def
          split: Option.bind_splits option.splits if_splits)
  qed
  have attr: "\<exists>d'. device = Some d' \<and> dev_address d' = dev_address d \<and> (device_wf d \<longrightarrow> device_wf d')"
    if "parse_attribute frames (Some d) aid buf n = Some (device, lines)" for buf lines device
    using that name
    by (auto simp: parse_attribute_def parse_descriptor_list_def parse_psm_list_def clear_report_flags_def
        device_wf_def Let_def split: if_splits Option.bind_splits option.splits)
  show ?thesis
    using assms attr
    by (auto simp: sdp_parser_feed_def clear_report_flags_def device_wf_def Let_def
        split: if_splits Option.bind_splits)
qed

lemma handle_control_data_ok:
  assumes "app_wf a"
  shows "\<exists>a'. handle_control_data env packet a = Some a' \<and> app_wf a'"
proof (cases packet)
  case Nil
  with assms show ?thesis by (simp add: handle_control_data_def)
next
  case (Cons b bs)
  with assms show ?thesis by (simp add: handle_control_data_def Let_def app_wf_open app_wf_error)
qed

lemma hid_data_ok:
  assumes wf: "app_wf a"
  shows "\<exists>a'. handle_hid_data_packet env ch packet a = Some a' \<and> app_wf a'"
proof -
  obtain res rep where p: "hid_boot_keyboard_parse_input (Some packet) (length packet) zero_boot_report = Some (res, rep)"
    using parse_total by blast
  from handle_control_data_ok [OF wf] p wf show ?thesis
    by (cases res) (auto simp: handle_hid_data_packet_def intro!: app_wf_keyboard_action send_report_wf)
qed

lemma sdp_attribute_ok:
  assumes wf: "app_wf a"
  shows "\<exists>a'. handle_sdp_attribute aid n i b a = Some a' \<and> app_wf a'"
proof -
  let ?d = "map_option (device_at a) (get_connected_device a)"
  have "128 < SDP_SEARCH_FRAMES" by (simp add: SDP_SEARCH_FRAMES_def)
  from feed_safe [OF app_wfD(5) [OF wf] this, of ?d aid n i b] obtain p d lines where
    feed: "sdp_parser_feed SDP_SEARCH_FRAMES (sdp_parser a) ?d aid n i b = Some (p, d, lines)" "sp_wf p"
    by blast
  show ?thesis
  proof (cases "get_connected_device a")
    case None
    with feed wf show ?thesis by (auto simp: handle_sdp_attribute_def Let_def intro!: app_wf_sdp_parser)
  next
    case (Some k)
    from get_connected_device_less [OF Some] have k: "k < dm_count (device_manager a)" .
    from sdp_feed_device [of SDP_SEARCH_FRAMES "sdp_parser a" "device_at a k" aid n i b p d lines] feed Some
    obtain d' where d': "d = Some d'" "dev_address d' = dev_address (device_at a k)"
      "device_wf (device_at a k) \<longrightarrow> device_wf d'" by auto
    have used: "device_at a k = dm_used (device_manager a) ! k" using dm_used_nth [OF app_wfD(1) [OF wf] k] .
    have "dm_used (device_manager a) ! k \<in> set (dm_used (device_manager a))"
      using k length_dm_used [OF app_wfD(1) [OF wf]] by simp
    with app_wfD(1) [OF wf] used have "device_wf (device_at a k)" by (simp add: dm_wf_def)
    with d' used have "dm_wf (dm_modify k (\<lambda>_. d') (device_manager a))"
      by (intro dm_modify_wf [OF app_wfD(1) [OF wf] k]) simp_all
    with Some feed d' wf show ?thesis
      by (auto simp: handle_sdp_attribute_def Let_def modify_device_def intro!: app_wf_device_manager app_wf_sdp_parser)
  qed
qed

lemma sdp_complete_ok:
  assumes wf: "app_wf a"
  shows "app_wf (handle_sdp_complete env status a)"
proof (cases "get_connected_device a")
  case None
  with wf show ?thesis by (auto simp: handle_sdp_complete_def Let_def intro!: app_wf_error)
next
  case (Some i)
  from get_connected_device_less [OF Some] have i: "i < dm_count (device_manager a)" .
  from wf Some i show ?thesis
    by (auto simp: handle_sdp_complete_def Let_def intro!: app_wf_error app_wf_open app_wf_modify_device)
qed

lemma app_wf_stack_state [wf_intros]: "app_wf a \<Longrightarrow> app_wf (on_stack_state env w a)"
  by (simp add: on_stack_state_def Let_def app_wf_begin)

lemma app_wf_inquiry_result [wf_intros]:
  assumes wf: "app_wf a"
  shows "app_wf (on_inquiry_result env ad h r c n a)"
proof -
  obtain res created m where u: "device_manager_upsert (device_manager a) ad h r c n = (res, created, m)"
    by (cases "device_manager_upsert (device_manager a) ad h r c n")
  from upsert_wf [OF app_wfD(1) [OF wf] u] wf show ?thesis
    by (auto simp: on_inquiry_result_def u get_link_key_def Let_def
        intro!: app_wf_modify_device app_wf_device_manager split: option.split)
qed

lemma app_wf_inquiry_complete [wf_intros]: "app_wf a \<Longrightarrow> app_wf (on_inquiry_complete env a)"
  by (auto simp: on_inquiry_complete_def Let_def intro!: app_wf_begin split: option.split)

lemma app_wf_connection_complete [wf_intros]: "app_wf a \<Longrightarrow> app_wf (on_connection_complete s h ad a)"
  by (auto simp: on_connection_complete_def Let_def dest: dm_find_Some
      intro!: app_wf_modify_device app_wf_reset_channels split: option.split)

lemma app_wf_channel_opened [wf_intros]: "app_wf a \<Longrightarrow> app_wf (on_channel_opened env s psm l r a)"
  by (auto simp: on_channel_opened_def Let_def bt_status_call_def
      intro!: app_wf_error app_wf_schedule app_wf_hid_channels hc_wf_ops app_wfD split: option.split)

lemma app_wf_can_send_now [wf_intros]:
  assumes "app_wf a"
  shows "app_wf (on_can_send_now env cid a)"
  using assms app_wfD(2) [OF assms]
  by (auto simp: on_can_send_now_def Let_def bt_status_call_def hc_wf_def
      intro!: app_wf_error app_wf_hid_channels split: prod.split)

lemma app_wf_channel_closed [wf_intros]: "app_wf a \<Longrightarrow> app_wf (on_channel_closed cid a)"
  using hc_wf_ops(4) [of "hid_channels a" cid] app_wfD(2) [of a]
  by (cases "hid_channels_closed (hid_channels a) cid")
    (auto simp: on_channel_closed_def Let_def intro!: app_wf_release app_wf_hid_channels)

lemma app_wf_security [wf_intros]: 
  "app_wf a \<Longrightarrow> app_wf (on_security_level env h s l a)"
  "app_wf a \<Longrightarrow> app_wf (on_authentication_complete h s a)"
  "app_wf a \<Longrightarrow> app_wf (on_encryption_change env h s e a)"
  by (auto simp: on_security_level_def on_authentication_complete_def on_encryption_change_def Let_def
      intro!: app_wf_error app_wf_start_sdp)

lemma dm_wf_map_used:
  assumes "dm_wf m" and "harmless f"
  shows "dm_wf (map_used f m)"
proof -
  have used: "dm_used (map_used f m) = map f (dm_used m)"
    using assms(1) by (simp add: dm_used_def map_used_def dm_wf_def)
  from assms show ?thesis
    unfolding dm_wf_def used by (auto simp: map_used_def harmless_def comp_def)
qed

lemma app_wf_disconnection_complete [wf_intros]: "app_wf a \<Longrightarrow> app_wf (on_disconnection_complete h r a)"
  by (auto simp: on_disconnection_complete_def handle_disconnected_state_def device_manager_clear_connections_def
      Let_def dm_wf_map_used app_wfD(1) intro!: app_wf_reset_channels app_wf_release app_wf_device_manager)

lemma app_wf_pin_code_request [wf_intros]: "app_wf a \<Longrightarrow> app_wf (on_pin_code_request env ad a)"
  by (auto simp: on_pin_code_request_def get_link_key_def Let_def dest: dm_find_Some
      intro!: app_wf_modify_device split: option.split prod.split)

lemma app_wf_link_key_request [wf_intros]: "app_wf a \<Longrightarrow> app_wf (on_link_key_request env ad a)"
  by (auto simp: on_link_key_request_def get_link_key_def bt_status_call_def Let_def split: option.split prod.split)

lemma link_key_notification_ok:
  "app_wf a \<Longrightarrow> \<exists>a'. on_link_key_notification env ad packet a = Some a' \<and> app_wf a'"
  by (auto simp: on_link_key_notification_def get_link_key_def Let_def dest: dm_find_Some
      intro!: app_wf_modify_device split: option.split)

lemma hci_event_ok:
  assumes "app_wf a"
  shows "\<exists>a'. handle_hci_event env e a = Some a' \<and> app_wf a'"
  using assms link_key_notification_ok [OF assms]
  by (cases e) (simp_all add: handle_hci_event_def wf_intros)

lemma packet_ok:
  assumes "app_wf a"
  shows "\<exists>a'. hci_event_handler env p a = Some a' \<and> app_wf a'"
  using assms hci_event_ok hid_data_ok by (cases p) (simp_all add: hci_event_handler_def)

lemma sdp_event_ok:
  assumes "app_wf a"
  shows "\<exists>a'. handle_sdp_client_query_result env e a = Some a' \<and> app_wf a'"
  using assms sdp_attribute_ok sdp_complete_ok by (cases e) (simp_all add: handle_sdp_client_query_result_def)

section \<open>Control requests and the task\<close>

lemma app_wf_execute:
  assumes wf: "app_wf a"
  shows "app_wf (execute_control_request env r a)"
proof -
  have "app_wf (execute_scan a)"
    using wf by (simp add: execute_scan_def app_wf_device_manager)
  moreover have "app_wf (execute_connect env ad a)" for ad
    using wf by (auto simp: execute_connect_def store_selected_device_def Let_def split: option.split
        intro!: app_wf_begin)
  moreover have "app_wf (execute_disconnect env a)"
    using wf by (simp add: execute_disconnect_def Let_def)
  moreover have "app_wf (execute_reconnect env a)"
    using wf by (auto simp: execute_reconnect_def Let_def intro!: app_wf_begin split: option.split)
  moreover have "app_wf (execute_forget env a)"
    using wf dm_wf_map_used [OF app_wfD(1) [OF wf], of "\<lambda>d. d\<lparr>dev_bonded := False\<rparr>"]
    by (auto simp: execute_forget_def device_manager_clear_bonded_def Let_def intro!: app_wf_device_manager)
  ultimately show ?thesis
    using wf by (cases "rq_action r") (simp_all add: execute_control_request_def)
qed

lemma execute_frame [simp]: "control_requests (execute_control_request env r a) = control_requests a"
proof -
  have "control_requests (execute_connect env ad a) = control_requests a" for ad
    by (simp add: execute_connect_def store_selected_device_def Let_def split: option.split)
  then show ?thesis
    by (cases "rq_action r") (auto simp: execute_control_request_def execute_scan_def execute_disconnect_def
      execute_reconnect_def execute_forget_def Let_def split: option.split)
qed

lemma run_control_requests_ok:
  "app_wf a \<Longrightarrow> crq_count (control_requests a) \<le> fuel \<Longrightarrow>
   \<exists>a'. run_control_requests env fuel a = Some a' \<and> app_wf a' \<and> crq_contents (control_requests a') = []"
proof (induction fuel arbitrary: a)
  case 0
  then have "control_request_queue_pop (control_requests a) = None"
    by (simp add: control_request_queue_pop_def)
  with 0 crq.deq_NoneD [OF app_wfD(4) [OF 0(1)]] show ?case by (simp add: run_control_requests.simps)
next
  case (Suc fuel)
  show ?case
  proof (cases "control_request_queue_pop (control_requests a)")
    case None
    with Suc.prems crq.deq_NoneD [OF app_wfD(4) [OF Suc.prems(1)]] show ?thesis
      by (simp add: run_control_requests.simps)
  next
    case (Some p)
    obtain r q where p: "p = (r, q)" by (cases p)
    from crq.deq_SomeD [OF app_wfD(4) [OF Suc.prems(1)] Some [unfolded p]]
    have q: "crq_wf q" "crq_contents (control_requests a) = r # crq_contents q" by simp_all
    let ?a = "execute_control_request env r (a\<lparr>control_requests := q\<rparr>)"
    have "app_wf ?a" using Suc.prems(1) q(1) by (intro app_wf_execute app_wf_control_requests)
    moreover have "crq_count (control_requests ?a) \<le> fuel"
      using Suc.prems(2) arg_cong [OF q(2), of length] by simp
    ultimately show ?thesis using Suc.IH [of ?a] Some p by (simp add: run_control_requests.simps)
  qed
qed

lemma submit_ok [wf_intros]: "app_wf a \<Longrightarrow> app_wf (snd (bluetooth_control_submit r a))"
  using crq.enq_result [OF app_wfD(4)]
  by (auto simp: bluetooth_control_submit_def intro!: app_wf_control_requests split: prod.split)

lemma submit_frame [simp]:
  "command_buffer (snd (bluetooth_control_submit r a)) = command_buffer a"
  "command_length (snd (bluetooth_control_submit r a)) = command_length a"
  by (simp_all add: bluetooth_control_submit_def split: prod.split)

lemma parse_buffer_total:
  assumes "NUL \<in> set buf"
  shows "\<exists>s rest. buf = s @ NUL # rest \<and> NUL \<notin> set s \<and> c_string buf = s \<and>
    control_command_parse (Some buf) = Some (command_spec s)"
proof -
  from split_list_first [OF assms] obtain s rest where "buf = s @ NUL # rest" "NUL \<notin> set s" by blast
  then show ?thesis using parse_string_spec by auto
qed

lemma app_wf_command_length: "app_wf a \<Longrightarrow> n < 32 \<Longrightarrow> app_wf (a\<lparr>command_length := n\<rparr>)"
  by (simp add: app_wf_def)

lemma app_wf_command_buffer: "app_wf a \<Longrightarrow> length b = 32 \<Longrightarrow> app_wf (a\<lparr>command_buffer := b\<rparr>)"
  by (simp add: app_wf_def)

lemma console_char_ok:
  assumes wf: "app_wf a"
  shows "\<exists>a'. console_char a ch = Some a' \<and> app_wf a'"
proof -
  from app_wfD [OF wf] have len: "length (command_buffer a) = 32" "command_length a < 32" by simp_all
  consider "ch = CR \<or> ch = LF" "command_length a = 0" | (line) "ch = CR \<or> ch = LF" "command_length a \<noteq> 0"
    | (add) "\<not> (ch = CR \<or> ch = LF)" "command_length a < 31"
    | "\<not> (ch = CR \<or> ch = LF)" "\<not> command_length a < 31" by blast
  then show ?thesis
  proof cases
    case line
    let ?buf = "(command_buffer a)[command_length a := NUL]" and ?a = "a\<lparr>command_buffer := (command_buffer a)[command_length a := NUL]\<rparr>"
    have "NUL \<in> set ?buf" using len by (simp add: set_update_memI)
    from parse_buffer_total [OF this] obtain ok command where
      parse: "control_command_parse (Some ?buf) = Some (ok, command)" by (metis surj_pair)
    have wf': "app_wf ?a" using wf len by (simp add: app_wf_command_buffer)
    have sub: "app_wf (snd (submit_parsed_command command ?a))"
      using wf' submit_ok [OF wf'] by (simp add: submit_parsed_command_def split: option.split)
    show ?thesis
      using line len parse wf' sub
      by (cases "submit_parsed_command command ?a")
        (auto simp: console_char_def Let_def intro!: app_wf_command_length)
  next
    case add
    with wf len show ?thesis
      by (simp add: console_char_def app_wf_def)
  qed (use wf in \<open>auto simp: console_char_def app_wf_def\<close>)
qed

lemma console_input_ok: "app_wf a \<Longrightarrow> \<exists>a'. console_input cs a = Some a' \<and> app_wf a'"
proof (induction cs arbitrary: a)
  case (Cons c cs)
  with console_char_ok [OF Cons.prems, of c] show ?case by auto
qed simp

lemma bluetooth_task_ok:
  assumes wf: "app_wf a"
  shows "\<exists>a'. bluetooth_task env version input connected a = Some a' \<and> app_wf a' \<and>
    crq_contents (control_requests a') = []"
proof -
  from console_input_ok [OF app_wf_schedule [OF wf]] obtain a1 where
    a1: "console_input (map byte_char input) (schedule_keyboard_led_report env a) = Some a1" "app_wf a1" by blast
  have "crq_count (control_requests a1) \<le> CONTROL_REQUEST_QUEUE_CAPACITY"
    using app_wfD(4) [OF a1(2)] by (simp add: crq_wf_def)
  from run_control_requests_ok [OF a1(2) this] obtain a2 where
    "run_control_requests env CONTROL_REQUEST_QUEUE_CAPACITY a1 = Some a2" "app_wf a2"
    "crq_contents (control_requests a2) = []" by blast
  with a1 show ?thesis by (simp add: bluetooth_task_def Let_def log_startup_def)
qed

lemma app_wf_init: "app_wf a \<Longrightarrow> app_wf (bluetooth_init env a)"
  by (auto simp: bluetooth_init_def load_selected_device_def Let_def split: prod.split
      intro!: app_wf_device_manager app_wf_hid_channels app_wf_control_requests)

lemma app_wf_timers [wf_intros]:
  "app_wf a \<Longrightarrow> app_wf (pairing_pin_timeout a)"
  "app_wf a \<Longrightarrow> app_wf (inquiry_timer_handler env a)"
  by (auto simp: pairing_pin_timeout_def inquiry_timer_handler_def Let_def intro!: app_wf_begin)

lemma app_wf_set_leds [wf_intros]: "app_wf a \<Longrightarrow> app_wf (bluetooth_set_keyboard_leds leds a)"
  by (simp add: bluetooth_set_keyboard_leds_def app_wf_hid_channels hc_wf_ops app_wfD)

section \<open>Steps and reachable states\<close>

text \<open>What can happen between two instants of the cooperative loop.\<close>

datatype bt_event =
    Packet bt_packet
  | Sdp sdp_event
  | InquiryTimer
  | PairingPinTimer
  | Task string "u8 list" bool
  | Submit bluetooth_control_request
  | SetLeds u8

definition bt_apply :: "btstack \<Rightarrow> bt_event \<Rightarrow> bt_app \<Rightarrow> bt_app option" where
  "bt_apply env e a =
     (case e of
        Packet p \<Rightarrow> hci_event_handler env p a
      | Sdp ev \<Rightarrow> handle_sdp_client_query_result env ev a
      | InquiryTimer \<Rightarrow> Some (inquiry_timer_handler env a)
      | PairingPinTimer \<Rightarrow> Some (pairing_pin_timeout a)
      | Task version input connected \<Rightarrow> bluetooth_task env version input connected a
      | Submit r \<Rightarrow> Some (snd (bluetooth_control_submit r a))
      | SetLeds leds \<Rightarrow> Some (bluetooth_set_keyboard_leds leds a))"

inductive bt_reachable :: "btstack \<Rightarrow> bt_app \<Rightarrow> bool" for env where
  init: "bt_reachable env (bluetooth_init env bt_app_boot)"
| step: "bt_reachable env a \<Longrightarrow> bt_apply env e a = Some a' \<Longrightarrow> bt_reachable env a'"

lemma bt_apply_ok:
  assumes wf: "app_wf a"
  shows "\<exists>a'. bt_apply env e a = Some a' \<and> app_wf a'"
  using wf packet_ok [OF wf] sdp_event_ok [OF wf] bluetooth_task_ok [OF wf]
  by (cases e) (simp_all add: bt_apply_def wf_intros, blast)

lemma bt_reachable_wf: "bt_reachable env a \<Longrightarrow> app_wf a"
proof (induction rule: bt_reachable.induct)
  case init
  show ?case by (rule app_wf_init [OF app_wf_boot])
next
  case (step a e a')
  then show ?case using bt_apply_ok [OF step.IH, of env e] by auto
qed

lemma bt_reachable_run:
  assumes "bt_reachable env a" and "run_events (bt_apply env) es a = Some a'"
  shows "bt_reachable env a'"
  using assms by (induction es arbitrary: a) (auto split: Option.bind_splits intro: bt_reachable.step)

interpretation bt_events: event_system "bt_apply env" "\<lambda>_ _. True" app_wf for env
  by unfold_locales (simp add: bt_apply_ok)

section \<open>An example run\<close>

text \<open>
  A BTstack whose calls all succeed, with the keyboard \<open>[1, 2, 3, 4, 5, 6]\<close> stored as the selected one,
  and the events of a whole session: start-up, the connection, the encrypted link, the SDP query
  without attributes, the control channel with the Boot Protocol handshake, the interrupt channel and
  one key report. Witnesses use the states this run goes through.
\<close>

definition demo_btstack :: btstack where
  "demo_btstack =
     \<lparr>be_status = (\<lambda>_. ERROR_CODE_SUCCESS), be_cid = (\<lambda>_. 0x40), be_link_key = (\<lambda>_. None),
      be_tlv = (\<lambda>_. True), be_tlv_get = (\<lambda>_. (6, [1, 2, 3, 4, 5, 6])), be_tlv_store = (\<lambda>_. 0),
      be_local_address = (\<lambda>_. [0xa, 0xb, 0xc, 0xd, 0xe, 0xf]), be_arch_ok = True\<rparr>"

definition demo_events :: "bt_event list" where
  "demo_events =
    [Packet (HCI_EVENT_PACKET (BTSTACK_EVENT_STATE True)),
     Packet (HCI_EVENT_PACKET (HCI_EVENT_CONNECTION_COMPLETE 0 0x000b [1, 2, 3, 4, 5, 6])),
     Packet (HCI_EVENT_PACKET (HCI_EVENT_ENCRYPTION_CHANGE 0x000b 0 1)),
     Sdp (SDP_EVENT_QUERY_COMPLETE 0),
     Packet (HCI_EVENT_PACKET (L2CAP_EVENT_CHANNEL_OPENED 0 0x11 0x40 0x50)),
     Packet (HCI_EVENT_PACKET (L2CAP_EVENT_CAN_SEND_NOW 0x40)),
     Packet (L2CAP_DATA_PACKET 0x40 [0x00]),
     Packet (HCI_EVENT_PACKET (L2CAP_EVENT_CHANNEL_OPENED 0 0x13 0x41 0x51)),
     Packet (L2CAP_DATA_PACKET 0x41 [0xa1, 0x01, 0, 0, 4, 0, 0, 0, 0, 0])]"

definition demo_state :: "nat \<Rightarrow> bt_app" where
  "demo_state n =
     (case run_events (bt_apply demo_btstack) (take n demo_events) (bluetooth_init demo_btstack bt_app_boot) of
        Some a \<Rightarrow> a
      | None \<Rightarrow> bt_app_boot)"

lemma demo_run:
  "run_events (bt_apply demo_btstack) (take n demo_events) (bluetooth_init demo_btstack bt_app_boot) =
   Some (demo_state n)"
proof -
  obtain a where "run_events (bt_apply demo_btstack) (take n demo_events)
      (bluetooth_init demo_btstack bt_app_boot) = Some a"
    using bt_events.run_progress [OF app_wf_init [OF app_wf_boot] allowed_run_True] by blast
  then show ?thesis by (simp add: demo_state_def)
qed

lemma demo_reachable: "bt_reachable demo_btstack (demo_state n)"
  by (rule bt_reachable_run [OF bt_reachable.init demo_run])

lemma demo_at_1:
  "current_state (demo_state 1) = STATE_CONNECTING" "\<not> connection_cancel_requested (demo_state 1)"
  "device_manager_find (device_manager (demo_state 1)) [1, 2, 3, 4, 5, 6] = Some 0"
  "command_length (demo_state 1) = 0" "crq_contents (control_requests (demo_state 1)) = []"
  "crq_count (control_requests (demo_state 1)) = 0"
proof -
  have "(let a = demo_state 1
     in (current_state a, connection_cancel_requested a, device_manager_find (device_manager a) [1, 2, 3, 4, 5, 6],
         command_length a, crq_contents (control_requests a), crq_count (control_requests a))) =
    (STATE_CONNECTING, False, Some 0, 0, [], 0)" by code_simp
  then show "current_state (demo_state 1) = STATE_CONNECTING" "\<not> connection_cancel_requested (demo_state 1)"
    "device_manager_find (device_manager (demo_state 1)) [1, 2, 3, 4, 5, 6] = Some 0"
    "command_length (demo_state 1) = 0" "crq_contents (control_requests (demo_state 1)) = []"
    "crq_count (control_requests (demo_state 1)) = 0" by (simp_all add: Let_def del: length_crq_contents)
qed

section \<open>Properties\<close>

text \<open>
  No sequence of events makes the firmware read or write outside a buffer or run on for ever:
  whatever Bluetooth packets, SDP responses, timer expiries, console characters and control requests
  arrive, in whatever order and number, every handler returns and the device table, the SDP
  buffer, the console line, the request queue and the USB report queue stay well formed.
\<close>

theorem firmware_memory_safe:
  "\<exists>a. run_events (bt_apply env) es (bluetooth_init env bt_app_boot) = Some a \<and> app_wf a"
  by (rule bt_events.run_progress [OF app_wf_init [OF app_wf_boot] allowed_run_True])

end
