(* ===== verification/Bluetooth_Calls.thy ===== *)
theory Bluetooth_Calls
  imports Bluetooth_Safety
begin

unbundle bit_operations_syntax

text \<open>
  The calls that drive a connection (the security request, the SDP query, the two channels and the
  packets sent on the control channel): for every event, exactly which of them it causes.
\<close>

section \<open>The calls that drive a connection\<close>

fun connection_call :: "bt_call \<Rightarrow> bool" where
  "connection_call (gap_request_security_level _ _) = True"
| "connection_call (sdp_client_query_uuid16 _) = True"
| "connection_call (l2cap_create_channel _ _) = True"
| "connection_call (l2cap_send _ _) = True"
| "connection_call _ = False"

definition connection_calls :: "bt_app \<Rightarrow> bt_call list" where
  "connection_calls a = List.filter connection_call (calls a)"

lemma connection_calls_bt_call [simp]:
  "connection_calls (bt_call c a) = connection_calls a @ (if connection_call c then [c] else [])"
  by (simp add: connection_calls_def bt_call_def)

lemma connection_calls_cong: "calls a = calls b \<Longrightarrow> connection_calls a = connection_calls b"
  by (simp add: connection_calls_def)

lemma connection_calls_updates [simp]:
  "connection_calls (a\<lparr>local_address := v1\<rparr>) = connection_calls a"
  "connection_calls (a\<lparr>connected_device_addr := v1\<rparr>) = connection_calls a"
  "connection_calls (a\<lparr>connecting_device_addr := v1\<rparr>) = connection_calls a"
  "connection_calls (a\<lparr>connecting_device_valid := v2\<rparr>) = connection_calls a"
  "connection_calls (a\<lparr>connection_cancel_requested := v2\<rparr>) = connection_calls a"
  "connection_calls (a\<lparr>stack_working := v2\<rparr>) = connection_calls a"
  "connection_calls (a\<lparr>startup_logged := v2\<rparr>) = connection_calls a"
  "connection_calls (a\<lparr>current_state := v3\<rparr>) = connection_calls a"
  "connection_calls (a\<lparr>inquiry_count := v6\<rparr>) = connection_calls a"
  "connection_calls (a\<lparr>inquiry_timer_armed := v2\<rparr>) = connection_calls a"
  "connection_calls (a\<lparr>acl_handle := v4\<rparr>) = connection_calls a"
  "connection_calls (a\<lparr>selected_device_addr := v1\<rparr>) = connection_calls a"
  "connection_calls (a\<lparr>selected_device_valid := v2\<rparr>) = connection_calls a"
  "connection_calls (a\<lparr>auto_connect_enabled := v2\<rparr>) = connection_calls a"
  "connection_calls (a\<lparr>pairing_pin_pending := v2\<rparr>) = connection_calls a"
  "connection_calls (a\<lparr>pairing_pin_timer_armed := v2\<rparr>) = connection_calls a"
  "connection_calls (a\<lparr>app_log := v5\<rparr>) = connection_calls a"
  "connection_calls (a\<lparr>device_manager := v7\<rparr>) = connection_calls a"
  "connection_calls (a\<lparr>hid_channels := v8\<rparr>) = connection_calls a"
  "connection_calls (a\<lparr>sdp_parser := v9\<rparr>) = connection_calls a"
  "connection_calls (a\<lparr>command_buffer := v10\<rparr>) = connection_calls a"
  "connection_calls (a\<lparr>command_length := v6\<rparr>) = connection_calls a"
  "connection_calls (a\<lparr>control_requests := v11\<rparr>) = connection_calls a"
  "connection_calls (a\<lparr>keyboard := v12\<rparr>) = connection_calls a"
  by (simp_all add: connection_calls_def)

lemma connection_calls_frame [simp]:
  "connection_calls (usb_serial_printf fmt args a) = connection_calls a"
  "connection_calls (clear_pairing_pin a) = connection_calls a"
  "connection_calls (show_pairing_pin a) = connection_calls a"
  "connection_calls (transition_to_state s a) = connection_calls a"
  "connection_calls (cancel_inquiry_timer a) = connection_calls a"
  "connection_calls (start_inquiry a) = connection_calls a"
  "connection_calls (start_idle_timer a) = connection_calls a"
  "connection_calls (snd (store_selected_device env ad a)) = connection_calls a"
  "connection_calls (delete_selected_device env a) = connection_calls a"
  "connection_calls (cancel_pending_connection env a) = connection_calls a"
  "connection_calls (log_device d a) = connection_calls a"
  "connection_calls (modify_device i f a) = connection_calls a"
  "connection_calls (reset_hid_channels a) = connection_calls a"
  "connection_calls (keyboard_action g a) = connection_calls a"
  "connection_calls (schedule_keyboard_led_report env a) = connection_calls a"
  by (simp_all add: usb_serial_printf_def clear_pairing_pin_def show_pairing_pin_def transition_to_state_def
    cancel_inquiry_timer_def start_inquiry_def start_idle_timer_def store_selected_device_def
    delete_selected_device_def cancel_pending_connection_def log_device_def modify_device_def
    reset_hid_channels_def keyboard_action_def schedule_keyboard_led_report_def bt_status_call_def Let_def
    split: prod.split)

lemma connection_calls_more [simp]:
  "connection_calls (release_usb_keyboard a) = connection_calls a"
  "connection_calls (restore_saved_device env ad a) = connection_calls a"
  "connection_calls (disconnect_acl_after_error st e a) = connection_calls a"
  by (simp_all add: release_usb_keyboard_def restore_saved_device_def get_link_key_def
    disconnect_acl_after_error_def Let_def split: prod.split option.split)

lemma connection_calls_begin [simp]: "connection_calls (snd (begin_connection env ad a)) = connection_calls a"
  by (simp add: begin_connection_def bt_status_call_def Let_def)

definition opened_channel :: "bt_app \<Rightarrow> (Device \<Rightarrow> u16) \<Rightarrow> bt_call list" where
  "opened_channel a psm =
     (case get_connected_device a of
        Some i \<Rightarrow> if psm (device_at a i) = 0 then []
                  else [l2cap_create_channel (connected_device_addr a) (psm (device_at a i))]
      | None \<Rightarrow> [])"

lemma connection_calls_open [simp]:
  "connection_calls (open_control_channel env a) = connection_calls a @ opened_channel a dev_hid_control_psm"
  "connection_calls (open_interrupt_channel env a) = connection_calls a @ opened_channel a dev_hid_interrupt_psm"
  by (simp_all add: open_control_channel_def open_interrupt_channel_def opened_channel_def
    bt_status_call_def Let_def split: option.split)

lemma connection_calls_start_sdp [simp]:
  "connection_calls (start_sdp_discovery env a) = connection_calls a @
     (if current_state a = STATE_AUTHENTICATING then [sdp_client_query_uuid16 (connected_device_addr a)] else [])"
  by (simp add: start_sdp_discovery_def bt_status_call_def Let_def split: option.split)

text \<open>What each event is answered with.\<close>

definition opened_control_channel :: "bt_app \<Rightarrow> bt_call list" where
  "opened_control_channel a =
     (case get_connected_device a of
        Some i \<Rightarrow>
          [l2cap_create_channel (connected_device_addr a)
             (if dev_hid_control_psm (device_at a i) = 0 \<or> dev_hid_interrupt_psm (device_at a i) = 0
              then 0x0011 else dev_hid_control_psm (device_at a i))]
      | None \<Rightarrow> [])"

definition sent_on_control :: "bt_app \<Rightarrow> u16 \<Rightarrow> bt_call list" where
  "sent_on_control a cid =
     (let ch = hid_channels a
      in if cid \<noteq> hc_control_cid ch then []
         else if hc_boot_protocol_request_pending ch then [l2cap_send cid [0x70]]
         else if hc_led_can_send_requested ch then [l2cap_send cid [0xa2, hc_led_state ch AND 0x1f]]
         else [])"

fun answer_hci :: "bt_app \<Rightarrow> hci_event \<Rightarrow> bt_call list" where
  "answer_hci a (HCI_EVENT_CONNECTION_COMPLETE status handle address) =
     (if current_state a = STATE_CONNECTING \<and> \<not> connection_cancel_requested a \<and> status = 0
      then [gap_request_security_level handle 2] else [])"
| "answer_hci a (GAP_EVENT_SECURITY_LEVEL handle status level) =
     (if handle = acl_handle a \<and> current_state a = STATE_AUTHENTICATING \<and> status = 0 \<and> level \<ge> 2
      then [sdp_client_query_uuid16 (connected_device_addr a)] else [])"
| "answer_hci a (HCI_EVENT_ENCRYPTION_CHANGE handle status enabled) =
     (if handle = acl_handle a \<and> current_state a = STATE_AUTHENTICATING \<and> status = 0 \<and> enabled \<noteq> 0
      then [sdp_client_query_uuid16 (connected_device_addr a)] else [])"
| "answer_hci a (L2CAP_EVENT_CAN_SEND_NOW cid) = sent_on_control a cid"
| "answer_hci a _ = []"

fun answer :: "bt_app \<Rightarrow> bt_event \<Rightarrow> bt_call list" where
  "answer a (Packet (HCI_EVENT_PACKET e)) = answer_hci a e"
| "answer a (Packet (L2CAP_DATA_PACKET channel packet)) =
     (if channel = hc_control_cid (hid_channels a) \<and> packet \<noteq> [] \<and> hd packet = 0x00 \<and>
         current_state a = STATE_SETTING_BOOT_PROTOCOL
      then opened_channel a dev_hid_interrupt_psm else [])"
| "answer a (Sdp (SDP_EVENT_QUERY_COMPLETE status)) = (if status = 0 then opened_control_channel a else [])"
| "answer a _ = []"

lemma byte_zero_nibbles: "drop_bit 4 (b :: u8) = 0 \<and> b AND 0x0f = 0 \<longleftrightarrow> b = 0"
proof
  assume a: "drop_bit 4 b = 0 \<and> b AND 0x0f = 0"
  then have "take_bit 4 b = 0" by (simp add: take_bit_eq_mask mask_eq_decr_exp)
  with a show "b = 0" by (metis bits_ident push_bit_of_0 add.right_neutral)
qed simp

lemma control_data_calls:
  "handle_control_data env packet a = Some a' \<Longrightarrow> connection_calls a' = connection_calls a @
     (if packet \<noteq> [] \<and> hd packet = 0x00 \<and> current_state a = STATE_SETTING_BOOT_PROTOCOL
      then opened_channel a dev_hid_interrupt_psm else [])"
proof (cases packet)
  case (Cons b bs)
  assume *: "handle_control_data env packet a = Some a'"
  have "opened_channel (usb_serial_printf f as a) p = opened_channel a p" for f as p
    by (simp add: opened_channel_def split: option.split)
  with * Cons byte_zero_nibbles [of b] show ?thesis
    by (auto simp: handle_control_data_def Let_def split: if_splits)
qed (simp add: handle_control_data_def)

lemma hid_data_calls:
  "handle_hid_data_packet env channel packet a = Some a' \<Longrightarrow>
   connection_calls a' = connection_calls a @ answer a (Packet (L2CAP_DATA_PACKET channel packet))"
  using control_data_calls [of env packet a a']
  by (auto simp: handle_hid_data_packet_def split: if_splits Option.bind_splits hid_boot_parse_result.splits)

lemma device_at_modify:
  assumes "app_wf a" and "get_connected_device a = Some i"
  shows "device_at (modify_device i f a) i = f (device_at a i)"
  using get_connected_device_less [OF assms(2)] app_wfD(1) [OF assms(1)]
  by (simp add: modify_device_def dm_modify_def dm_wf_def)

lemma get_connected_device_modify:
  assumes "app_wf a" and "get_connected_device a = Some i" and "harmless f"
  shows "get_connected_device (modify_device i f a) = Some i"
proof -
  have "dev_address (device_at (modify_device i f a) j) = dev_address (device_at a j)" for j
    using assms(3) get_connected_device_less [OF assms(2)] app_wfD(1) [OF assms(1)]
    by (cases "j = i") (simp_all add: modify_device_def dm_modify_def dm_wf_def harmless_def)
  with assms(2) show ?thesis by (simp add: get_connected_device_def)
qed

lemma sdp_complete_calls:
  assumes wf: "app_wf a"
  shows "connection_calls (handle_sdp_complete env status a) =
    connection_calls a @ (if status = 0 then opened_control_channel a else [])"
proof (cases "status = 0")
  case False
  then show ?thesis by (simp add: handle_sdp_complete_def Let_def)
next
  case ok: True
  show ?thesis
  proof (cases "get_connected_device a")
    case None
    with ok show ?thesis by (simp add: handle_sdp_complete_def Let_def opened_control_channel_def)
  next
    case (Some i)
    define b where "b = usb_serial_printf ''[BT] SDP complete'' []
      (usb_serial_printf ''[BT] Event: SDP_EVENT_QUERY_COMPLETE'' [] a)"
    have b: "app_wf b" "get_connected_device b = Some i" "device_at b i = device_at a i"
      "connection_calls b = connection_calls a" "connected_device_addr b = connected_device_addr a"
      using wf Some by (simp_all add: b_def)
    let ?default = "dev_hid_control_psm (device_at a i) = 0 \<or> dev_hid_interrupt_psm (device_at a i) = 0"
    define c where "c = modify_device i (\<lambda>d. d\<lparr>dev_sdp_completed := True\<rparr>) b"
    have c: "app_wf c" "get_connected_device c = Some i"
      "device_at c i = (device_at a i)\<lparr>dev_sdp_completed := True\<rparr>"
      "connection_calls c = connection_calls a" "connected_device_addr c = connected_device_addr a"
      using b get_connected_device_less [OF b(2)] get_connected_device_modify [OF b(1,2)] device_at_modify [OF b(1,2)]
      by (simp_all add: c_def app_wf_modify_device)
    define d where "d = (if ?default
       then modify_device i (\<lambda>d. d\<lparr>dev_hid_control_psm := 0x0011, dev_hid_interrupt_psm := 0x0013\<rparr>)
              (usb_serial_printf ''[BT] SDP attributes=%u; using standard HID PSMs''
                 [LNum (unat (sp_completed_attribute_count (sdp_parser c)))] c)
       else c)"
    let ?psm = "if ?default then 0x0011 else dev_hid_control_psm (device_at a i)"
    have d: "app_wf d" "get_connected_device d = Some i"
      "dev_hid_control_psm (device_at d i) = ?psm" "dev_hid_interrupt_psm (device_at d i) \<noteq> 0"
      "connection_calls d = connection_calls a" "connected_device_addr d = connected_device_addr a"
      using c get_connected_device_less [OF c(2)]
        get_connected_device_modify [of "usb_serial_printf f args c" i for f args]
        device_at_modify [of "usb_serial_printf f args c" i for f args]
      by (simp_all add: d_def app_wf_modify_device)
    define e where "e = usb_serial_printf ''[BT] HID Service found'' []
       (modify_device i (\<lambda>d. d\<lparr>dev_hid_service_found := True\<rparr>) d)"
    have e: "get_connected_device e = Some i" "dev_hid_control_psm (device_at e i) = ?psm"
      "connection_calls e = connection_calls a" "connected_device_addr e = connected_device_addr a"
      using d get_connected_device_modify [OF d(1,2)] device_at_modify [OF d(1,2)]
      by (simp_all add: e_def)
    have ne: "?psm \<noteq> 0" by simp
    have cond: "(dev_hid_control_psm (device_at c i) = 0 \<or> dev_hid_interrupt_psm (device_at c i) = 0) \<longleftrightarrow> ?default"
      using c(3) by simp
    have "handle_sdp_complete env status a = open_control_channel env e"
      unfolding handle_sdp_complete_def Let_def b_def [symmetric] b(2) option.case c_def [symmetric] cond
        d_def [symmetric] e_def [symmetric]
      using ok d(3,4) ne by simp
    then show ?thesis using e ne ok Some by (simp add: opened_channel_def opened_control_channel_def)
  qed
qed

lemma sdp_calls:
  assumes "app_wf a" and "handle_sdp_client_query_result env e a = Some a'"
  shows "connection_calls a' = connection_calls a @ answer a (Sdp e)"
  using assms(2) sdp_complete_calls [OF assms(1), of env]
  by (cases e) (auto simp: handle_sdp_client_query_result_def handle_sdp_attribute_def Let_def
      split: Option.bind_splits option.splits)

lemma inquiry_result_calls [simp]:
  "connection_calls (on_inquiry_result env ad h r c n a) = connection_calls a"
  by (simp add: on_inquiry_result_def get_link_key_def Let_def split: prod.split option.split)

lemma stack_state_calls [simp]: "connection_calls (on_stack_state env w a) = connection_calls a"
  by (simp add: on_stack_state_def Let_def)

lemma inquiry_complete_calls [simp]: "connection_calls (on_inquiry_complete env a) = connection_calls a"
  by (simp add: on_inquiry_complete_def Let_def split: option.split)

lemma connection_complete_calls:
  "connection_calls (on_connection_complete s h ad a) =
     connection_calls a @ answer_hci a (HCI_EVENT_CONNECTION_COMPLETE s h ad)"
  by (simp add: on_connection_complete_def ERROR_CODE_SUCCESS_def Let_def split: option.split)

lemma channel_opened_calls [simp]: "connection_calls (on_channel_opened env s psm l r a) = connection_calls a"
  by (simp add: on_channel_opened_def bt_status_call_def Let_def split: option.split)

lemma can_send_now_calls:
  "connection_calls (on_can_send_now env cid a) = connection_calls a @ sent_on_control a cid"
  by (simp add: on_can_send_now_def sent_on_control_def bt_status_call_def
    hid_boot_keyboard_output_packet_def Let_def)

lemma channel_closed_calls [simp]: "connection_calls (on_channel_closed cid a) = connection_calls a"
  by (simp add: on_channel_closed_def Let_def split: prod.split)

lemma security_calls:
  "connection_calls (on_security_level env h s lv a) =
     connection_calls a @ answer_hci a (GAP_EVENT_SECURITY_LEVEL h s lv)"
  "connection_calls (on_encryption_change env h s en a) =
     connection_calls a @ answer_hci a (HCI_EVENT_ENCRYPTION_CHANGE h s en)"
  "connection_calls (on_authentication_complete h s a) = connection_calls a"
  by (simp_all add: on_security_level_def on_encryption_change_def on_authentication_complete_def
    ERROR_CODE_SUCCESS_def Let_def)

lemma disconnection_calls [simp]: "connection_calls (on_disconnection_complete h r a) = connection_calls a"
  by (simp add: on_disconnection_complete_def handle_disconnected_state_def Let_def)

lemma pin_and_key_calls [simp]:
  "connection_calls (on_pin_code_request env ad a) = connection_calls a"
  "connection_calls (on_link_key_request env ad a) = connection_calls a"
  by (simp_all add: on_pin_code_request_def on_link_key_request_def get_link_key_def bt_status_call_def
    Let_def split: prod.split option.split)

lemma link_key_notification_calls:
  "on_link_key_notification env ad packet a = Some a' \<Longrightarrow> connection_calls a' = connection_calls a"
  by (auto simp: on_link_key_notification_def get_link_key_def Let_def
      split: if_splits Option.bind_splits option.split)

lemma hci_calls:
  "handle_hci_event env e a = Some a' \<Longrightarrow> connection_calls a' = connection_calls a @ answer_hci a e"
  by (cases e) (auto simp: handle_hci_event_def connection_complete_calls can_send_now_calls security_calls
    dest: link_key_notification_calls)

lemma execute_calls [simp]: "connection_calls (execute_control_request env r a) = connection_calls a"
  by (cases "rq_action r") (auto simp: execute_control_request_def execute_scan_def execute_connect_def
    execute_disconnect_def execute_reconnect_def execute_forget_def store_selected_device_def Let_def
    split: option.split)

lemma run_requests_calls:
  "run_control_requests env fuel a = Some a' \<Longrightarrow> connection_calls a' = connection_calls a"
proof (induction fuel arbitrary: a)
  case 0
  then show ?case by (simp add: run_control_requests.simps split: option.splits prod.splits)
next
  case (Suc fuel)
  show ?case
  proof (cases "control_request_queue_pop (control_requests a)")
    case None
    with Suc.prems show ?thesis by (simp add: run_control_requests.simps)
  next
    case (Some p)
    obtain r q where p: "p = (r, q)" by (cases p)
    from Suc.IH [of "execute_control_request env r (a\<lparr>control_requests := q\<rparr>)"] Suc.prems Some p
    show ?thesis by (simp add: run_control_requests.simps [of env "Suc fuel"])
  qed
qed

lemma console_char_calls: "console_char a ch = Some a' \<Longrightarrow> connection_calls a' = connection_calls a"
  by (auto simp: console_char_def submit_parsed_command_def bluetooth_control_submit_def Let_def
    split: if_splits Option.bind_splits option.splits prod.splits)

lemma console_input_calls: "console_input cs a = Some a' \<Longrightarrow> connection_calls a' = connection_calls a"
  by (induction cs arbitrary: a) (auto split: Option.bind_splits dest: console_char_calls)

lemma task_calls:
  "bluetooth_task env version input connected a = Some a' \<Longrightarrow> connection_calls a' = connection_calls a"
  by (auto simp: bluetooth_task_def log_startup_def Let_def split: Option.bind_splits
    dest!: console_input_calls run_requests_calls)

lemma apply_calls:
  assumes "app_wf a" and "bt_apply env e a = Some a'"
  shows "connection_calls a' = connection_calls a @ answer a e"
proof (cases e)
  case (Packet p)
  with assms show ?thesis
    using hci_calls hid_data_calls by (cases p) (auto simp: bt_apply_def hci_event_handler_def)
next
  case (Sdp ev)
  with assms show ?thesis using sdp_calls [of a env ev a'] by (simp add: bt_apply_def)
next
  case (Task v i c)
  with assms show ?thesis using task_calls by (simp add: bt_apply_def)
qed (use assms in \<open>auto simp: bt_apply_def inquiry_timer_handler_def pairing_pin_timeout_def
  bluetooth_control_submit_def bluetooth_set_keyboard_leds_def Let_def split: prod.split\<close>)

section \<open>Properties\<close>

text \<open>
  C4. The traffic of a connection, exactly: in every reachable state, the security request, the SDP
  query, the two channel requests and the packets sent on the control channel are caused by the event
  that the protocol asks for and by no other. In particular the SDP query follows only a successful
  encryption (or security level) of the present link, a channel is requested only after the SDP query
  or the Boot Protocol handshake, and an LED packet is 0xa2 with the five LED bits.
\<close>

theorem connection_traffic:
  assumes "bt_reachable env a" and "bt_apply env e a = Some a'"
  shows "connection_calls a' = connection_calls a @ answer a e"
  by (rule apply_calls [OF bt_reachable_wf [OF assms(1)] assms(2)])

theorem connection_traffic_witness:
  "\<exists>a'. bt_apply demo_btstack (Packet (HCI_EVENT_PACKET (HCI_EVENT_ENCRYPTION_CHANGE 0x000b 0 1))) (demo_state 2)
     = Some a' \<and>
   connection_calls a' = connection_calls (demo_state 2) @ [sdp_client_query_uuid16 [1, 2, 3, 4, 5, 6]]"
proof -
  let ?e = "Packet (HCI_EVENT_PACKET (HCI_EVENT_ENCRYPTION_CHANGE 0x000b 0 1))"
  obtain a' where a': "bt_apply demo_btstack ?e (demo_state 2) = Some a'"
    using bt_apply_ok [OF bt_reachable_wf [OF demo_reachable]] by blast
  have "answer (demo_state 2) ?e = [sdp_client_query_uuid16 [1, 2, 3, 4, 5, 6]]" by code_simp
  with a' connection_traffic [OF demo_reachable a'] show ?thesis by simp
qed

end
