(* ===== verification/Connection_Progress.thy ===== *)
theory Connection_Progress
  imports Bluetooth_Calls
begin

unbundle bit_operations_syntax

text \<open>
  Progress of a connection: the stages a link goes through when BTstack accepts what it is asked for,
  from the completed connection to the first key report in the USB queue.
\<close>

section \<open>The stages of a session\<close>

text \<open>The link \<open>h\<close> to the device in entry \<open>i\<close> is at stage \<open>s\<close>.\<close>

definition at_stage :: "bt_state \<Rightarrow> nat \<Rightarrow> u16 \<Rightarrow> bt_app \<Rightarrow> bool" where
  "at_stage s i h a \<longleftrightarrow> app_wf a \<and> current_state a = s \<and> acl_handle a = h \<and> get_connected_device a = Some i"

definition psms_at :: "bt_app \<Rightarrow> nat \<Rightarrow> u16 \<times> u16" where
  "psms_at a i = (dev_hid_control_psm (device_at a i), dev_hid_interrupt_psm (device_at a i))"

abbreviation hci :: "hci_event \<Rightarrow> bt_event" where
  "hci e \<equiv> Packet (HCI_EVENT_PACKET e)"

definition calls_succeed :: "btstack \<Rightarrow> bool" where
  "calls_succeed env \<longleftrightarrow> be_status env = (\<lambda>_. ERROR_CODE_SUCCESS)"

lemma bt_status_call_ok: "calls_succeed env \<Longrightarrow> bt_status_call env c a = (ERROR_CODE_SUCCESS, bt_call c a)"
  by (simp add: calls_succeed_def bt_status_call_def Let_def)

lemma bt_apply_obtain:
  assumes "app_wf a" obtains a' where "bt_apply env e a = Some a'" "app_wf a'"
  using bt_apply_ok [OF assms] that by blast

lemma connected_modify:
  "app_wf a \<Longrightarrow> i < dm_count (device_manager a) \<Longrightarrow> harmless f \<Longrightarrow>
   get_connected_device (modify_device i f a) = get_connected_device a"
proof -
  assume *: "app_wf a" "i < dm_count (device_manager a)" "harmless f"
  have "dev_address (device_at (modify_device i f a) j) = dev_address (device_at a j)" for j
    using * app_wfD(1) [OF *(1)]
    by (cases "j = i") (simp_all add: modify_device_def dm_modify_def dm_wf_def harmless_def)
  then show ?thesis by (simp add: get_connected_device_def)
qed

lemma connected_cong:
  "device_manager a = device_manager b \<Longrightarrow> connected_device_addr a = connected_device_addr b \<Longrightarrow>
   get_connected_device a = get_connected_device b"
  by (simp add: get_connected_device_def)

lemma stage_connected:
  assumes wf: "app_wf a" and s: "current_state a = STATE_CONNECTING" "\<not> connection_cancel_requested a"
    and f: "device_manager_find (device_manager a) ad = Some i"
  shows "\<exists>a'. bt_apply env (hci (HCI_EVENT_CONNECTION_COMPLETE 0 h ad)) a = Some a' \<and>
    at_stage STATE_AUTHENTICATING i h a' \<and> connected_device_addr a' = ad"
proof -
  obtain a' where r: "bt_apply env (hci (HCI_EVENT_CONNECTION_COMPLETE 0 h ad)) a = Some a'" and w: "app_wf a'"
    using bt_apply_obtain [OF wf] by blast
  define b where "b = (modify_device i (\<lambda>d. d\<lparr>dev_connected := True\<rparr>) (a\<lparr>connected_device_addr := ad\<rparr>))"
  have fa: "get_connected_device (a\<lparr>connected_device_addr := ad\<rparr>) = Some i"
    using f by (simp add: get_connected_device_find)
  have "get_connected_device b = Some i"
    unfolding b_def using dm_find_Some [OF f] fa wf by (subst connected_modify) simp_all
  moreover have "device_manager a' = device_manager b" "connected_device_addr a' = connected_device_addr b"
    using r s f by (auto simp: bt_apply_def hci_event_handler_def handle_hci_event_def on_connection_complete_def
      b_def modify_device_def Let_def)
  ultimately have "get_connected_device a' = Some i" using connected_cong by metis
  moreover have "current_state a' = STATE_AUTHENTICATING" "acl_handle a' = h" "connected_device_addr a' = ad"
    using r s f by (auto simp: bt_apply_def hci_event_handler_def handle_hci_event_def on_connection_complete_def
      Let_def)
  ultimately show ?thesis using r w by (simp add: at_stage_def)
qed

lemma stage_encrypted:
  assumes st: "at_stage STATE_AUTHENTICATING i h a" and env: "calls_succeed env" and e: "enabled \<noteq> 0"
  shows "\<exists>a'. bt_apply env (hci (HCI_EVENT_ENCRYPTION_CHANGE h 0 enabled)) a = Some a' \<and>
    at_stage STATE_SERVICE_DISCOVERY i h a' \<and> connected_device_addr a' = connected_device_addr a"
proof -
  from st have wf: "app_wf a" and s: "current_state a = STATE_AUTHENTICATING" "acl_handle a = h"
    and c: "get_connected_device a = Some i" by (simp_all add: at_stage_def)
  obtain a' where r: "bt_apply env (hci (HCI_EVENT_ENCRYPTION_CHANGE h 0 enabled)) a = Some a'" and w: "app_wf a'"
    using bt_apply_obtain [OF wf] by blast
  let ?b = "modify_device i clear_sdp_results a"
  have "get_connected_device ?b = Some i"
    using connected_modify [OF wf get_connected_device_less [OF c], of clear_sdp_results] c by simp
  moreover have "device_manager a' = device_manager ?b" "connected_device_addr a' = connected_device_addr ?b"
    using r s c e by (auto simp: bt_apply_def hci_event_handler_def handle_hci_event_def on_encryption_change_def
      start_sdp_discovery_def bt_status_call_ok [OF env] modify_device_def Let_def ERROR_CODE_SUCCESS_def)
  ultimately have "get_connected_device a' = Some i" using connected_cong by metis
  moreover have "current_state a' = STATE_SERVICE_DISCOVERY" "acl_handle a' = h"
    "connected_device_addr a' = connected_device_addr a"
    using r s c e by (auto simp: bt_apply_def hci_event_handler_def handle_hci_event_def on_encryption_change_def
      start_sdp_discovery_def bt_status_call_ok [OF env] Let_def ERROR_CODE_SUCCESS_def)
  ultimately show ?thesis using r w by (simp add: at_stage_def)
qed

lemma connected_set_device:
  "app_wf a \<Longrightarrow> get_connected_device a = Some i \<Longrightarrow> dev_address d = dev_address (device_at a i) \<Longrightarrow>
   get_connected_device (modify_device i (\<lambda>_. d) a) = Some i"
proof -
  assume *: "app_wf a" "get_connected_device a = Some i" "dev_address d = dev_address (device_at a i)"
  have "dev_address (device_at (modify_device i (\<lambda>_. d) a) j) = dev_address (device_at a j)" for j
    using * get_connected_device_less [OF *(2)] app_wfD(1) [OF *(1)]
    by (cases "j = i") (simp_all add: modify_device_def dm_modify_def dm_wf_def)
  with *(2) show ?thesis by (simp add: get_connected_device_def)
qed

lemma stage_attribute:
  assumes st: "at_stage s i h a"
  shows "\<exists>a'. bt_apply env (Sdp (SDP_EVENT_QUERY_ATTRIBUTE_VALUE aid n off b)) a = Some a' \<and>
    at_stage s i h a' \<and> connected_device_addr a' = connected_device_addr a \<and>
    connection_calls a' = connection_calls a"
proof -
  from st have wf: "app_wf a" and s: "current_state a = s" "acl_handle a = h"
    and c: "get_connected_device a = Some i" by (simp_all add: at_stage_def)
  obtain a' where r: "bt_apply env (Sdp (SDP_EVENT_QUERY_ATTRIBUTE_VALUE aid n off b)) a = Some a'"
    and w: "app_wf a'" using bt_apply_obtain [OF wf] by blast
  obtain p d lines where f: "sdp_parser_feed SDP_SEARCH_FRAMES (sdp_parser a) (Some (device_at a i)) aid n off b
      = Some (p, d, lines)"
    using r c by (auto simp: bt_apply_def handle_sdp_client_query_result_def handle_sdp_attribute_def Let_def
      split: Option.bind_splits)
  from sdp_feed_device [OF f] obtain d' where d: "d = Some d'" "dev_address d' = dev_address (device_at a i)"
    by blast
  have a': "a' = modify_device i (\<lambda>_. d') (a\<lparr>sdp_parser := p, app_log := app_log a @ lines\<rparr>)"
    using r c f d by (simp add: bt_apply_def handle_sdp_client_query_result_def handle_sdp_attribute_def Let_def)
  have "device_manager a' = device_manager (modify_device i (\<lambda>_. d') a)"
    "connected_device_addr a' = connected_device_addr (modify_device i (\<lambda>_. d') a)"
    by (simp_all add: a' modify_device_def)
  with connected_set_device [OF wf c d(2)] have "get_connected_device a' = Some i"
    using connected_cong by metis
  moreover have "current_state a' = s" "acl_handle a' = h" "connected_device_addr a' = connected_device_addr a"
    using s by (simp_all add: a')
  ultimately show ?thesis using r w apply_calls [OF wf r] by (simp add: at_stage_def)
qed

lemma modify_dm: "device_manager (modify_device i f a) = dm_modify i f (device_manager a)"
  by (simp add: modify_device_def)

lemma device_modify_eq:
  "app_wf a \<Longrightarrow> i < dm_count (device_manager a) \<Longrightarrow> device_at (modify_device i f a) i = f (device_at a i)"
  using app_wfD(1) [of a] by (simp add: modify_device_def dm_modify_def dm_wf_def)

lemma stage_discovered:
  assumes st: "at_stage STATE_SERVICE_DISCOVERY i h a" and env: "calls_succeed env"
  shows "\<exists>a'. bt_apply env (Sdp (SDP_EVENT_QUERY_COMPLETE 0)) a = Some a' \<and>
    at_stage STATE_OPENING_CONTROL i h a' \<and> connected_device_addr a' = connected_device_addr a \<and>
    psms_at a' i = (if fst (psms_at a i) = 0 \<or> snd (psms_at a i) = 0 then (0x11, 0x13) else psms_at a i)"
proof -
  from st have wf: "app_wf a" and s: "current_state a = STATE_SERVICE_DISCOVERY" "acl_handle a = h"
    and c: "get_connected_device a = Some i" by (simp_all add: at_stage_def)
  obtain a' where r: "bt_apply env (Sdp (SDP_EVENT_QUERY_COMPLETE 0)) a = Some a'"
    and w: "app_wf a'" using bt_apply_obtain [OF wf] by blast
  note i = get_connected_device_less [OF c]
  let ?z = "dev_hid_control_psm (device_at a i) = 0 \<or> dev_hid_interrupt_psm (device_at a i) = 0"
  define f where "f = (\<lambda>d :: Device. let d = d\<lparr>dev_sdp_completed := True\<rparr>;
      d = (if ?z then d\<lparr>dev_hid_control_psm := 0x11, dev_hid_interrupt_psm := 0x13\<rparr> else d)
    in d\<lparr>dev_hid_service_found := True\<rparr>)"
  have f: "harmless f" by (simp add: f_def Let_def harmless_def device_wf_def)
  have len: "i < length (dm_devices (device_manager a))"
    using i app_wfD(1) [OF wf] by (simp add: dm_wf_def)
  have con: "get_connected_device (modify_device i g b) = Some i"
    if "get_connected_device b = Some i" "app_wf b" "harmless g" for g b
    using that connected_modify [OF that(2) get_connected_device_less [OF that(1)] that(3)] by simp
  have dm: "device_manager a' = dm_modify i f (device_manager a) \<and>
      connected_device_addr a' = connected_device_addr a \<and> current_state a' = STATE_OPENING_CONTROL \<and> acl_handle a' = h"
    using r s c wf len i
    by (cases ?z) (simp_all add: bt_apply_def handle_sdp_client_query_result_def handle_sdp_complete_def
      open_control_channel_def bt_status_call_ok [OF env] con app_wf_modify_device Let_def f_def
      modify_dm dm_modify_def, (drule sym, simp add: modify_dm dm_modify_def)+)
  have "get_connected_device a' = get_connected_device (modify_device i f a)"
    by (rule connected_cong) (simp_all add: dm modify_device_def)
  with connected_modify [OF wf i f] c have "get_connected_device a' = Some i" by simp
  moreover have "device_at a' i = f (device_at a i)"
    using len by (simp add: dm dm_modify_def)
  ultimately show ?thesis using r w dm by (simp add: at_stage_def psms_at_def f_def Let_def)
qed

text \<open>The later stages change no entry of the device table.\<close>

lemma at_stage_same_devices:
  assumes "at_stage s i h a" and "app_wf a'" and "device_manager a' = device_manager a"
    and "connected_device_addr a' = connected_device_addr a" and "current_state a' = t" and "acl_handle a' = h"
  shows "at_stage t i h a'" and "psms_at a' i = psms_at a i"
  using assms connected_cong [of a' a] by (simp_all add: at_stage_def psms_at_def)

lemma at_stageD:
  assumes "at_stage s i h a"
  shows "app_wf a" and "current_state a = s" and "acl_handle a = h" and "get_connected_device a = Some i"
  using assms by (simp_all add: at_stage_def)

lemma stage_control_opened:
  assumes st: "at_stage STATE_OPENING_CONTROL i h a" and env: "calls_succeed env"
    and p: "psms_at a i = (cp, ip)"
  shows "\<exists>a'. bt_apply env (hci (L2CAP_EVENT_CHANNEL_OPENED 0 cp c r)) a = Some a' \<and>
    at_stage STATE_SETTING_BOOT_PROTOCOL i h a' \<and> psms_at a' i = (cp, ip) \<and>
    connected_device_addr a' = connected_device_addr a \<and>
    hc_control_cid (hid_channels a') = c \<and> hc_boot_protocol_request_pending (hid_channels a')"
proof -
  note d = at_stageD [OF st]
  obtain a' where a': "bt_apply env (hci (L2CAP_EVENT_CHANNEL_OPENED 0 cp c r)) a = Some a'" and w: "app_wf a'"
    using bt_apply_obtain [OF d(1)] by blast
  have cp: "dev_hid_control_psm (device_at a i) = cp" using p by (simp add: psms_at_def)
  have f: "device_manager a' = device_manager a \<and> connected_device_addr a' = connected_device_addr a \<and>
      current_state a' = STATE_SETTING_BOOT_PROTOCOL \<and> acl_handle a' = h \<and>
      hc_control_cid (hid_channels a') = c \<and> hc_boot_protocol_request_pending (hid_channels a')"
    using a' cp d by (auto simp: bt_apply_def hci_event_handler_def handle_hci_event_def on_channel_opened_def
      bt_status_call_ok [OF env] hid_channels_defs Let_def)
  with at_stage_same_devices [OF st w] a' p show ?thesis by simp
qed

lemma stage_boot_requested:
  assumes st: "at_stage STATE_SETTING_BOOT_PROTOCOL i h a" and env: "calls_succeed env"
    and c: "hc_control_cid (hid_channels a) = c" "hc_boot_protocol_request_pending (hid_channels a)"
  shows "\<exists>a'. bt_apply env (hci (L2CAP_EVENT_CAN_SEND_NOW c)) a = Some a' \<and>
    at_stage STATE_SETTING_BOOT_PROTOCOL i h a' \<and> psms_at a' i = psms_at a i \<and>
    connected_device_addr a' = connected_device_addr a \<and> hc_control_cid (hid_channels a') = c"
proof -
  note d = at_stageD [OF st]
  obtain a' where a': "bt_apply env (hci (L2CAP_EVENT_CAN_SEND_NOW c)) a = Some a'" and w: "app_wf a'"
    using bt_apply_obtain [OF d(1)] by blast
  have "device_manager a' = device_manager a \<and> connected_device_addr a' = connected_device_addr a \<and>
      current_state a' = STATE_SETTING_BOOT_PROTOCOL \<and> acl_handle a' = h \<and> hc_control_cid (hid_channels a') = c"
    using a' c d by (auto simp: bt_apply_def hci_event_handler_def handle_hci_event_def on_can_send_now_def
      bt_status_call_ok [OF env] Let_def)
  with at_stage_same_devices [OF st w] a' show ?thesis by simp
qed

lemma stage_boot_confirmed:
  assumes st: "at_stage STATE_SETTING_BOOT_PROTOCOL i h a" and env: "calls_succeed env"
    and c: "hc_control_cid (hid_channels a) = c" and p: "snd (psms_at a i) \<noteq> 0"
  shows "\<exists>a'. bt_apply env (Packet (L2CAP_DATA_PACKET c [0])) a = Some a' \<and>
    at_stage STATE_OPENING_INTERRUPT i h a' \<and> psms_at a' i = psms_at a i \<and>
    connected_device_addr a' = connected_device_addr a \<and> hc_control_cid (hid_channels a') = c"
proof -
  note d = at_stageD [OF st]
  obtain a' where a': "bt_apply env (Packet (L2CAP_DATA_PACKET c [0])) a = Some a'" and w: "app_wf a'"
    using bt_apply_obtain [OF d(1)] by blast
  have "device_manager a' = device_manager a \<and> connected_device_addr a' = connected_device_addr a \<and>
      current_state a' = STATE_OPENING_INTERRUPT \<and> acl_handle a' = h \<and> hc_control_cid (hid_channels a') = c"
    using a' c p d by (auto simp: bt_apply_def hci_event_handler_def handle_hid_data_packet_def
      handle_control_data_def open_interrupt_channel_def bt_status_call_ok [OF env] psms_at_def Let_def)
  with at_stage_same_devices [OF st w] a' show ?thesis by simp
qed

lemma stage_interrupt_opened:
  assumes st: "at_stage STATE_OPENING_INTERRUPT i h a" and p: "psms_at a i = (cp, ip)" "ip \<noteq> cp"
    and c: "hc_control_cid (hid_channels a) = c"
  shows "\<exists>a'. bt_apply env (hci (L2CAP_EVENT_CHANNEL_OPENED 0 ip k r)) a = Some a' \<and>
    at_stage STATE_HID_CONNECTED i h a' \<and> hc_interrupt_open (hid_channels a') \<and>
    connected_device_addr a' = connected_device_addr a \<and>
    hc_interrupt_cid (hid_channels a') = k \<and> hc_control_cid (hid_channels a') = c"
proof -
  note d = at_stageD [OF st]
  obtain a' where a': "bt_apply env (hci (L2CAP_EVENT_CHANNEL_OPENED 0 ip k r)) a = Some a'" and w: "app_wf a'"
    using bt_apply_obtain [OF d(1)] by blast
  have sched: "hc_interrupt_open (hid_channels (schedule_keyboard_led_report env b)) = hc_interrupt_open (hid_channels b)"
    "hc_interrupt_cid (hid_channels (schedule_keyboard_led_report env b)) = hc_interrupt_cid (hid_channels b)"
    "hc_control_cid (hid_channels (schedule_keyboard_led_report env b)) = hc_control_cid (hid_channels b)" for b
    by (simp_all add: schedule_keyboard_led_report_def bt_status_call_def Let_def)
  have "device_manager a' = device_manager a \<and> connected_device_addr a' = connected_device_addr a \<and>
      current_state a' = STATE_HID_CONNECTED \<and> acl_handle a' = h \<and> hc_interrupt_open (hid_channels a') \<and>
      hc_interrupt_cid (hid_channels a') = k \<and> hc_control_cid (hid_channels a') = c"
    using a' p c d by (auto simp: bt_apply_def hci_event_handler_def handle_hci_event_def on_channel_opened_def
      hid_channels_defs sched psms_at_def Let_def)
  with at_stage_same_devices [OF st w] a' show ?thesis by simp
qed

text \<open>A report on the open interrupt channel reaches the USB queue.\<close>

lemma stage_key_report:
  assumes wf: "app_wf a" and o: "hc_interrupt_open (hid_channels a)" "hc_interrupt_cid (hid_channels a) = k"
    "hc_control_cid (hid_channels a) \<noteq> k" and ks: "length ks = 6" "keycodes_acceptable ks"
  shows "\<exists>a'. bt_apply env (Packet (L2CAP_DATA_PACKET k ([0xa1, 1, m, 0] @ ks))) a = Some a' \<and>
    hid_channels a' = hid_channels a \<and> current_state a' = current_state a \<and>
    kq_contents (keyboard a') \<noteq> [] \<and> last (kq_contents (keyboard a')) = \<lparr>kr_modifier = m, kr_keycodes = ks\<rparr>"
proof -
  let ?p = "[0xa1, 1, m, 0] @ ks" and ?r = "\<lparr>br_report_id = 1, br_modifier = m, br_keycodes = ks\<rparr>"
  let ?k = "\<lparr>kr_modifier = m, kr_keycodes = ks\<rparr>"
  have "hid_boot_keyboard_parse_input (Some ?p) (length ?p) zero_boot_report = Some (HID_BOOT_PARSE_OK, ?r)"
    by (subst parse_ok_iff) (use ks in \<open>simp_all add: zero_boot_report_def\<close>)
  with o have "\<exists>a'. bt_apply env (Packet (L2CAP_DATA_PACKET k ?p)) a = Some a' \<and>
    hid_channels a' = hid_channels a \<and> current_state a' = current_state a \<and> keyboard a' = kq_put (keyboard a) ?k"
    by (simp add: bt_apply_def hci_event_handler_def handle_hid_data_packet_def keyboard_action_def kq_put_def
      split: prod.split)
  with kq.put_last [OF app_wfD(3) [OF wf], of ?k] show ?thesis by auto
qed

lemma stage_attributes:
  assumes "at_stage s i h a"
  shows "\<exists>a'. run_events (bt_apply env) (map (\<lambda>(aid, n, off, b). Sdp (SDP_EVENT_QUERY_ATTRIBUTE_VALUE aid n off b)) atts) a
      = Some a' \<and> at_stage s i h a' \<and> connected_device_addr a' = connected_device_addr a"
  using assms
proof (induction atts arbitrary: a)
  case (Cons x atts)
  obtain aid n off b where x: "x = (aid, n, off, b)" by (cases x)
  from stage_attribute [OF Cons.prems, of env aid n off b] obtain a1 where
    "bt_apply env (Sdp (SDP_EVENT_QUERY_ATTRIBUTE_VALUE aid n off b)) a = Some a1" "at_stage s i h a1"
    "connected_device_addr a1 = connected_device_addr a" by blast
  with Cons.IH [of a1] x show ?case by auto
qed simp

definition attribute_events :: "(u16 \<times> u16 \<times> u16 \<times> u8) list \<Rightarrow> bt_event list" where
  "attribute_events = map (\<lambda>(aid, n, off, b). Sdp (SDP_EVENT_QUERY_ATTRIBUTE_VALUE aid n off b))"

lemma attribute_calls:
  "at_stage s i h a \<Longrightarrow> run_events (bt_apply env) (attribute_events atts) a = Some a' \<Longrightarrow>
   connection_calls a' = connection_calls a"
proof (induction atts arbitrary: a)
  case (Cons x atts)
  obtain aid n off b where x: "x = (aid, n, off, b)" by (cases x)
  from stage_attribute [OF Cons.prems(1), of env aid n off b] obtain a1 where
    "bt_apply env (Sdp (SDP_EVENT_QUERY_ATTRIBUTE_VALUE aid n off b)) a = Some a1" "at_stage s i h a1"
    "connection_calls a1 = connection_calls a" by blast
  with Cons.IH [of a1] Cons.prems(2) x show ?case by (simp add: attribute_events_def)
qed (simp add: attribute_events_def)

section \<open>Properties\<close>

text \<open>
  A connection gets as far as HID: when BTstack accepts every request, a connection to a known
  keyboard that completes and is encrypted is followed, whatever SDP attribute bytes arrive, by a
  request for the HID Control channel on a non-zero PSM, and exactly the security request, the SDP
  query and that channel request were sent on the way.
\<close>

theorem discovery_completes:
  assumes "bt_reachable env a" and "be_status env = (\<lambda>_. ERROR_CODE_SUCCESS)"
    and "current_state a = STATE_CONNECTING" and "\<not> connection_cancel_requested a"
    and "device_manager_find (device_manager a) ad = Some i"
  shows "\<exists>b cp ip.
    run_events (bt_apply env)
      ([hci (HCI_EVENT_CONNECTION_COMPLETE 0 h ad), hci (HCI_EVENT_ENCRYPTION_CHANGE h 0 1)] @
       attribute_events atts @ [Sdp (SDP_EVENT_QUERY_COMPLETE 0)]) a = Some b \<and>
    current_state b = STATE_OPENING_CONTROL \<and> acl_handle b = h \<and> get_connected_device b = Some i \<and>
    psms_at b i = (cp, ip) \<and> cp \<noteq> 0 \<and> ip \<noteq> 0 \<and>
    connection_calls b = connection_calls a @
      [gap_request_security_level h 2, sdp_client_query_uuid16 ad, l2cap_create_channel ad cp]"
proof -
  have env: "calls_succeed env" using assms(2) by (simp add: calls_succeed_def)
  have wf: "app_wf a" using bt_reachable_wf [OF assms(1)] .
  from stage_connected [OF wf assms(3-5), of env h] obtain a1 where
    a1: "bt_apply env (hci (HCI_EVENT_CONNECTION_COMPLETE 0 h ad)) a = Some a1"
      "at_stage STATE_AUTHENTICATING i h a1" "connected_device_addr a1 = ad" by blast
  from stage_encrypted [OF a1(2) env, of 1] obtain a2 where
    a2: "bt_apply env (hci (HCI_EVENT_ENCRYPTION_CHANGE h 0 1)) a1 = Some a2"
      "at_stage STATE_SERVICE_DISCOVERY i h a2" "connected_device_addr a2 = ad" using a1(3) by auto
  from stage_attributes [OF a2(2), of env atts] obtain a3 where
    a3: "run_events (bt_apply env) (attribute_events atts) a2 = Some a3"
      "at_stage STATE_SERVICE_DISCOVERY i h a3" "connected_device_addr a3 = ad"
    unfolding attribute_events_def using a2(3) by auto
  from stage_discovered [OF a3(2) env] obtain b where
    b: "bt_apply env (Sdp (SDP_EVENT_QUERY_COMPLETE 0)) a3 = Some b" "at_stage STATE_OPENING_CONTROL i h b"
      "psms_at b i = (if fst (psms_at a3 i) = 0 \<or> snd (psms_at a3 i) = 0 then (0x11, 0x13) else psms_at a3 i)"
    by blast
  have "connection_calls a1 = connection_calls a @ [gap_request_security_level h 2]"
    using apply_calls [OF wf a1(1)] assms(3,4) by simp
  moreover have "connection_calls a2 = connection_calls a1 @ [sdp_client_query_uuid16 ad]"
    using apply_calls [OF at_stageD(1) [OF a1(2)] a2(1)] at_stageD [OF a1(2)] a1(3) by simp
  moreover have "connection_calls a3 = connection_calls a2" using attribute_calls [OF a2(2) a3(1)] .
  moreover have "connection_calls b = connection_calls a3 @ [l2cap_create_channel ad (fst (psms_at b i))]"
    using apply_calls [OF at_stageD(1) [OF a3(2)] b(1)] at_stageD [OF a3(2)] a3(3) b(3)
    by (simp add: opened_control_channel_def psms_at_def)
  moreover have "fst (psms_at b i) \<noteq> 0" "snd (psms_at b i) \<noteq> 0" using b(3) by (auto split: if_splits)
  moreover have "run_events (bt_apply env)
      ([hci (HCI_EVENT_CONNECTION_COMPLETE 0 h ad), hci (HCI_EVENT_ENCRYPTION_CHANGE h 0 1)] @
       attribute_events atts @ [Sdp (SDP_EVENT_QUERY_COMPLETE 0)]) a = Some b"
    using a1(1) a2(1) a3(1) b(1) by (simp add: run_events_append)
  ultimately show ?thesis using at_stageD [OF b(2)]
    by (intro exI [of _ b] exI [of _ "fst (psms_at b i)"] exI [of _ "snd (psms_at b i)"]) simp
qed

theorem discovery_completes_witness:
  "\<exists>(b :: bt_app) cp ip. current_state b = STATE_OPENING_CONTROL \<and> acl_handle b = 0x000b \<and> psms_at b 0 = (cp, ip) \<and>
    cp \<noteq> 0 \<and> ip \<noteq> 0 \<and> connection_calls b =
      [gap_request_security_level 0x000b 2, sdp_client_query_uuid16 [1, 2, 3, 4, 5, 6],
       l2cap_create_channel [1, 2, 3, 4, 5, 6] cp]"
proof -
  have ok: "be_status demo_btstack = (\<lambda>_. ERROR_CODE_SUCCESS)" by (simp add: demo_btstack_def)
  have "connection_calls (demo_state 1) = []" by code_simp
  with discovery_completes [OF demo_reachable ok demo_at_1(1-3), of "0x000b" "[(0x0100, 1, 0, 0)]"]
  show ?thesis by auto
qed



end
