(* ===== verification/Dhcp_Server.thy ===== *)
theory Dhcp_Server
  imports Prelude
begin

unbundle bit_operations_syntax

text \<open>
  \<open>src/web/dhcp_server.c\<close>: the DHCP server of the access point, with eight leases. lwIP is a
  parameter: \<open>tot_len\<close> is the length field of the received packet buffer, \<open>copied\<close> the bytes that
  \<open>pbuf_copy_partial\<close> delivered, \<open>allocated\<close> whether \<open>pbuf_alloc\<close> succeeds, and \<open>ticks i\<close> the clock
  reading of round \<open>i\<close> of the lease search. The message structure is kept field by field; \<open>None\<close> is
  an access outside it.
\<close>

section \<open>Data\<close>

definition DHCPS_BASE_IP :: u8 where "DHCPS_BASE_IP = 16"
definition DHCPS_MAX_IP :: nat where "DHCPS_MAX_IP = 8"
definition DEFAULT_LEASE_TIME_S :: nat where "DEFAULT_LEASE_TIME_S = 24 * 60 * 60"
definition MAC_LEN :: nat where "MAC_LEN = 6"
definition DHCP_MIN_SIZE :: nat where "DHCP_MIN_SIZE = 240 + 3"
definition OPTIONS_OFFSET :: nat where "OPTIONS_OFFSET = 236"

record dhcp_msg =
  msg_op :: u8
  msg_htype :: u8
  msg_hlen :: u8
  msg_hops :: u8
  msg_xid :: "u8 list"
  msg_secs :: "u8 list"
  msg_flags :: "u8 list"
  msg_ciaddr :: "u8 list"
  msg_yiaddr :: "u8 list"
  msg_siaddr :: "u8 list"
  msg_giaddr :: "u8 list"
  msg_chaddr :: "u8 list"
  msg_sname :: "u8 list"
  msg_file :: "u8 list"
  msg_options :: "u8 list"

record dhcp_server_lease =
  lease_mac :: "u8 list"
  lease_expiry :: u16

record dhcp_server =
  ds_ip :: "u8 list"
  ds_nm :: "u8 list"
  ds_lease :: "dhcp_server_lease list"
  ds_udp :: bool
  ds_discover_count :: u32
  ds_request_count :: u32
  ds_ack_count :: u32

text \<open>The address of the structure's bytes: \<open>memset\<close> to zero followed by the copied bytes, and back.\<close>

definition msg_of_bytes :: "u8 list \<Rightarrow> dhcp_msg" where
  "msg_of_bytes copied =
     (let b = copied @ replicate (548 - length copied) 0;
          field = (\<lambda>at n. take n (drop at b))
      in \<lparr>msg_op = b ! 0, msg_htype = b ! 1, msg_hlen = b ! 2, msg_hops = b ! 3,
          msg_xid = field 4 4, msg_secs = field 8 2, msg_flags = field 10 2, msg_ciaddr = field 12 4,
          msg_yiaddr = field 16 4, msg_siaddr = field 20 4, msg_giaddr = field 24 4,
          msg_chaddr = field 28 16, msg_sname = field 44 64, msg_file = field 108 128,
          msg_options = field 236 312\<rparr>)"

definition msg_bytes :: "dhcp_msg \<Rightarrow> u8 list" where
  "msg_bytes m =
     [msg_op m, msg_htype m, msg_hlen m, msg_hops m] @ msg_xid m @ msg_secs m @ msg_flags m @
     msg_ciaddr m @ msg_yiaddr m @ msg_siaddr m @ msg_giaddr m @ msg_chaddr m @ msg_sname m @
     msg_file m @ msg_options m"

section \<open>Options\<close>

text \<open>The position of the option in the buffer, \<open>Some None\<close> for \<open>NULL\<close>; \<open>opt\<close> is where the options start.\<close>

function opt_find_from :: "u8 list \<Rightarrow> nat \<Rightarrow> nat \<Rightarrow> u8 \<Rightarrow> nat \<Rightarrow> nat option option" where
  "opt_find_from buf opt len cmd i =
     (if i < len then do {
        c \<leftarrow> byte_at buf (opt + i);
        if c = 255 then Some None
        else if c = 0 then opt_find_from buf opt len cmd (i + 1)
        else if i + 1 \<ge> len then Some None
        else do {
          n \<leftarrow> byte_at buf (opt + i + 1);
          if i + 2 + unat n > len then Some None
          else if c = cmd then Some (Some (opt + i))
          else opt_find_from buf opt len cmd (i + 2 + unat n)
        }
      }
      else Some None)"
  by pat_completeness auto

termination by (relation "measure (\<lambda>(buf, opt, len, cmd, i). len - i)") auto

declare opt_find_from.simps [simp del]

definition opt_find :: "u8 list \<Rightarrow> nat \<Rightarrow> nat \<Rightarrow> u8 \<Rightarrow> nat option option" where
  "opt_find buf opt len cmd = opt_find_from buf opt len cmd 0"

definition opt_write_n :: "u8 list \<Rightarrow> nat \<Rightarrow> u8 \<Rightarrow> u8 list \<Rightarrow> (u8 list \<times> nat) option" where
  "opt_write_n buf opt cmd dat = do {
     buf \<leftarrow> array_put buf opt cmd;
     buf \<leftarrow> array_put buf (opt + 1) (of_nat (length dat));
     buf \<leftarrow> bytes_put buf (opt + 2) dat;
     Some (buf, opt + 2 + length dat)
   }"

definition opt_write_u8 :: "u8 list \<Rightarrow> nat \<Rightarrow> u8 \<Rightarrow> u8 \<Rightarrow> (u8 list \<times> nat) option" where
  "opt_write_u8 buf opt cmd val = do {
     buf \<leftarrow> array_put buf opt cmd;
     buf \<leftarrow> array_put buf (opt + 1) 1;
     buf \<leftarrow> array_put buf (opt + 2) val;
     Some (buf, opt + 3)
   }"

definition opt_write_u32 :: "u8 list \<Rightarrow> nat \<Rightarrow> u8 \<Rightarrow> u32 \<Rightarrow> (u8 list \<times> nat) option" where
  "opt_write_u32 buf opt cmd val = do {
     buf \<leftarrow> array_put buf opt cmd;
     buf \<leftarrow> array_put buf (opt + 1) 4;
     buf \<leftarrow> array_put buf (opt + 2) (ucast (drop_bit 24 val));
     buf \<leftarrow> array_put buf (opt + 3) (ucast (drop_bit 16 val));
     buf \<leftarrow> array_put buf (opt + 4) (ucast (drop_bit 8 val));
     buf \<leftarrow> array_put buf (opt + 5) (ucast val);
     Some (buf, opt + 6)
   }"

section \<open>Leases\<close>

definition mac_free :: "u8 list \<Rightarrow> bool" where
  "mac_free mac \<longleftrightarrow> mac = replicate MAC_LEN 0"

text \<open>The signed comparison of the clock with the end of the lease.\<close>

definition lease_expired :: "u32 \<Rightarrow> dhcp_server_lease \<Rightarrow> bool" where
  "lease_expired now lease \<longleftrightarrow> sint ((push_bit 16 (ucast (lease_expiry lease)) OR 0xffff) - now) < 0"

definition lease_end :: "u32 \<Rightarrow> u16" where
  "lease_end now = ucast (drop_bit 16 (now + of_nat (DEFAULT_LEASE_TIME_S * 1000)))"

text \<open>The search for an address to offer: the leases, some of them freed, and the address chosen so far.\<close>

function offer_loop ::
    "(nat \<Rightarrow> u32) \<Rightarrow> u8 list \<Rightarrow> nat \<Rightarrow> nat \<Rightarrow> dhcp_server_lease list \<Rightarrow>
     (nat \<times> dhcp_server_lease list) option" where
  "offer_loop ticks mac i yi leases =
     (if i < DHCPS_MAX_IP then do {
        lease \<leftarrow> array_at leases i;
        if lease_mac lease = mac then Some (i, leases)
        else if yi = DHCPS_MAX_IP then
          (let yi = (if mac_free (lease_mac lease) then i else yi)
           in if lease_expired (ticks i) lease
              then offer_loop ticks mac (i + 1) i
                     (leases[i := lease\<lparr>lease_mac := replicate MAC_LEN 0\<rparr>])
              else offer_loop ticks mac (i + 1) yi leases)
        else offer_loop ticks mac (i + 1) yi leases
      }
      else Some (yi, leases))"
  by pat_completeness auto

termination by (relation "measure (\<lambda>(t, m, i, y, l). DHCPS_MAX_IP - i)") auto

declare offer_loop.simps [simp del]

section \<open>Messages\<close>

text \<open>The answer to a message whose type was recognised: nothing, or the message under construction
  with the position behind the options written so far, and what was printed.\<close>

definition dhcp_discover ::
    "(nat \<Rightarrow> u32) \<Rightarrow> dhcp_server \<Rightarrow> dhcp_msg \<Rightarrow>
     (dhcp_server \<times> (dhcp_msg \<times> nat \<times> log_line list) option) option" where
  "dhcp_discover ticks d m = do {
     let d = d\<lparr>ds_discover_count := ds_discover_count d + 1\<rparr>;
     (yi, leases) \<leftarrow> offer_loop ticks (take MAC_LEN (msg_chaddr m)) 0 DHCPS_MAX_IP (ds_lease d);
     let d = d\<lparr>ds_lease := leases\<rparr>;
     if yi = DHCPS_MAX_IP then Some (d, None)
     else do {
       yiaddr \<leftarrow> array_put (msg_yiaddr m) 3 (DHCPS_BASE_IP + of_nat yi);
       (options, opt) \<leftarrow> opt_write_u8 (msg_options m) 4 53 2;
       Some (d, Some (m\<lparr>msg_yiaddr := yiaddr, msg_options := options\<rparr>, opt,
              [(''[WEB] DHCP DISCOVER offer=%u.%u.%u.%u'', map (\<lambda>b. LNum (unat b)) yiaddr)]))
     }
   }"

definition requested_address :: "dhcp_msg \<Rightarrow> nat \<Rightarrow> u8 list option option" where
  "requested_address m incoming_opt_length = do {
     o50 \<leftarrow> opt_find (msg_options m) 4 incoming_opt_length 50;
     case o50 of
       None \<Rightarrow> Some (Some (msg_ciaddr m))
     | Some p \<Rightarrow> do {
         n \<leftarrow> byte_at (msg_options m) (p + 1);
         if n \<noteq> 4 then Some None
         else do {
           ip \<leftarrow> slice_at (msg_options m) (p + 2) 4;
           Some (Some ip)
         }
       }
   }"

text \<open>At most 31 bytes of the host name the client sent.\<close>

definition client_hostname :: "dhcp_msg \<Rightarrow> nat \<Rightarrow> string option" where
  "client_hostname m incoming_opt_length = do {
     hn \<leftarrow> opt_find (msg_options m) 4 incoming_opt_length 12;
     case hn of
       None \<Rightarrow> Some []
     | Some p \<Rightarrow> do {
         n \<leftarrow> byte_at (msg_options m) (p + 1);
         let hn_len = (if unat n > 31 then 31 else unat n);
         bytes \<leftarrow> slice_at (msg_options m) (p + 2) hn_len;
         Some (c_string (map (\<lambda>b. char_of (unat b)) bytes @ [NUL]))
       }
   }"

definition dhcp_request ::
    "u32 \<Rightarrow> dhcp_server \<Rightarrow> dhcp_msg \<Rightarrow> nat \<Rightarrow>
     (dhcp_server \<times> (dhcp_msg \<times> nat \<times> log_line list) option) option" where
  "dhcp_request now d m incoming_opt_length = do {
     let d = d\<lparr>ds_request_count := ds_request_count d + 1\<rparr>;
     requested \<leftarrow> requested_address m incoming_opt_length;
     case requested of
       None \<Rightarrow> Some (d, None)
     | Some requested_ip \<Rightarrow>
         if requested_ip = [0, 0, 0, 0] then Some (d, None)
         else if take 3 requested_ip \<noteq> take 3 (ds_ip d) then Some (d, None)
         else do {
           last \<leftarrow> byte_at requested_ip 3;
           let yi = last - DHCPS_BASE_IP;
           if unat yi \<ge> DHCPS_MAX_IP then Some (d, None)
           else do {
             lease \<leftarrow> array_at (ds_lease d) (unat yi);
             let mac = take MAC_LEN (msg_chaddr m);
             if lease_mac lease \<noteq> mac \<and> \<not> mac_free (lease_mac lease) then Some (d, None)
             else do {
               let d = d\<lparr>ds_lease := (ds_lease d)[unat yi := \<lparr>lease_mac = mac, lease_expiry = lease_end now\<rparr>]\<rparr>;
               yiaddr \<leftarrow> array_put (msg_yiaddr m) 3 (DHCPS_BASE_IP + yi);
               hostname \<leftarrow> client_hostname m incoming_opt_length;
               (options, opt) \<leftarrow> opt_write_u8 (msg_options m) 4 53 5;
               let d = d\<lparr>ds_ack_count := ds_ack_count d + 1\<rparr>;
               Some (d, Some (m\<lparr>msg_yiaddr := yiaddr, msg_options := options\<rparr>, opt,
                 [(''[WEB] DHCP ACK MAC=%02x:%02x:%02x:%02x:%02x:%02x IP=%u.%u.%u.%u host='' @ [CHR 0x22] @ ''%s'' @ [CHR 0x22],
                   map (\<lambda>b. LNum (unat b)) (mac @ yiaddr) @ [LStr hostname])]))
             }
           }
         }
   }"

record datagram =
  dg_dest :: "u8 list"
  dg_port :: u16
  dg_payload :: "u8 list"

text \<open>The return value (\<open>-ENOMEM\<close>, the error of \<open>udp_sendto\<close>, or the length) and the datagram handed to lwIP.\<close>

definition dhcp_socket_sendto ::
    "bool \<Rightarrow> int \<Rightarrow> u8 list \<Rightarrow> nat \<Rightarrow> u32 \<Rightarrow> u16 \<Rightarrow> (int \<times> datagram option) option" where
  "dhcp_socket_sendto allocated err buf len ip port =
     (let len = (if len > 0xffff then 0xffff else len)
      in if \<not> allocated then Some (- 12, None)
         else do {
           payload \<leftarrow> slice_at buf 0 len;
           let dest = [ucast (drop_bit 24 ip), ucast (drop_bit 16 ip), ucast (drop_bit 8 ip), ucast ip];
           Some (if err \<noteq> 0 then err else int len,
                 Some \<lparr>dg_dest = dest, dg_port = port, dg_payload = payload\<rparr>)
         })"

text \<open>The options every reply carries, and the padding to 300 bytes.\<close>

definition reply_options :: "dhcp_server \<Rightarrow> u8 list \<Rightarrow> nat \<Rightarrow> (u8 list \<times> nat) option" where
  "reply_options d options opt = do {
     (options, opt) \<leftarrow> opt_write_n options opt 54 (ds_ip d);
     (options, opt) \<leftarrow> opt_write_n options opt 1 (ds_nm d);
     (options, opt) \<leftarrow> opt_write_n options opt 3 (ds_ip d);
     (options, opt) \<leftarrow> opt_write_n options opt 6 (ds_ip d);
     (options, opt) \<leftarrow> opt_write_u32 options opt 51 (of_nat DEFAULT_LEASE_TIME_S);
     options \<leftarrow> array_put options opt 255;
     let opt = opt + 1;
     let response_length = OPTIONS_OFFSET + opt;
     if response_length < 300 then do {
       options \<leftarrow> bytes_put options opt (replicate (300 - response_length) 0);
       Some (options, 300)
     }
     else Some (options, response_length)
   }"

text \<open>The switch over the message type, and the reply.\<close>

definition dhcp_answer ::
    "(nat \<Rightarrow> u32) \<Rightarrow> bool \<Rightarrow> int \<Rightarrow> dhcp_server \<Rightarrow> dhcp_msg \<Rightarrow> nat \<Rightarrow> u8 \<Rightarrow>
     (dhcp_server \<times> log_line list \<times> datagram option) option" where
  "dhcp_answer ticks allocated err d m incoming_opt_length t = do {
     (d, answer) \<leftarrow>
       (if t = 1 then dhcp_discover ticks d m
        else if t = 3 then dhcp_request (ticks 0) d m incoming_opt_length
        else Some (d, None));
     case answer of
       None \<Rightarrow> Some (d, [], None)
     | Some (m, opt, lines) \<Rightarrow> do {
         (options, response_length) \<leftarrow> reply_options d (msg_options m) opt;
         (_, sent) \<leftarrow> dhcp_socket_sendto allocated err
           (msg_bytes (m\<lparr>msg_options := options\<rparr>)) response_length 0xffffffff 68;
         Some (d, lines, sent)
       }
   }"

definition dhcp_server_process ::
    "(nat \<Rightarrow> u32) \<Rightarrow> bool \<Rightarrow> int \<Rightarrow> nat \<Rightarrow> u8 list \<Rightarrow> dhcp_server \<Rightarrow>
     (dhcp_server \<times> log_line list \<times> datagram option) option" where
  "dhcp_server_process ticks allocated err tot_len copied d =
     (let len = length copied
      in if tot_len < DHCP_MIN_SIZE \<or> len < DHCP_MIN_SIZE then Some (d, [], None)
         else do {
           let m = (msg_of_bytes copied)\<lparr>msg_op := 2, msg_yiaddr := ds_ip d\<rparr>;
           let incoming_opt_length = len - OPTIONS_OFFSET - 4;
           msgtype \<leftarrow> opt_find (msg_options m) 4 incoming_opt_length 53;
           case msgtype of
             None \<Rightarrow> Some (d, [], None)
           | Some p \<Rightarrow> do {
               n \<leftarrow> byte_at (msg_options m) (p + 1);
               if n \<noteq> 1 then Some (d, [], None)
               else do {
                 t \<leftarrow> byte_at (msg_options m) (p + 2);
                 dhcp_answer ticks allocated err d m incoming_opt_length t
               }
             }
         })"

text \<open>\<open>created\<close> says whether \<open>udp_new\<close> succeeds. The counters are not touched.\<close>

definition dhcp_server_init :: "bool \<Rightarrow> u8 list \<Rightarrow> u8 list \<Rightarrow> dhcp_server \<Rightarrow> dhcp_server" where
  "dhcp_server_init created ip nm d =
     d\<lparr>ds_ip := ip, ds_nm := nm,
       ds_lease := replicate DHCPS_MAX_IP \<lparr>lease_mac = replicate MAC_LEN 0, lease_expiry = 0\<rparr>,
       ds_udp := created\<rparr>"

definition dhcp_server_deinit :: "dhcp_server \<Rightarrow> dhcp_server" where
  "dhcp_server_deinit d = d\<lparr>ds_udp := False\<rparr>"

section \<open>Options as a list\<close>

text \<open>The reference reading of an option field, on lists instead of positions.\<close>

function options_of :: "u8 list \<Rightarrow> (u8 \<times> u8 list) list" where
  "options_of [] = []"
| "options_of (c # bs) =
     (if c = 255 then []
      else if c = 0 then options_of bs
      else case bs of
             [] \<Rightarrow> []
           | n # rest \<Rightarrow>
               if unat n \<le> length rest
               then (c, take (unat n) rest) # options_of (drop (unat n) rest)
               else [])"
  by pat_completeness auto

termination by (relation "measure length") auto

definition encode_option :: "u8 \<times> u8 list \<Rightarrow> u8 list" where
  "encode_option p = fst p # of_nat (length (snd p)) # snd p"

definition option_ok :: "u8 \<times> u8 list \<Rightarrow> bool" where
  "option_ok p \<longleftrightarrow> fst p \<noteq> 0 \<and> fst p \<noteq> 255 \<and> length (snd p) < 256"

lemma unat_u8_of_nat: "n < 256 \<Longrightarrow> unat (of_nat n :: u8) = n"
  by (simp add: unat_of_nat)

lemma options_of_encode:
  "list_all option_ok os \<Longrightarrow> options_of (concat (map encode_option os) @ 255 # rest) = os"
  by (induction os) (auto simp: encode_option_def option_ok_def unat_u8_of_nat)

lemma opt_find_from_spec:
  assumes "opt + len \<le> length buf"
  shows "case find (\<lambda>p. fst p = cmd) (options_of (take (len - i) (drop (opt + i) buf))) of
     None \<Rightarrow> opt_find_from buf opt len cmd i = Some None
   | Some (c, dat) \<Rightarrow>
       \<exists>p. opt_find_from buf opt len cmd i = Some (Some p) \<and> opt + i \<le> p \<and> p + 2 + length dat \<le> opt + len \<and>
         buf ! p = cmd \<and> unat (buf ! (p + 1)) = length dat \<and> take (length dat) (drop (p + 2) buf) = dat"
  using assms
proof (induction buf opt len cmd i rule: opt_find_from.induct)
  case (1 buf opt len cmd i)
  show ?case
  proof (cases "i < len")
    case False
    then show ?thesis by (simp add: opt_find_from.simps [of buf opt len cmd i])
  next
    case True
    let ?c = "buf ! (opt + i)"
    have at: "byte_at buf (opt + i) = Some ?c" using True 1(3) by simp
    have tk: "take (len - i) (drop (opt + i) buf) = ?c # take (len - (i + 1)) (drop (opt + (i + 1)) buf)"
      using True 1(3) by (simp add: Cons_nth_drop_Suc [symmetric] Suc_diff_Suc [symmetric])
    consider "?c = 255" | "?c = 0" | (opt) "?c \<noteq> 255" "?c \<noteq> 0" by auto
    then show ?thesis
    proof cases
      case 1
      then show ?thesis using True at by (simp add: opt_find_from.simps [of buf opt len cmd i] tk)
    next
      case 2
      from "1.IH"(1) [OF True at] 2 "1.prems" show ?thesis
        using True at by (simp add: opt_find_from.simps [of buf opt len cmd i] tk split: option.splits) force
    next
      case opt
      show ?thesis
      proof (cases "i + 1 < len")
        case False
        then have "take (len - (i + 1)) (drop (opt + (i + 1)) buf) = []" by simp
        with True False at opt show ?thesis by (simp add: opt_find_from.simps [of buf opt len cmd i] tk)
      next
        case i1: True
        let ?n = "buf ! (opt + i + 1)"
        let ?rest = "take (len - (i + 2)) (drop (opt + (i + 2)) buf)"
        have at1: "byte_at buf (opt + i + 1) = Some ?n" using i1 1(3) by simp
        have tk1: "take (len - (i + 1)) (drop (opt + (i + 1)) buf) = ?n # ?rest"
          using i1 1(3) by (simp add: Cons_nth_drop_Suc [symmetric] Suc_diff_Suc [symmetric])
        have len: "length ?rest = len - (i + 2)" using 1(3) by simp
        show ?thesis
        proof (cases "i + 2 + unat ?n > len")
          case True
          then have "\<not> unat ?n \<le> length ?rest" using i1 len by linarith
          then have "options_of (take (len - i) (drop (opt + i) buf)) = []"
            unfolding tk tk1 options_of.simps using opt by (simp del: length_take)
          with True \<open>i < len\<close> i1 at at1 opt show ?thesis
            by (simp add: opt_find_from.simps [of buf opt len cmd i])
        next
          case fits: False
          then have le: "unat ?n \<le> length ?rest" using len by linarith
          have dr: "drop (unat ?n) ?rest = take (len - (i + 2 + unat ?n)) (drop (opt + (i + 2 + unat ?n)) buf)"
            by (simp add: drop_take ac_simps)
          have os: "options_of (take (len - i) (drop (opt + i) buf)) =
              (?c, take (unat ?n) ?rest) # options_of (take (len - (i + 2 + unat ?n)) (drop (opt + (i + 2 + unat ?n)) buf))"
            unfolding tk tk1 options_of.simps list.case dr [symmetric] using opt le
            by (simp only: if_False if_True refl)
          show ?thesis
          proof (cases "?c = cmd")
            case True
            have "take (unat ?n) ?rest = take (unat ?n) (drop (opt + i + 2) buf)" using fits by (simp add: min_def)
            moreover have "length (take (unat ?n) ?rest) = unat ?n" using le by simp
            ultimately show ?thesis
              using True \<open>i < len\<close> i1 at at1 opt fits
              by (simp add: opt_find_from.simps [of buf opt len cmd i] os)
          next
            case False
            from "1.IH"(2) [OF \<open>i < len\<close> at _ _ _ at1 _ False] opt i1 fits "1.prems"
            have ih: "case find (\<lambda>p. fst p = cmd) (options_of (take (len - (i + 2 + unat ?n)) (drop (opt + (i + 2 + unat ?n)) buf))) of
               None \<Rightarrow> opt_find_from buf opt len cmd (i + 2 + unat ?n) = Some None
             | Some (c, dat) \<Rightarrow>
                 \<exists>p. opt_find_from buf opt len cmd (i + 2 + unat ?n) = Some (Some p) \<and>
                   opt + (i + 2 + unat ?n) \<le> p \<and> p + 2 + length dat \<le> opt + len \<and>
                   buf ! p = cmd \<and> unat (buf ! (p + 1)) = length dat \<and> take (length dat) (drop (p + 2) buf) = dat"
              by simp
            have "opt_find_from buf opt len cmd i = opt_find_from buf opt len cmd (i + 2 + unat ?n)"
              using \<open>i < len\<close> i1 at at1 opt fits False
              by (simp add: opt_find_from.simps [of buf opt len cmd i])
            with ih False show ?thesis by (simp only: os find.simps fst_conv if_False split: option.splits prod.splits)
              (auto intro: le_trans [rotated])
          qed
        qed
      qed
    qed
  qed
qed

lemma find_map_of: "find (\<lambda>p. fst p = k) xs = map_option (Pair k) (map_of xs k)"
  by (induction xs) auto

text \<open>The options of a received message, as its reader sees them.\<close>

lemma opt_find_cases:
  assumes "opt + len \<le> length buf"
  obtains "opt_find buf opt len cmd = Some None" and "map_of (options_of (take len (drop opt buf))) cmd = None"
  | p dat where "opt_find buf opt len cmd = Some (Some p)"
      and "map_of (options_of (take len (drop opt buf))) cmd = Some dat"
      and "opt \<le> p" and "p + 2 + length dat \<le> length buf" and "buf ! p = cmd"
      and "unat (buf ! (p + 1)) = length dat" and "take (length dat) (drop (p + 2) buf) = dat"
  using opt_find_from_spec [OF assms, of cmd 0] assms
  by (auto simp: opt_find_def find_map_of split: option.splits)

lemma array_put_append:
  "n = length pre \<Longrightarrow> 0 < length rest \<Longrightarrow> array_put (pre @ rest) n v = Some ((pre @ [v]) @ drop 1 rest)"
  by (cases rest) (simp_all add: array_put_def)

lemma opt_write_n_append:
  assumes "2 + length dat \<le> length rest"
  shows "opt_write_n (pre @ rest) (length pre) cmd dat =
    Some (pre @ encode_option (cmd, dat) @ drop (2 + length dat) rest, length pre + 2 + length dat)"
proof -
  obtain x y rs where r: "rest = x # y # rs" using assms by (cases rest; cases "tl rest") auto
  with assms show ?thesis
    by (simp add: opt_write_n_def bytes_put_def encode_option_def list_update_append nth_append)
qed

lemma opt_write_u8_n: "opt_write_u8 buf opt cmd val = opt_write_n buf opt cmd [val]"
  by (auto simp: opt_write_u8_def opt_write_n_def bytes_put_def array_put_def upd_conv_take_nth_drop)

lemma opt_write_u8_append:
  assumes "3 \<le> length rest"
  shows "opt_write_u8 (pre @ rest) (length pre) cmd val =
    Some (pre @ encode_option (cmd, [val]) @ drop 3 rest, length pre + 3)"
  unfolding opt_write_u8_n using assms by (subst opt_write_n_append) simp_all

definition u32_bytes :: "u32 \<Rightarrow> u8 list" where
  "u32_bytes val = [ucast (drop_bit 24 val), ucast (drop_bit 16 val), ucast (drop_bit 8 val), ucast val]"

lemma opt_write_u32_append:
  assumes "6 \<le> length rest"
  shows "opt_write_u32 (pre @ rest) (length pre) cmd val =
    Some (pre @ encode_option (cmd, u32_bytes val) @ drop 6 rest, length pre + 6)"
proof -
  obtain a b c d e f rs where r: "rest = a # b # c # d # e # f # rs"
    using assms by (auto simp: numeral_eq_Suc Suc_le_length_iff)
  then show ?thesis
    by (simp add: opt_write_u32_def encode_option_def u32_bytes_def list_update_append)
qed

text \<open>The options every reply carries.\<close>

definition standard_options :: "dhcp_server \<Rightarrow> (u8 \<times> u8 list) list" where
  "standard_options d =
     [(54, ds_ip d), (1, ds_nm d), (3, ds_ip d), (6, ds_ip d), (51, [0x00, 0x01, 0x51, 0x80])]"

lemma lease_time_bytes: "u32_bytes (of_nat DEFAULT_LEASE_TIME_S) = [0x00, 0x01, 0x51, 0x80]"
  by (simp add: u32_bytes_def DEFAULT_LEASE_TIME_S_def) 

lemma reply_options_eq:
  assumes ip: "length (ds_ip d) = 4" "length (ds_nm d) = 4"
    and pre: "length pre = 7" and rest: "length pre + length rest = 312"
  shows "reply_options d (pre @ rest) (length pre) =
    Some (pre @ concat (map encode_option (standard_options d)) @ 255 # replicate 26 0 @ drop 57 rest, 300)"
proof -
  let ?o1 = "pre @ encode_option (54, ds_ip d)"
  let ?o2 = "?o1 @ encode_option (1, ds_nm d)"
  let ?o3 = "?o2 @ encode_option (3, ds_ip d)"
  let ?o4 = "?o3 @ encode_option (6, ds_ip d)"
  let ?o5 = "?o4 @ encode_option (51, u32_bytes (of_nat DEFAULT_LEASE_TIME_S))"
  have l: "length rest = 305" using pre rest by simp
  have le: "length (encode_option (c, x)) = 2 + length x" for c x by (simp add: encode_option_def)
  have "opt_write_n (pre @ rest) (length pre) 54 (ds_ip d) = Some (?o1 @ drop 6 rest, length ?o1)"
    using l ip by (subst opt_write_n_append) (simp_all add: le)
  moreover have "opt_write_n (?o1 @ drop 6 rest) (length ?o1) 1 (ds_nm d) = Some (?o2 @ drop 12 rest, length ?o2)"
    using l ip by (subst opt_write_n_append) (simp_all add: le)
  moreover have "opt_write_n (?o2 @ drop 12 rest) (length ?o2) 3 (ds_ip d) = Some (?o3 @ drop 18 rest, length ?o3)"
    using l ip by (subst opt_write_n_append) (simp_all add: le)
  moreover have "opt_write_n (?o3 @ drop 18 rest) (length ?o3) 6 (ds_ip d) = Some (?o4 @ drop 24 rest, length ?o4)"
    using l ip by (subst opt_write_n_append) (simp_all add: le)
  moreover have "opt_write_u32 (?o4 @ drop 24 rest) (length ?o4) 51 (of_nat DEFAULT_LEASE_TIME_S) =
      Some (?o5 @ drop 30 rest, length ?o5)"
    using l by (subst opt_write_u32_append) (simp_all add: le u32_bytes_def)
  moreover have len: "length ?o5 = 37" using pre ip by (simp add: le u32_bytes_def)
  moreover have "array_put (?o5 @ drop 30 rest) 37 255 = Some ((?o5 @ [255]) @ drop 31 rest)"
    using len l by (subst array_put_append) simp_all
  moreover have "bytes_put ((?o5 @ [255]) @ drop 31 rest) 38 (replicate 26 0) =
      Some ((?o5 @ [255]) @ replicate 26 0 @ drop 57 rest)"
    using len l by (subst bytes_put_append) simp_all
  ultimately show ?thesis
    by (simp add: reply_options_def OPTIONS_OFFSET_def standard_options_def lease_time_bytes)
qed

section \<open>Leases\<close>

definition ds_wf :: "dhcp_server \<Rightarrow> bool" where
  "ds_wf d \<longleftrightarrow> length (ds_ip d) = 4 \<and> length (ds_nm d) = 4 \<and> length (ds_lease d) = DHCPS_MAX_IP \<and>
     (\<forall>l\<in>set (ds_lease d). length (lease_mac l) = MAC_LEN)"

text \<open>The entry belongs to another client and has not run out.\<close>

definition held_by_other :: "u32 \<Rightarrow> u8 list \<Rightarrow> dhcp_server_lease \<Rightarrow> bool" where
  "held_by_other now mac l \<longleftrightarrow> lease_mac l \<noteq> mac \<and> \<not> mac_free (lease_mac l) \<and> \<not> lease_expired now l"

text \<open>What the search does to the leases, and what it may choose.\<close>

definition offer_result ::
    "(nat \<Rightarrow> u32) \<Rightarrow> u8 list \<Rightarrow> nat \<Rightarrow> nat \<Rightarrow> dhcp_server_lease list \<Rightarrow> nat \<Rightarrow> dhcp_server_lease list \<Rightarrow> bool" where
  "offer_result ticks mac i yi leases yi' leases' \<longleftrightarrow>
     length leases' = DHCPS_MAX_IP \<and> yi' \<le> DHCPS_MAX_IP \<and>
     (\<forall>j<DHCPS_MAX_IP. leases' ! j = leases ! j \<or>
        i \<le> j \<and> lease_expired (ticks j) (leases ! j) \<and> lease_mac (leases ! j) \<noteq> mac \<and>
        leases' ! j = (leases ! j)\<lparr>lease_mac := replicate MAC_LEN 0\<rparr>) \<and>
     (yi' < DHCPS_MAX_IP \<longrightarrow> yi' = yi \<and> leases' ! yi' = leases ! yi' \<or>
        i \<le> yi' \<and> \<not> held_by_other (ticks yi') mac (leases ! yi') \<and>
        (lease_mac (leases' ! yi') = mac \<or> mac_free (lease_mac (leases' ! yi'))))"

lemma offer_loop_spec:
  assumes "length leases = DHCPS_MAX_IP" and "yi \<le> DHCPS_MAX_IP"
  shows "\<exists>yi' leases'. offer_loop ticks mac i yi leases = Some (yi', leases') \<and>
    offer_result ticks mac i yi leases yi' leases'"
  using assms
proof (induction ticks mac i yi leases rule: offer_loop.induct)
  case (1 ticks mac i yi leases)
  show ?case
  proof (cases "i < DHCPS_MAX_IP")
    case False
    with 1 show ?thesis by (simp add: offer_loop.simps [of ticks mac i] offer_result_def)
  next
    case i: True
    let ?l = "leases ! i" and ?z = "(leases ! i)\<lparr>lease_mac := replicate MAC_LEN 0\<rparr>"
    have at: "array_at leases i = Some ?l" using i "1.prems" by simp
    have skip: "offer_result ticks mac (i + 1) yi leases yi' leases' \<Longrightarrow>
        offer_result ticks mac i yi leases yi' leases'" for yi' leases'
      by (auto simp: offer_result_def)
    consider (own) "lease_mac ?l = mac" | (taken) "lease_mac ?l \<noteq> mac" "yi \<noteq> DHCPS_MAX_IP"
      | (expired) "lease_mac ?l \<noteq> mac" "yi = DHCPS_MAX_IP" "lease_expired (ticks i) ?l"
      | (valid) "lease_mac ?l \<noteq> mac" "yi = DHCPS_MAX_IP" "\<not> lease_expired (ticks i) ?l" by blast
    then show ?thesis
    proof cases
      case own
      with i "1.prems" show ?thesis
        by (simp add: offer_loop.simps [of ticks mac i] offer_result_def held_by_other_def)
    next
      case taken
      with "1.IH"(3) [OF i at] "1.prems" i skip show ?thesis
        by (simp add: offer_loop.simps [of ticks mac i]) blast
    next
      case expired
      from "1.IH"(1) [OF i at expired(1,2) refl expired(3)] "1.prems" i obtain yi' leases' where
        r: "offer_loop ticks mac (i + 1) i (leases[i := ?z]) = Some (yi', leases')"
          "offer_result ticks mac (i + 1) i (leases[i := ?z]) yi' leases'" by auto
      from r(2) expired i "1.prems" have "offer_result ticks mac i yi leases yi' leases'"
        by (auto simp: offer_result_def held_by_other_def nth_list_update mac_free_def split: if_splits)
      with r(1) expired i "1.prems" show ?thesis
        by (simp add: offer_loop.simps [of ticks mac i] Let_def)
    next
      case valid
      define y where "y = (if mac_free (lease_mac ?l) then i else yi)"
      have "y \<le> DHCPS_MAX_IP" using valid i by (simp add: y_def)
      with "1.IH"(2) [OF i at valid(1,2) y_def valid(3)] "1.prems" obtain yi' leases' where
        r: "offer_loop ticks mac (i + 1) y leases = Some (yi', leases')"
          "offer_result ticks mac (i + 1) y leases yi' leases'" by blast
      from r(2) valid i have "offer_result ticks mac i yi leases yi' leases'"
        by (auto simp: offer_result_def held_by_other_def y_def split: if_splits)
      with r(1) valid i "1.prems" show ?thesis
        by (auto simp: offer_loop.simps [of ticks mac i] Let_def y_def split: if_splits)
    qed
  qed
qed

section \<open>The two requests\<close>

definition msg_wf :: "dhcp_msg \<Rightarrow> bool" where
  "msg_wf m \<longleftrightarrow> length (msg_xid m) = 4 \<and> length (msg_secs m) = 2 \<and> length (msg_flags m) = 2 \<and>
     length (msg_ciaddr m) = 4 \<and> length (msg_yiaddr m) = 4 \<and> length (msg_siaddr m) = 4 \<and>
     length (msg_giaddr m) = 4 \<and> length (msg_chaddr m) = 16 \<and> length (msg_sname m) = 64 \<and>
     length (msg_file m) = 128 \<and> length (msg_options m) = 312"

lemma msg_of_bytes_wf: "length copied \<le> 548 \<Longrightarrow> msg_wf (msg_of_bytes copied)"
proof -
  assume "length copied \<le> 548"
  then have "length (copied @ replicate (548 - length copied) 0) = 548" by simp
  then show ?thesis unfolding msg_of_bytes_def Let_def
    by (simp only: msg_wf_def dhcp_msg.simps length_take length_drop) simp
qed

text \<open>The message type that is written in front of the other options.\<close>

definition typed_options :: "dhcp_msg \<Rightarrow> u8 \<Rightarrow> u8 list" where
  "typed_options m t = (take 4 (msg_options m) @ encode_option (53, [t])) @ drop 7 (msg_options m)"

lemma write_type:
  assumes "msg_wf m"
  shows "opt_write_u8 (msg_options m) 4 53 t = Some (typed_options m t, 7)"
proof -
  have "length (msg_options m) = 312" using assms by (simp add: msg_wf_def)
  then show ?thesis
    using opt_write_u8_append [of "drop 4 (msg_options m)" "take 4 (msg_options m)" 53 t]
    by (simp add: typed_options_def min_def)
qed

text \<open>An answer to the client \<open>mac\<close> with address number \<open>yi\<close>.\<close>

definition answer_for :: "dhcp_server \<Rightarrow> dhcp_msg \<Rightarrow> nat \<Rightarrow> u8 \<Rightarrow> dhcp_msg" where
  "answer_for d m yi t =
     m\<lparr>msg_yiaddr := (msg_yiaddr m)[3 := DHCPS_BASE_IP + of_nat yi], msg_options := typed_options m t\<rparr>"

lemma discover_spec:
  assumes d: "ds_wf d" and m: "msg_wf m"
  shows "\<exists>yi leases. offer_result ticks (take MAC_LEN (msg_chaddr m)) 0 DHCPS_MAX_IP (ds_lease d) yi leases \<and>
    (let d' = d\<lparr>ds_discover_count := ds_discover_count d + 1, ds_lease := leases\<rparr>
     in if yi = DHCPS_MAX_IP then dhcp_discover ticks d m = Some (d', None)
        else yi < DHCPS_MAX_IP \<and>
          (\<exists>lines. dhcp_discover ticks d m = Some (d', Some (answer_for d m yi 2, 7, lines))))"
proof -
  from d have "length (ds_lease d) = DHCPS_MAX_IP" by (simp add: ds_wf_def)
  from offer_loop_spec [OF this, of DHCPS_MAX_IP ticks "take MAC_LEN (msg_chaddr m)" 0] obtain yi leases where
    r: "offer_loop ticks (take MAC_LEN (msg_chaddr m)) 0 DHCPS_MAX_IP (ds_lease d) = Some (yi, leases)"
      "offer_result ticks (take MAC_LEN (msg_chaddr m)) 0 DHCPS_MAX_IP (ds_lease d) yi leases" by auto
  from r(2) have le: "yi \<le> DHCPS_MAX_IP" by (simp add: offer_result_def)
  have y: "3 < length (msg_yiaddr m)" using m by (simp add: msg_wf_def)
  from r le y write_type [OF m, of 2] show ?thesis
    by (intro exI [of _ yi] exI [of _ leases])
      (cases "yi = DHCPS_MAX_IP"; simp add: dhcp_discover_def answer_for_def Let_def)
qed

lemma requested_address_total:
  assumes "msg_wf m" and "len \<le> 308"
  shows "\<exists>r. requested_address m len = Some r \<and> (\<forall>ip. r = Some ip \<longrightarrow> length ip = 4)"
proof -
  have l: "length (msg_options m) = 312" "length (msg_ciaddr m) = 4" using assms by (simp_all add: msg_wf_def)
  have "4 + len \<le> length (msg_options m)" using l assms by simp
  then show ?thesis
    by (cases rule: opt_find_cases [of 4 len "msg_options m" 50])
      (use l in \<open>auto simp: requested_address_def\<close>)
qed

lemma client_hostname_total:
  assumes "msg_wf m" and "len \<le> 308"
  shows "\<exists>h. client_hostname m len = Some h \<and> length h \<le> 31"
proof -
  have l: "length (msg_options m) = 312" using assms by (simp_all add: msg_wf_def)
  have "4 + len \<le> length (msg_options m)" using l assms by simp
  then show ?thesis
  proof (cases rule: opt_find_cases [of 4 len "msg_options m" 12])
    case (2 p dat)
    let ?n = "if unat (msg_options m ! (p + 1)) > 31 then 31 else unat (msg_options m ! (p + 1))"
    have "p + 2 + ?n \<le> length (msg_options m)" using 2 by auto
    with 2 l show ?thesis
      using length_c_string_less [OF nul_terminated_append_NUL, of "map (\<lambda>b. char_of (unat b)) (take ?n (drop (p + 2) (msg_options m)))" "[]"]
      by (auto simp: client_hostname_def Let_def)
  qed (simp add: client_hostname_def)
qed

lemma request_spec:
  assumes d: "ds_wf d" and m: "msg_wf m" and len: "len \<le> 308"
  defines "mac \<equiv> take MAC_LEN (msg_chaddr m)"
  shows "dhcp_request now d m len = Some (d\<lparr>ds_request_count := ds_request_count d + 1\<rparr>, None) \<or>
    (\<exists>yi lines. yi < DHCPS_MAX_IP \<and> (lease_mac (ds_lease d ! yi) = mac \<or> mac_free (lease_mac (ds_lease d ! yi))) \<and>
      dhcp_request now d m len =
        Some (d\<lparr>ds_request_count := ds_request_count d + 1, ds_ack_count := ds_ack_count d + 1,
                ds_lease := (ds_lease d)[yi := \<lparr>lease_mac = mac, lease_expiry = lease_end now\<rparr>]\<rparr>,
              Some (answer_for d m yi 5, 7, lines)))"
proof -
  from requested_address_total [OF m len] obtain r where r: "requested_address m len = Some r"
    "\<And>ip. r = Some ip \<Longrightarrow> length ip = 4" by blast
  from client_hostname_total [OF m len] obtain h where h: "client_hostname m len = Some h" by blast
  have l: "length (ds_lease d) = DHCPS_MAX_IP" "3 < length (msg_yiaddr m)"
    using d m by (simp_all add: ds_wf_def msg_wf_def)
  show ?thesis
  proof (cases r)
    case None
    with r show ?thesis by (simp add: dhcp_request_def Let_def)
  next
    case (Some ip)
    with r(2) have "length ip = 4" by simp
    then have last: "byte_at ip 3 = Some (ip ! 3)" by simp
    show ?thesis
    proof (cases "ip \<noteq> [0, 0, 0, 0] \<and> take 3 ip = take 3 (ds_ip d) \<and> unat (ip ! 3 - DHCPS_BASE_IP) < DHCPS_MAX_IP \<and>
        (lease_mac (ds_lease d ! unat (ip ! 3 - DHCPS_BASE_IP)) = mac \<or>
         mac_free (lease_mac (ds_lease d ! unat (ip ! 3 - DHCPS_BASE_IP))))")
      case True
      with Some r(1) h l last write_type [OF m, of 5] show ?thesis
        by (intro disjI2 exI [of _ "unat (ip ! 3 - DHCPS_BASE_IP)"])
          (auto simp: dhcp_request_def answer_for_def mac_def Let_def)
    next
      case False
      with Some r(1) l last show ?thesis
        by (intro disjI1) (auto simp: dhcp_request_def mac_def Let_def)
    qed
  qed
qed

section \<open>The reply\<close>

definition reply_payload :: "dhcp_server \<Rightarrow> dhcp_msg \<Rightarrow> nat \<Rightarrow> u8 \<Rightarrow> u8 list" where
  "reply_payload d m yi t =
     msg_bytes (m\<lparr>msg_yiaddr := (msg_yiaddr m)[3 := DHCPS_BASE_IP + of_nat yi],
       msg_options := take 4 (msg_options m) @
         concat (map encode_option ((53, [t]) # standard_options d)) @ 255 # replicate 26 0\<rparr>)"

lemma take_300_msg_bytes:
  assumes "msg_wf x" and "length os = 312"
  shows "take 300 (msg_bytes (x\<lparr>msg_options := os\<rparr>)) = msg_bytes (x\<lparr>msg_options := take 64 os\<rparr>)"
    and "length (msg_bytes (x\<lparr>msg_options := os\<rparr>)) = 548"
    and "length (msg_bytes (x\<lparr>msg_options := take 64 os\<rparr>)) = 300"
  using assms by (simp_all add: msg_bytes_def msg_wf_def)

lemma answer_for_wf: "msg_wf m \<Longrightarrow> msg_wf (answer_for d m yi t)"
  by (simp add: answer_for_def typed_options_def msg_wf_def encode_option_def)

lemma reply_sent:
  assumes d: "ds_wf d" "ds_ip d' = ds_ip d" "ds_nm d' = ds_nm d" and m: "msg_wf m"
  shows "\<exists>options. reply_options d' (msg_options (answer_for d m yi t)) 7 = Some (options, 300) \<and>
    take 300 (msg_bytes ((answer_for d m yi t)\<lparr>msg_options := options\<rparr>)) = reply_payload d m yi t \<and>
    length (reply_payload d m yi t) = 300 \<and>
    length (msg_bytes ((answer_for d m yi t)\<lparr>msg_options := options\<rparr>)) = 548"
proof -
  define pre where "pre = take 4 (msg_options m) @ encode_option (53, [t])"
  define rest where "rest = drop 7 (msg_options m)"
  define std where "std = concat (map encode_option (standard_options d))"
  define o' where "o' = pre @ std @ 255 # replicate 26 0 @ drop 57 rest"
  have l: "length (ds_ip d) = 4" "length (ds_nm d) = 4" "length (msg_options m) = 312"
    using d m by (simp_all add: ds_wf_def msg_wf_def)
  have pre: "length pre = 7" "length pre + length rest = 312" using l by (simp_all add: pre_def rest_def encode_option_def)
  have so: "standard_options d' = standard_options d" using d by (simp add: standard_options_def)
  have std: "length std = 30" using l by (simp add: std_def standard_options_def encode_option_def)
  from reply_options_eq [of d' pre rest] l d pre have ro: "reply_options d' (pre @ rest) 7 = Some (o', 300)"
    by (simp add: so std_def o'_def)
  have eq: "msg_options (answer_for d m yi t) = pre @ rest"
    by (simp add: answer_for_def typed_options_def pre_def rest_def)
  have lo: "length o' = 312" using std pre by (simp add: o'_def)
  have tk: "take 64 o' = pre @ std @ 255 # replicate 26 0" using std pre by (simp add: o'_def)
  have "msg_bytes ((answer_for d m yi t)\<lparr>msg_options := take 64 o'\<rparr>) = reply_payload d m yi t"
    unfolding tk by (simp add: reply_payload_def answer_for_def pre_def std_def)
  with take_300_msg_bytes [OF answer_for_wf [OF m] lo, of d yi t] ro eq show ?thesis by auto
qed

text \<open>What the client receives when the packet buffer could be allocated.\<close>

definition dhcp_reply :: "bool \<Rightarrow> dhcp_server \<Rightarrow> dhcp_msg \<Rightarrow> nat \<Rightarrow> u8 \<Rightarrow> datagram option" where
  "dhcp_reply allocated d m yi t =
     (if allocated
      then Some \<lparr>dg_dest = [255, 255, 255, 255], dg_port = 68, dg_payload = reply_payload d m yi t\<rparr> else None)"

lemma reply_step:
  assumes "ds_wf d" "ds_ip d' = ds_ip d" "ds_nm d' = ds_nm d" and "msg_wf m"
  shows "\<exists>options. reply_options d' (msg_options (answer_for d m yi t)) 7 = Some (options, 300) \<and>
    (\<exists>r. dhcp_socket_sendto allocated err (msg_bytes ((answer_for d m yi t)\<lparr>msg_options := options\<rparr>)) 300 0xffffffff 68 =
      Some (r, dhcp_reply allocated d m yi t))"
  using reply_sent [OF assms, of yi t]
  by (auto simp: dhcp_socket_sendto_def dhcp_reply_def Let_def slice_at_def)

text \<open>The message as the handlers see it.\<close>

definition received_msg :: "dhcp_server \<Rightarrow> u8 list \<Rightarrow> dhcp_msg" where
  "received_msg d copied = (msg_of_bytes copied)\<lparr>msg_op := 2, msg_yiaddr := ds_ip d\<rparr>"

abbreviation client_mac :: "dhcp_msg \<Rightarrow> u8 list" where
  "client_mac m \<equiv> take MAC_LEN (msg_chaddr m)"

lemma received_msg_wf: "ds_wf d \<Longrightarrow> length copied \<le> 548 \<Longrightarrow> msg_wf (received_msg d copied)"
  using msg_of_bytes_wf [of copied] by (simp add: received_msg_def msg_wf_def ds_wf_def)

lemma dhcp_answer_cases:
  assumes d: "ds_wf d" and m: "msg_wf m" and len: "len \<le> 308"
  obtains (ignored) n where
      "dhcp_answer ticks allocated err d m len t = Some (d\<lparr>ds_request_count := n\<rparr>, [], None)"
  | (exhausted) leases where
      "dhcp_answer ticks allocated err d m len t =
        Some (d\<lparr>ds_discover_count := ds_discover_count d + 1, ds_lease := leases\<rparr>, [], None)"
      "offer_result ticks (client_mac m) 0 DHCPS_MAX_IP (ds_lease d) DHCPS_MAX_IP leases"
  | (offer) yi leases lines where
      "dhcp_answer ticks allocated err d m len t =
        Some (d\<lparr>ds_discover_count := ds_discover_count d + 1, ds_lease := leases\<rparr>, lines,
              dhcp_reply allocated d m yi 2)"
      "offer_result ticks (client_mac m) 0 DHCPS_MAX_IP (ds_lease d) yi leases"
      "yi < DHCPS_MAX_IP"
  | (ack) yi lines where
      "dhcp_answer ticks allocated err d m len t =
        Some (d\<lparr>ds_request_count := ds_request_count d + 1, ds_ack_count := ds_ack_count d + 1,
                ds_lease := (ds_lease d)[yi := \<lparr>lease_mac = client_mac m, lease_expiry = lease_end (ticks 0)\<rparr>]\<rparr>,
              lines, dhcp_reply allocated d m yi 5)"
      "yi < DHCPS_MAX_IP"
      "lease_mac (ds_lease d ! yi) = client_mac m \<or> mac_free (lease_mac (ds_lease d ! yi))"
proof -
  consider (discover) "t = 1" | (request) "t = 3" | (other) "t \<noteq> 1" "t \<noteq> 3" by blast
  then show thesis
  proof cases
    case discover
    from discover_spec [OF d m, of ticks] obtain yi leases where
      r: "offer_result ticks (client_mac m) 0 DHCPS_MAX_IP (ds_lease d) yi leases"
        "let d' = d\<lparr>ds_discover_count := ds_discover_count d + 1, ds_lease := leases\<rparr>
         in if yi = DHCPS_MAX_IP then dhcp_discover ticks d m = Some (d', None)
            else yi < DHCPS_MAX_IP \<and>
              (\<exists>lines. dhcp_discover ticks d m = Some (d', Some (answer_for d m yi 2, 7, lines)))" by blast
    let ?d = "d\<lparr>ds_discover_count := ds_discover_count d + 1, ds_lease := leases\<rparr>"
    from reply_step [OF d _ _ m, of ?d yi 2 allocated err] obtain options x where
      "reply_options ?d (msg_options (answer_for d m yi 2)) 7 = Some (options, 300)"
      "dhcp_socket_sendto allocated err (msg_bytes ((answer_for d m yi 2)\<lparr>msg_options := options\<rparr>)) 300 0xffffffff 68 =
        Some (x, dhcp_reply allocated d m yi 2)" by auto
    with discover r exhausted offer show thesis by (auto simp: dhcp_answer_def Let_def split: if_splits)
  next
    case request
    from request_spec [OF d m len, of "ticks 0"] consider
      "dhcp_request (ticks 0) d m len = Some (d\<lparr>ds_request_count := ds_request_count d + 1\<rparr>, None)"
    | (granted) yi lines where "yi < DHCPS_MAX_IP"
        "lease_mac (ds_lease d ! yi) = client_mac m \<or> mac_free (lease_mac (ds_lease d ! yi))"
        "dhcp_request (ticks 0) d m len =
          Some (d\<lparr>ds_request_count := ds_request_count d + 1, ds_ack_count := ds_ack_count d + 1,
                  ds_lease := (ds_lease d)[yi := \<lparr>lease_mac = client_mac m, lease_expiry = lease_end (ticks 0)\<rparr>]\<rparr>,
                Some (answer_for d m yi 5, 7, lines))" by blast
    then show thesis
    proof cases
      case 1
      with request ignored show thesis by (simp add: dhcp_answer_def)
    next
      case granted
      let ?d = "d\<lparr>ds_request_count := ds_request_count d + 1, ds_ack_count := ds_ack_count d + 1,
          ds_lease := (ds_lease d)[yi := \<lparr>lease_mac = client_mac m, lease_expiry = lease_end (ticks 0)\<rparr>]\<rparr>"
      from reply_step [OF d _ _ m, of ?d yi 5 allocated err] obtain options x where
        "reply_options ?d (msg_options (answer_for d m yi 5)) 7 = Some (options, 300)"
        "dhcp_socket_sendto allocated err (msg_bytes ((answer_for d m yi 5)\<lparr>msg_options := options\<rparr>)) 300 0xffffffff 68 =
          Some (x, dhcp_reply allocated d m yi 5)" by auto
      with request granted ack show thesis by (simp add: dhcp_answer_def)
    qed
  next
    case other
    then have "dhcp_answer ticks allocated err d m len t = Some (d\<lparr>ds_request_count := ds_request_count d\<rparr>, [], None)"
      by (simp add: dhcp_answer_def)
    with ignored show thesis .
  qed
qed

lemma dhcp_server_process_step:
  assumes d: "ds_wf d" and c: "length copied \<le> 548"
  obtains "dhcp_server_process ticks allocated err tot_len copied d = Some (d\<lparr>ds_request_count := ds_request_count d\<rparr>, [], None)"
  | t where "dhcp_server_process ticks allocated err tot_len copied d =
      dhcp_answer ticks allocated err d (received_msg d copied) (length copied - OPTIONS_OFFSET - 4) t"
proof (cases "tot_len < DHCP_MIN_SIZE \<or> length copied < DHCP_MIN_SIZE")
  case True
  with that(1) show ?thesis by (simp add: dhcp_server_process_def Let_def)
next
  case False
  let ?m = "received_msg d copied" and ?len = "length copied - OPTIONS_OFFSET - 4"
  have l: "length (msg_options ?m) = 312" using received_msg_wf [OF d c] by (simp add: msg_wf_def)
  have len: "4 + ?len \<le> length (msg_options ?m)" using c l by (simp add: OPTIONS_OFFSET_def)
  note unf = dhcp_server_process_def [of ticks allocated err tot_len copied d, folded received_msg_def,
      unfolded Let_def, unfolded if_not_P [OF False]]
  show ?thesis
  proof (cases rule: opt_find_cases [OF len, of 53])
    case 1
    with unf that(1) show ?thesis by simp
  next
    case (2 p dat)
    show ?thesis
    proof (cases "length dat = 1")
      case False
      then have "msg_options ?m ! (p + 1) \<noteq> 1" using 2 by auto
      with 2 unf that(1) show ?thesis by simp
    next
      case True
      then have "msg_options ?m ! (p + 1) = 1" using 2 by (simp add: word_unat_eq_iff)
      with 2 True unf that(2) [of "msg_options ?m ! (p + 2)"] show ?thesis by simp
    qed
  qed
qed

lemma dhcp_server_process_cases:
  assumes d: "ds_wf d" and c: "length copied \<le> 548"
  obtains (ignored) n where
      "dhcp_server_process ticks allocated err tot_len copied d = Some (d\<lparr>ds_request_count := n\<rparr>, [], None)"
  | (exhausted) leases where
      "dhcp_server_process ticks allocated err tot_len copied d =
        Some (d\<lparr>ds_discover_count := ds_discover_count d + 1, ds_lease := leases\<rparr>, [], None)"
      "offer_result ticks (client_mac (received_msg d copied)) 0 DHCPS_MAX_IP (ds_lease d) DHCPS_MAX_IP leases"
  | (offer) yi leases lines where
      "dhcp_server_process ticks allocated err tot_len copied d =
        Some (d\<lparr>ds_discover_count := ds_discover_count d + 1, ds_lease := leases\<rparr>, lines,
              dhcp_reply allocated d (received_msg d copied) yi 2)"
      "offer_result ticks (client_mac (received_msg d copied)) 0 DHCPS_MAX_IP (ds_lease d) yi leases"
      "yi < DHCPS_MAX_IP"
  | (ack) yi lines where
      "dhcp_server_process ticks allocated err tot_len copied d =
        Some (d\<lparr>ds_request_count := ds_request_count d + 1, ds_ack_count := ds_ack_count d + 1,
                ds_lease := (ds_lease d)[yi := \<lparr>lease_mac = client_mac (received_msg d copied), lease_expiry = lease_end (ticks 0)\<rparr>]\<rparr>,
              lines, dhcp_reply allocated d (received_msg d copied) yi 5)"
      "yi < DHCPS_MAX_IP"
      "lease_mac (ds_lease d ! yi) = client_mac (received_msg d copied) \<or> mac_free (lease_mac (ds_lease d ! yi))"
proof -
  have len: "length copied - OPTIONS_OFFSET - 4 \<le> 308" using c by (simp add: OPTIONS_OFFSET_def)
  show thesis
  proof (rule dhcp_server_process_step [OF d c, of ticks allocated err tot_len])
    assume "dhcp_server_process ticks allocated err tot_len copied d = Some (d\<lparr>ds_request_count := ds_request_count d\<rparr>, [], None)"
    with ignored show thesis .
  next
    fix t
    assume p: "dhcp_server_process ticks allocated err tot_len copied d =
      dhcp_answer ticks allocated err d (received_msg d copied) (length copied - OPTIONS_OFFSET - 4) t"
    show thesis
      by (rule dhcp_answer_cases [OF d received_msg_wf [OF d c] len, of ticks allocated err t])
        (erule ignored [unfolded p] | erule (1) exhausted [unfolded p] | erule (2) offer [unfolded p]
          | erule (2) ack [unfolded p])+
  qed
qed

lemma received_options:
  assumes "DHCP_MIN_SIZE \<le> length copied" and "length copied \<le> 548"
  shows "take (length copied - OPTIONS_OFFSET - 4) (drop 4 (msg_options (received_msg d copied))) = drop 240 copied"
    and "client_mac (received_msg d copied) = take 6 (drop 28 copied)"
    and "msg_xid (received_msg d copied) = take 4 (drop 4 copied)"
    and "msg_chaddr (received_msg d copied) = take 16 (drop 28 copied)"
    and "msg_op (received_msg d copied) = 2" and "msg_yiaddr (received_msg d copied) = ds_ip d"
    and "take 4 (msg_options (received_msg d copied)) = take 4 (drop 236 copied)"
  using assms
  by (simp_all add: received_msg_def msg_of_bytes_def Let_def OPTIONS_OFFSET_def DHCP_MIN_SIZE_def MAC_LEN_def)

text \<open>A packet whose options name its type is answered according to it.\<close>

lemma dhcp_server_process_typed:
  assumes d: "ds_wf d" and c: "length copied \<le> 548" "DHCP_MIN_SIZE \<le> length copied" "DHCP_MIN_SIZE \<le> tot_len"
    and t: "map_of (options_of (drop 240 copied)) 53 = Some [t]"
  shows "dhcp_server_process ticks allocated err tot_len copied d =
    dhcp_answer ticks allocated err d (received_msg d copied) (length copied - OPTIONS_OFFSET - 4) t"
proof -
  let ?m = "received_msg d copied" and ?len = "length copied - OPTIONS_OFFSET - 4"
  have "length (msg_options ?m) = 312" using received_msg_wf [OF d c(1)] by (simp add: msg_wf_def)
  with c have len: "4 + ?len \<le> length (msg_options ?m)" by (simp add: OPTIONS_OFFSET_def)
  have big: "\<not> (tot_len < DHCP_MIN_SIZE \<or> length copied < DHCP_MIN_SIZE)" using c by simp
  note unf = dhcp_server_process_def [of ticks allocated err tot_len copied d, folded received_msg_def,
      unfolded Let_def, unfolded if_not_P [OF big]]
  show ?thesis
  proof (cases rule: opt_find_cases [OF len, of 53])
    case 1
    from 1(2) t show ?thesis unfolding received_options(1) [OF c(2,1)] by simp
  next
    case (2 p dat)
    from 2(2) t have dat: "dat = [t]" unfolding received_options(1) [OF c(2,1)] by simp
    with 2 have "msg_options ?m ! (p + 1) = 1" by (simp add: word_unat_eq_iff)
    moreover have "msg_options ?m ! (p + 2) = t"
      using 2 dat by (simp add: take_Suc_conv_app_nth numeral_eq_Suc)
    ultimately show ?thesis using 2 dat unf by simp
  qed
qed

text \<open>A request for an address that is free or already the client's own is granted.\<close>

lemma dhcp_request_granted:
  assumes d: "ds_wf d" and m: "msg_wf m" and len: "len \<le> 308" and yi: "yi < DHCPS_MAX_IP"
    and o: "map_of (options_of (take len (drop 4 (msg_options m)))) 50 =
      Some (take 3 (ds_ip d) @ [DHCPS_BASE_IP + of_nat yi])"
    and free: "lease_mac (ds_lease d ! yi) = client_mac m \<or> mac_free (lease_mac (ds_lease d ! yi))"
  shows "\<exists>lines. dhcp_answer ticks allocated err d m len 3 =
    Some (d\<lparr>ds_request_count := ds_request_count d + 1, ds_ack_count := ds_ack_count d + 1,
            ds_lease := (ds_lease d)[yi := \<lparr>lease_mac = client_mac m, lease_expiry = lease_end (ticks 0)\<rparr>]\<rparr>,
          lines, dhcp_reply allocated d m yi 5)"
proof -
  let ?ip = "take 3 (ds_ip d) @ [DHCPS_BASE_IP + of_nat yi]"
  have l: "length (ds_ip d) = 4" "length (ds_lease d) = DHCPS_MAX_IP" "length (msg_options m) = 312"
    "3 < length (msg_yiaddr m)"
    using d m by (simp_all add: ds_wf_def msg_wf_def)
  have fits: "4 + len \<le> length (msg_options m)" using l len by simp
  have n: "unat (of_nat yi :: u8) = yi" using yi by (simp add: unat_u8_of_nat DHCPS_MAX_IP_def)
  have ip: "requested_address m len = Some (Some ?ip)"
  proof (cases rule: opt_find_cases [OF fits, of 50])
    case 1
    with o show ?thesis by simp
  next
    case (2 p dat)
    with o l have "dat = ?ip" "msg_options m ! (p + 1) = 4" by (auto simp: word_unat_eq_iff)
    with 2 l show ?thesis by (simp add: requested_address_def)
  qed
  have nz: "?ip \<noteq> [0, 0, 0, 0]"
  proof
    assume "?ip = [0, 0, 0, 0]"
    then have "last ?ip = 0" by simp
    then have "unat (DHCPS_BASE_IP + of_nat yi :: u8) = 0" by simp
    with n yi show False by (simp add: unat_word_ariths DHCPS_BASE_IP_def DHCPS_MAX_IP_def)
  qed
  have third: "byte_at ?ip 3 = Some (DHCPS_BASE_IP + of_nat yi)" using l by (simp add: nth_append)
  from client_hostname_total [OF m len] obtain h where h: "client_hostname m len = Some h" by blast
  let ?d = "d\<lparr>ds_request_count := ds_request_count d + 1, ds_ack_count := ds_ack_count d + 1,
      ds_lease := (ds_lease d)[yi := \<lparr>lease_mac = client_mac m, lease_expiry = lease_end (ticks 0)\<rparr>]\<rparr>"
  have "\<exists>lines. dhcp_request (ticks 0) d m len = Some (?d, Some (answer_for d m yi 5, 7, lines))"
    using ip nz third h l n yi free write_type [OF m, of 5]
    by (simp add: dhcp_request_def answer_for_def Let_def)
  moreover from reply_step [OF d _ _ m, of ?d yi 5 allocated err] obtain options x where
    "reply_options ?d (msg_options (answer_for d m yi 5)) 7 = Some (options, 300)"
    "dhcp_socket_sendto allocated err (msg_bytes ((answer_for d m yi 5)\<lparr>msg_options := options\<rparr>)) 300 0xffffffff 68 =
      Some (x, dhcp_reply allocated d m yi 5)" by auto
  ultimately show ?thesis by (auto simp: dhcp_answer_def)
qed

section \<open>The end of a lease\<close>

lemma or_mask_eq_add:
  fixes x :: u32
  shows "\<exists>r. r < 2 ^ n \<and> x OR mask n = x + of_nat r"
proof -
  have "x OR mask n = x OR take_bit n (NOT x)"
    by (rule bit_eqI) (auto simp: bit_simps)
  also have "\<dots> = x + take_bit n (NOT x)"
    by (rule disjunctive_add [symmetric]) (auto simp: bit_simps)
  finally have "x OR mask n = x + of_nat (unat (take_bit n (NOT x)))" by simp
  moreover have "unat (take_bit n (NOT x)) < 2 ^ n" by (simp add: unsigned_take_bit_eq)
  ultimately show ?thesis by blast
qed

lemma lease_end_bounds:
  "\<exists>r. r \<le> 65535 \<and> push_bit 16 (ucast (lease_end now)) OR 0xffff = now + of_nat (86400000 + r)"
proof -
  have m: "(0xffff :: u32) = mask 16" by (simp add: mask_eq_exp_minus_1)
  have "push_bit 16 (ucast (lease_end now)) OR 0xffff = (now + of_nat (DEFAULT_LEASE_TIME_S * 1000)) OR mask 16"
    (is "_ = ?x OR _")
    unfolding m lease_end_def by (rule bit_eqI) (auto simp: bit_simps le_add_diff_inverse)
  moreover obtain r where "r < 2 ^ 16" and "?x OR mask 16 = ?x + of_nat r"
    using or_mask_eq_add [of 16 ?x] by blast
  ultimately show ?thesis
    by (intro exI [of _ r]) (simp add: DEFAULT_LEASE_TIME_S_def algebra_simps)
qed

lemma sint_of_nat_diff:
  assumes "a < 2 ^ 31" and "b \<le> 2 ^ 31"
  shows "sint (of_nat a - of_nat b :: u32) < 0 \<longleftrightarrow> a < b"
proof -
  have "(of_nat a - of_nat b :: u32) = word_of_int (int a - int b)" by simp
  moreover have "sint (word_of_int (int a - int b) :: u32) = int a - int b"
    using assms by (subst signed_of_int) (simp add: signed_take_bit_int_eq_self)
  ultimately show ?thesis by simp
qed

lemma lease_expired_after:
  assumes "lease_expiry l = lease_end now" and "t \<le> 2 ^ 31"
  shows "t \<le> 86400000 \<Longrightarrow> \<not> lease_expired (now + of_nat t) l"
    and "86400000 + 65535 < t \<Longrightarrow> lease_expired (now + of_nat t) l"
proof -
  from lease_end_bounds [of now] obtain r where r: "r \<le> 65535"
    "push_bit 16 (ucast (lease_end now)) OR 0xffff = now + of_nat (86400000 + r)" by blast
  have "lease_expired (now + of_nat t) l \<longleftrightarrow> sint (of_nat (86400000 + r) - of_nat t :: u32) < 0"
    unfolding lease_expired_def assms(1) r(2) by (simp add: algebra_simps)
  also have "\<dots> \<longleftrightarrow> 86400000 + r < t"
    using r(1) assms(2) by (intro sint_of_nat_diff) simp_all
  finally have "lease_expired (now + of_nat t) l \<longleftrightarrow> 86400000 + r < t" .
  with r(1) show "t \<le> 86400000 \<Longrightarrow> \<not> lease_expired (now + of_nat t) l"
    "86400000 + 65535 < t \<Longrightarrow> lease_expired (now + of_nat t) l" by simp_all
qed

section \<open>Any sequence of packets\<close>

record dhcp_packet =
  pk_ticks :: "nat \<Rightarrow> u32"
  pk_allocated :: bool
  pk_err :: int
  pk_tot_len :: nat
  pk_copied :: "u8 list"

definition dhcp_receive :: "dhcp_packet \<Rightarrow> dhcp_server \<Rightarrow> dhcp_server option" where
  "dhcp_receive p d =
     map_option fst (dhcp_server_process (pk_ticks p) (pk_allocated p) (pk_err p) (pk_tot_len p) (pk_copied p) d)"

lemma ds_wf_init: "length ip = 4 \<Longrightarrow> length nm = 4 \<Longrightarrow> ds_wf (dhcp_server_init created ip nm d)"
  by (simp add: ds_wf_def dhcp_server_init_def)

lemma ds_wf_offer:
  assumes "ds_wf d" and "offer_result ticks mac 0 DHCPS_MAX_IP (ds_lease d) yi leases"
  shows "ds_wf (d\<lparr>ds_discover_count := n, ds_lease := leases\<rparr>)"
proof -
  have "length (lease_mac (leases ! j)) = MAC_LEN" if "j < DHCPS_MAX_IP" for j
    using assms that by (auto simp: offer_result_def ds_wf_def in_set_conv_nth dest!: spec [of _ j])
  then show ?thesis using assms by (auto simp: offer_result_def ds_wf_def in_set_conv_nth)
qed

lemma ds_wf_granted:
  assumes "ds_wf d" and "msg_wf m" and "n = MAC_LEN"
  shows "ds_wf (d\<lparr>ds_request_count := a, ds_ack_count := b,
    ds_lease := (ds_lease d)[yi := \<lparr>lease_mac = take n (msg_chaddr m), lease_expiry = e\<rparr>]\<rparr>)"
  using assms by (auto simp: ds_wf_def msg_wf_def MAC_LEN_def dest!: subsetD [OF set_update_subset_insert])

lemma dhcp_receive_ok:
  assumes d: "ds_wf d" and c: "length (pk_copied p) \<le> 548"
  shows "\<exists>d'. dhcp_receive p d = Some d' \<and> ds_wf d'"
proof (rule dhcp_server_process_cases [OF d c, of "pk_ticks p" "pk_allocated p" "pk_err p" "pk_tot_len p"])
  fix n
  assume "dhcp_server_process (pk_ticks p) (pk_allocated p) (pk_err p) (pk_tot_len p) (pk_copied p) d =
    Some (d\<lparr>ds_request_count := n\<rparr>, [], None)"
  then show ?thesis using d by (simp add: dhcp_receive_def ds_wf_def)
qed (use ds_wf_offer [OF d] ds_wf_granted [OF d received_msg_wf [OF d c]] in \<open>auto simp: dhcp_receive_def\<close>)

interpretation dhcp_packets: event_system dhcp_receive "\<lambda>_ p. length (pk_copied p) \<le> 548" ds_wf
  by unfold_locales (rule dhcp_receive_ok)

section \<open>An example\<close>

definition demo_server :: dhcp_server where
  "demo_server = dhcp_server_init True [192, 168, 4, 1] [255, 255, 255, 0]
     \<lparr>ds_ip = [], ds_nm = [], ds_lease = [], ds_udp = False,
      ds_discover_count = 0, ds_request_count = 0, ds_ack_count = 0\<rparr>"

text \<open>A packet of the client \<open>mac\<close> with the given options.\<close>

definition demo_packet :: "u8 list \<Rightarrow> (u8 \<times> u8 list) list \<Rightarrow> u8 list" where
  "demo_packet mac os =
     [1, 1, 6, 0, 0xde, 0xad, 0xbe, 0xef] @ replicate 20 0 @ mac @ replicate 10 0 @ replicate 192 0 @
     [99, 130, 83, 99] @ concat (map encode_option os) @ [255]"

abbreviation "demo_mac \<equiv> [2, 0, 0, 0, 0, 1] :: u8 list"
abbreviation "demo_discover \<equiv> demo_packet demo_mac [(53, [1])]"
abbreviation "demo_request \<equiv> demo_packet demo_mac [(53, [3]), (50, [192, 168, 4, 16])]"

text \<open>The server after the request was granted.\<close>

definition demo_granted :: dhcp_server where
  "demo_granted = demo_server\<lparr>ds_request_count := 1, ds_ack_count := 1,
     ds_lease := (ds_lease demo_server)[0 := \<lparr>lease_mac = [2, 0, 0, 0, 0, 1], lease_expiry = lease_end 5000\<rparr>]\<rparr>"

lemma demo_mac_free: "\<not> mac_free [2, 0, 0, 0, 0, 1]"
  by (simp add: mac_free_def MAC_LEN_def numeral_eq_Suc)

lemma demo_server_wf: "ds_wf demo_server"
  by (simp add: demo_server_def ds_wf_init)


lemma demo_packet_options:
  "length mac = 6 \<Longrightarrow> list_all option_ok os \<Longrightarrow> options_of (drop 240 (demo_packet mac os)) = os"
  using options_of_encode [of os "[]"] by (simp add: demo_packet_def)

lemma demo_packet_size: "length mac = 6 \<Longrightarrow> length (demo_packet mac os) = 241 + length (concat (map encode_option os))"
  by (simp add: demo_packet_def)

lemma demo_packet_mac: "length mac = 6 \<Longrightarrow> take 6 (drop 28 (demo_packet mac os)) = mac"
  by (simp add: demo_packet_def)

lemmas demo_simps = demo_packet_options demo_packet_size demo_packet_mac option_ok_def encode_option_def

lemma reply_payload_fields:
  fixes yi :: nat and t :: u8
  assumes d: "ds_wf d" and c: "DHCP_MIN_SIZE \<le> length copied" "length copied \<le> 548"
  defines "p \<equiv> reply_payload d (received_msg d copied) yi t"
  shows "take 1 p = [2]" and "take 4 (drop 4 p) = take 4 (drop 4 copied)"
    and "take 4 (drop 16 p) = take 3 (ds_ip d) @ [DHCPS_BASE_IP + of_nat yi]"
    and "take 16 (drop 28 p) = take 16 (drop 28 copied)"
    and "options_of (drop 240 p) = (53, [t]) # standard_options d" and "length p = 300"
proof -
  let ?m = "received_msg d copied"
  note wf = received_msg_wf [OF d c(2)]
  have ip: "length (ds_ip d) = 4" "length (ds_nm d) = 4" using d by (simp_all add: ds_wf_def)
  then have upd: "(ds_ip d)[3 := DHCPS_BASE_IP + of_nat yi] = take 3 (ds_ip d) @ [DHCPS_BASE_IP + of_nat yi]"
    by (simp add: upd_conv_take_nth_drop)
  show "take 1 p = [2]" by (simp add: p_def reply_payload_def msg_bytes_def received_options [OF c])
  show "take 4 (drop 4 p) = take 4 (drop 4 copied)"
    using wf received_options(3) [OF c] by (simp add: p_def reply_payload_def msg_bytes_def msg_wf_def)
  show "take 4 (drop 16 p) = take 3 (ds_ip d) @ [DHCPS_BASE_IP + of_nat yi]"
    using wf ip received_options(6) [OF c] by (simp add: p_def reply_payload_def msg_bytes_def msg_wf_def upd)
  show "take 16 (drop 28 p) = take 16 (drop 28 copied)"
    using wf received_options(4) [OF c] by (simp add: p_def reply_payload_def msg_bytes_def msg_wf_def)
  have "drop 240 p = concat (map encode_option ((53, [t]) # standard_options d)) @ 255 # replicate 26 0"
    using wf by (simp add: p_def reply_payload_def msg_bytes_def msg_wf_def)
  moreover have "list_all option_ok ((53, [t]) # standard_options d)"
    using ip by (simp add: option_ok_def standard_options_def)
  ultimately show "options_of (drop 240 p) = (53, [t]) # standard_options d"
    using options_of_encode by metis
  show "length p = 300"
    using reply_sent [OF d refl refl wf, of yi t] unfolding p_def by blast
qed

text \<open>What a sent reply says about the packet it answers.\<close>

lemma dhcp_server_process_sent:
  assumes d: "ds_wf d" and c: "length copied \<le> 548"
    and p: "dhcp_server_process ticks allocated err tot_len copied d = Some (d', lines, Some dg)"
  obtains yi t where "yi < DHCPS_MAX_IP" and "t = 2 \<or> t = 5" and "DHCP_MIN_SIZE \<le> length copied"
    and "dg = \<lparr>dg_dest = [255, 255, 255, 255], dg_port = 68, dg_payload = reply_payload d (received_msg d copied) yi t\<rparr>"
    and "t = 2 \<Longrightarrow> offer_result ticks (client_mac (received_msg d copied)) 0 DHCPS_MAX_IP (ds_lease d) yi (ds_lease d')"
    and "t = 5 \<Longrightarrow> (lease_mac (ds_lease d ! yi) = client_mac (received_msg d copied) \<or> mac_free (lease_mac (ds_lease d ! yi))) \<and>
      ds_lease d' = (ds_lease d)[yi := \<lparr>lease_mac = client_mac (received_msg d copied), lease_expiry = lease_end (ticks 0)\<rparr>]"
    and "ds_ip d' = ds_ip d" and "ds_nm d' = ds_nm d"
proof -
  have big: "DHCP_MIN_SIZE \<le> length copied"
    using p by (auto simp: dhcp_server_process_def Let_def split: if_splits)
  note ret = that [OF _ _ big]
  show thesis
  proof (rule dhcp_server_process_cases [OF d c, of ticks allocated err tot_len], goal_cases)
    case (1 n)
    with p show ?case by simp
  next
    case (2 leases)
    with p show ?case by simp
  next
    case (3 yi leases ls)
    with p show ?case by (intro ret [of yi 2]) (auto simp: dhcp_reply_def split: if_splits)
  next
    case (4 yi ls)
    with p show ?case by (intro ret [of yi 5]) (auto simp: dhcp_reply_def split: if_splits)
  qed
qed

section \<open>Properties\<close>

text \<open>
  No packet makes the server leave the bounds of an object: after \<open>dhcp_server_init\<close>, every
  sequence of packets - of any content and length, since \<open>pbuf_copy_partial\<close> delivers at most the 548
  bytes of the structure - is processed to the end, and keeps eight leases of six-byte hardware
  addresses.
\<close>

theorem dhcp_packets_memory_safe:
  assumes "length ip = 4" and "length nm = 4" and "\<forall>p\<in>set packets. length (pk_copied p) \<le> 548"
  shows "\<exists>d'. run_events dhcp_receive packets (dhcp_server_init created ip nm d) = Some d' \<and> ds_wf d'"
proof (rule dhcp_packets.run_progress [OF ds_wf_init [OF assms(1,2)]])
  show "allowed_run dhcp_receive (\<lambda>_ p. length (pk_copied p) \<le> 548) packets (dhcp_server_init created ip nm d)"
    using assms(3) by (rule allowed_run_all)
qed

theorem dhcp_packets_memory_safe_witness:
  "\<exists>d'. run_events dhcp_receive
      [\<lparr>pk_ticks = \<lambda>_. 5000, pk_allocated = True, pk_err = 0, pk_tot_len = 244, pk_copied = demo_discover\<rparr>,
       \<lparr>pk_ticks = \<lambda>_. 6000, pk_allocated = True, pk_err = 0, pk_tot_len = 600, pk_copied = replicate 548 255\<rparr>]
      (dhcp_server_init True [192, 168, 4, 1] [255, 255, 255, 0] demo_server) = Some d' \<and> ds_wf d'"
  by (rule dhcp_packets_memory_safe) (simp_all add: demo_simps)

text \<open>
  The position-based search of the code finds exactly what a reader of the option list finds:
  \<open>NULL\<close> when no option has the code, else the first one with it, whose data lies inside the field; and
  the list that was encoded is the list that is read.
\<close>

theorem opt_find_finds_first:
  assumes "opt + len \<le> length buf"
  shows "(case map_of (options_of (take len (drop opt buf))) cmd of
      None \<Rightarrow> opt_find buf opt len cmd = Some None
    | Some dat \<Rightarrow> \<exists>p. opt_find buf opt len cmd = Some (Some p) \<and> opt \<le> p \<and> p + 2 + length dat \<le> opt + len \<and>
        buf ! p = cmd \<and> unat (buf ! (p + 1)) = length dat \<and> take (length dat) (drop (p + 2) buf) = dat) \<and>
    (list_all option_ok os \<longrightarrow> options_of (concat (map encode_option os) @ 255 # rest) = os)"
  using opt_find_from_spec [OF assms, of cmd 0] options_of_encode [of os rest]
  by (auto simp: opt_find_def find_map_of split: option.splits)

theorem opt_find_finds_first_witness:
  "\<exists>p. opt_find [99, 130, 83, 99, 0, 53, 1, 3, 255] 4 5 53 = Some (Some p) \<and>
     [99, 130, 83, 99, 0, 53, 1, 3, 255] ! p = (53 :: u8)"
  using opt_find_finds_first [of 4 5 "[99, 130, 83, 99, 0, 53, 1, 3, 255]" 53 "[]" "[]"] by auto



lemma demo_request_answer:
  "\<exists>lines. dhcp_server_process (\<lambda>_. 5000) True 0 300 demo_request demo_server =
    Some (demo_granted, lines, dhcp_reply True demo_server (received_msg demo_server demo_request) 0 5)"
proof -
  have s: "length demo_request = 250" by (simp add: demo_simps)
  have c: "length demo_request \<le> 548" "DHCP_MIN_SIZE \<le> length demo_request" "DHCP_MIN_SIZE \<le> 300"
    unfolding s by (simp_all add: DHCP_MIN_SIZE_def)
  have o: "options_of (drop 240 demo_request) = [(53, [3]), (50, [192, 168, 4, 16])]" by (simp add: demo_simps)
  let ?m = "received_msg demo_server demo_request"
  have mac: "client_mac ?m = demo_mac"
    using received_options(2) [OF c(2,1)] by (simp add: demo_simps)
  have l: "ds_lease demo_server ! 0 = \<lparr>lease_mac = replicate MAC_LEN 0, lease_expiry = 0\<rparr>" "take 3 (ds_ip demo_server) = [192, 168, 4]"
    "ds_request_count demo_server = 0" "ds_ack_count demo_server = 0"
    by (simp_all add: demo_server_def dhcp_server_init_def DHCPS_MAX_IP_def)
  have "dhcp_server_process (\<lambda>_. 5000) True 0 300 demo_request demo_server =
      dhcp_answer (\<lambda>_. 5000) True 0 demo_server ?m (length demo_request - OPTIONS_OFFSET - 4) 3"
    by (rule dhcp_server_process_typed [OF demo_server_wf c]) (simp add: o)
  moreover have "map_of (options_of (take (length demo_request - OPTIONS_OFFSET - 4) (drop 4 (msg_options ?m)))) 50 =
      Some (take 3 (ds_ip demo_server) @ [DHCPS_BASE_IP + of_nat 0])"
    unfolding received_options(1) [OF c(2,1)] o l by (simp add: DHCPS_BASE_IP_def)
  ultimately show ?thesis
    using dhcp_request_granted [OF demo_server_wf received_msg_wf [OF demo_server_wf c(1)], of "length demo_request - OPTIONS_OFFSET - 4" 0 "\<lambda>_. 5000" True 0]
    by (simp add: s OPTIONS_OFFSET_def DHCPS_MAX_IP_def l mac mac_free_def demo_granted_def)
qed

lemma demo_granted_wf: "ds_wf demo_granted"
proof -
  have "\<exists>d'. dhcp_receive \<lparr>pk_ticks = \<lambda>_. 5000, pk_allocated = True, pk_err = 0, pk_tot_len = 300, pk_copied = demo_request\<rparr>
      demo_server = Some d' \<and> ds_wf d'"
    by (rule dhcp_receive_ok [OF demo_server_wf]) (simp add: demo_simps)
  with demo_request_answer show ?thesis by (auto simp: dhcp_receive_def)
qed


text \<open>
  C17. The lease of another client is safe while it lasts: a packet from a client with a different
  hardware address neither changes the entry nor is offered or granted that address.
\<close>

theorem dhcp_lease_exclusive:
  assumes "ds_wf d" and "length copied \<le> 548" and "j < DHCPS_MAX_IP"
    and "dhcp_server_process ticks allocated err tot_len copied d = Some (d', lines, sent)"
    and "held_by_other (ticks j) (take 6 (drop 28 copied)) (ds_lease d ! j)"
  shows "ds_lease d' ! j = ds_lease d ! j \<and>
    (\<forall>dg. sent = Some dg \<longrightarrow> take 4 (drop 16 (dg_payload dg)) \<noteq> take 3 (ds_ip d) @ [DHCPS_BASE_IP + of_nat j])"
proof (cases "DHCP_MIN_SIZE \<le> length copied")
  case False
  with assms(4) show ?thesis by (auto simp: dhcp_server_process_def Let_def)
next
  case big: True
  have held: "held_by_other (ticks j) (client_mac (received_msg d copied)) (ds_lease d ! j)"
    using assms(5) received_options(2) [OF big assms(2)] by simp
  have j: "j < length (ds_lease d)" using assms(1,3) by (simp add: ds_wf_def)
  have ne: "take 4 (drop 16 (reply_payload d (received_msg d copied) yi t)) \<noteq> take 3 (ds_ip d) @ [DHCPS_BASE_IP + of_nat j]"
    if "yi < DHCPS_MAX_IP" "yi \<noteq> j" for yi t
    using that assms(3) unfolding reply_payload_fields(3) [OF assms(1) big assms(2)]
    by (auto simp: DHCPS_MAX_IP_def dest: arg_cong [of _ _ unat] simp: unat_u8_of_nat)
  show ?thesis
  proof (rule dhcp_server_process_cases [OF assms(1,2), of ticks allocated err tot_len], goal_cases)
    case (1 n)
    with assms(4) show ?case by auto
  next
    case (2 leases)
    with assms(3,4) held show ?case by (auto simp: offer_result_def held_by_other_def)
  next
    case (3 yi leases ls)
    then have "yi \<noteq> j" using held by (auto simp: offer_result_def)
    with 3 assms(3,4) held ne [OF 3(3)] show ?case
      by (auto simp: offer_result_def held_by_other_def dhcp_reply_def split: if_splits)
  next
    case (4 yi ls)
    then have "yi \<noteq> j" using held by (auto simp: held_by_other_def)
    with 4 assms(4) j ne [OF 4(2)] show ?case by (auto simp: dhcp_reply_def split: if_splits)
  qed
qed

theorem dhcp_lease_exclusive_witness:
  "\<exists>d' lines sent. dhcp_server_process (\<lambda>_. 86405000) True 0 244 (demo_packet [2, 0, 0, 0, 0, 2] [(53, [1])]) demo_granted =
     Some (d', lines, sent) \<and> lease_mac (ds_lease d' ! 0) = demo_mac"
proof -
  let ?p = "demo_packet [2, 0, 0, 0, 0, 2] [(53, [1])]"
  have c: "length ?p \<le> 548" by (simp add: demo_simps)
  from dhcp_receive_ok [OF demo_granted_wf, of "\<lparr>pk_ticks = \<lambda>_. 86405000, pk_allocated = True, pk_err = 0, pk_tot_len = 244, pk_copied = ?p\<rparr>"] c
  obtain d' lines sent where p: "dhcp_server_process (\<lambda>_. 86405000) True 0 244 ?p demo_granted = Some (d', lines, sent)"
    by (auto simp: dhcp_receive_def)
  have l: "ds_lease demo_granted ! 0 = \<lparr>lease_mac = demo_mac, lease_expiry = lease_end 5000\<rparr>"
    by (simp add: demo_granted_def demo_server_def dhcp_server_init_def DHCPS_MAX_IP_def)
  have "\<not> lease_expired (5000 + of_nat 86400000) (ds_lease demo_granted ! 0)"
    by (rule lease_expired_after) (simp_all add: l)
  then have "held_by_other 86405000 [2, 0, 0, 0, 0, 2] (ds_lease demo_granted ! 0)"
    by (simp add: held_by_other_def l demo_mac_free)
  then have "held_by_other ((\<lambda>_. 86405000) 0) (take 6 (drop 28 ?p)) (ds_lease demo_granted ! 0)"
    by (simp add: demo_simps)
  from dhcp_lease_exclusive [OF demo_granted_wf c _ p this] p l show ?thesis by (auto simp: DHCPS_MAX_IP_def)
qed

text \<open>
  C16. What was offered is granted: a client that asks for the address it was offered - the next packet
  the server processes, from the same hardware address, names it in option 50 - gets an acknowledgement
  for that address, and the lease is entered under its hardware address.
\<close>

theorem dhcp_offer_is_granted:
  assumes "ds_wf d" and "length off \<le> 548" and "length req \<le> 548"
    and "dhcp_server_process ticks allocated err tot_len off d = Some (d1, lines, Some dg)"
    and "map_of (options_of (drop 240 (dg_payload dg))) 53 = Some [2]"
    and "DHCP_MIN_SIZE \<le> length req" and "DHCP_MIN_SIZE \<le> tot_len'"
    and "take 6 (drop 28 req) = take 6 (drop 28 off)"
    and "map_of (options_of (drop 240 req)) 53 = Some [3]"
    and "map_of (options_of (drop 240 req)) 50 = Some (take 4 (drop 16 (dg_payload dg)))"
  shows "\<exists>d2 lines' dg' yi. dhcp_server_process ticks' True err' tot_len' req d1 = Some (d2, lines', Some dg') \<and>
    yi < DHCPS_MAX_IP \<and> ds_lease d2 ! yi = \<lparr>lease_mac = take 6 (drop 28 off), lease_expiry = lease_end (ticks' 0)\<rparr> \<and>
    map_of (options_of (drop 240 (dg_payload dg'))) 53 = Some [5] \<and>
    take 4 (drop 16 (dg_payload dg')) = take 4 (drop 16 (dg_payload dg))"
proof (rule dhcp_server_process_sent [OF assms(1,2,4)])
  fix yi and t :: u8
  assume r: "yi < DHCPS_MAX_IP" "t = 2 \<or> t = 5" "DHCP_MIN_SIZE \<le> length off"
    "dg = \<lparr>dg_dest = [255, 255, 255, 255], dg_port = 68, dg_payload = reply_payload d (received_msg d off) yi t\<rparr>"
    "t = 2 \<Longrightarrow> offer_result ticks (client_mac (received_msg d off)) 0 DHCPS_MAX_IP (ds_lease d) yi (ds_lease d1)"
    and same: "ds_ip d1 = ds_ip d" "ds_nm d1 = ds_nm d"
  note f = reply_payload_fields [OF assms(1) r(3) assms(2), of yi t]
  have t: "t = 2" using assms(5) f(5) by (simp add: r(4))
  have addr: "take 4 (drop 16 (dg_payload dg)) = take 3 (ds_ip d1) @ [DHCPS_BASE_IP + of_nat yi]"
    using f(3) by (simp add: r(4) same)
  obtain d1wf: "ds_wf d1"
    using dhcp_receive_ok [OF assms(1), of "\<lparr>pk_ticks = ticks, pk_allocated = allocated, pk_err = err, pk_tot_len = tot_len, pk_copied = off\<rparr>"]
      assms(2,4) by (auto simp: dhcp_receive_def)
  let ?m = "received_msg d1 req" and ?len = "length req - OPTIONS_OFFSET - 4"
  have mac: "client_mac ?m = take 6 (drop 28 off)" "client_mac (received_msg d off) = take 6 (drop 28 off)"
    using received_options(2) [OF assms(6,3), of d1] received_options(2) [OF r(3) assms(2), of d] assms(8) by simp_all
  have own: "lease_mac (ds_lease d1 ! yi) = client_mac ?m \<or> mac_free (lease_mac (ds_lease d1 ! yi))"
    using r(1) r(5) [OF t] unfolding mac by (auto simp: offer_result_def)
  have len: "?len \<le> 308" using assms(3) by (simp add: OPTIONS_OFFSET_def)
  have o: "map_of (options_of (take ?len (drop 4 (msg_options ?m)))) 50 =
      Some (take 3 (ds_ip d1) @ [DHCPS_BASE_IP + of_nat yi])"
    using assms(10) unfolding received_options(1) [OF assms(6,3)] addr .
  let ?d2 = "d1\<lparr>ds_request_count := ds_request_count d1 + 1, ds_ack_count := ds_ack_count d1 + 1,
      ds_lease := (ds_lease d1)[yi := \<lparr>lease_mac = client_mac ?m, lease_expiry = lease_end (ticks' 0)\<rparr>]\<rparr>"
  from dhcp_request_granted [OF d1wf received_msg_wf [OF d1wf assms(3)] len r(1) o own, of ticks' True err'] obtain ls where
    p: "dhcp_server_process ticks' True err' tot_len' req d1 = Some (?d2, ls, dhcp_reply True d1 ?m yi 5)"
    unfolding dhcp_server_process_typed [OF d1wf assms(3,6,7,9)] by blast
  note g = reply_payload_fields [OF d1wf assms(6,3), of yi 5]
  have "yi < length (ds_lease d1)" using d1wf r(1) by (simp add: ds_wf_def)
  with p g(3,5) r(1) mac addr same show ?thesis
    by (auto simp: dhcp_reply_def)
qed

lemma demo_offer: "offer_loop (\<lambda>_. 5000) demo_mac 0 DHCPS_MAX_IP (ds_lease demo_server) = Some (0, ds_lease demo_server)"
proof -
  have l: "ds_lease demo_server = replicate 8 \<lparr>lease_mac = replicate MAC_LEN 0, lease_expiry = 0\<rparr>"
    by (simp add: demo_server_def dhcp_server_init_def DHCPS_MAX_IP_def)
  have e: "\<not> lease_expired 5000 \<lparr>lease_mac = replicate MAC_LEN 0, lease_expiry = 0\<rparr>"
    by (simp add: lease_expired_def)
  have f: "mac_free (replicate MAC_LEN 0)" "replicate MAC_LEN 0 \<noteq> demo_mac"
    using demo_mac_free by (auto simp: mac_free_def)
  show ?thesis using e f by (simp add: l DHCPS_MAX_IP_def offer_loop.simps)
qed

lemma demo_discover_answer:
  "\<exists>lines. dhcp_server_process (\<lambda>_. 5000) True 0 300 demo_discover demo_server =
    Some (demo_server\<lparr>ds_discover_count := 1\<rparr>, lines, dhcp_reply True demo_server (received_msg demo_server demo_discover) 0 2)"
proof -
  let ?m = "received_msg demo_server demo_discover" and ?d = "demo_server\<lparr>ds_discover_count := 1\<rparr>"
  have c: "length demo_discover \<le> 548" "DHCP_MIN_SIZE \<le> length demo_discover" "DHCP_MIN_SIZE \<le> 300"
    by (simp_all add: demo_simps DHCP_MIN_SIZE_def)
  note m = received_msg_wf [OF demo_server_wf c(1)]
  have mac: "client_mac ?m = demo_mac"
    using received_options(2) [OF c(2,1)] by (simp add: demo_simps)
  have t: "map_of (options_of (drop 240 demo_discover)) 53 = Some [1]" by (simp add: demo_simps)
  have n: "ds_discover_count demo_server = 0" by (simp add: demo_server_def dhcp_server_init_def)
  have y: "3 < length (msg_yiaddr ?m)" using m by (simp add: msg_wf_def)
  have "\<exists>lines. dhcp_discover (\<lambda>_. 5000) demo_server ?m = Some (?d, Some (answer_for demo_server ?m 0 2, 7, lines))"
    using demo_offer y write_type [OF m, of 2]
    by (simp add: dhcp_discover_def mac n answer_for_def DHCPS_MAX_IP_def Let_def)
  moreover from reply_step [OF demo_server_wf _ _ m, of ?d 0 2 True 0] obtain options x where
    "reply_options ?d (msg_options (answer_for demo_server ?m 0 2)) 7 = Some (options, 300)"
    "dhcp_socket_sendto True 0 (msg_bytes ((answer_for demo_server ?m 0 2)\<lparr>msg_options := options\<rparr>)) 300 0xffffffff 68 =
      Some (x, dhcp_reply True demo_server ?m 0 2)" by auto
  ultimately show ?thesis
    unfolding dhcp_server_process_typed [OF demo_server_wf c t] by (auto simp: dhcp_answer_def)
qed

theorem dhcp_offer_is_granted_witness:
  "\<exists>d1 lines dg d2 lines' dg'.
     dhcp_server_process (\<lambda>_. 5000) True 0 300 demo_discover demo_server = Some (d1, lines, Some dg) \<and>
     dhcp_server_process (\<lambda>_. 5100) True 0 300 demo_request d1 = Some (d2, lines', Some dg') \<and>
     take 4 (drop 16 (dg_payload dg')) = take 4 (drop 16 (dg_payload dg))"
proof -
  let ?d = "demo_server\<lparr>ds_discover_count := 1\<rparr>"
  from demo_discover_answer obtain lines dg where
    p: "dhcp_server_process (\<lambda>_. 5000) True 0 300 demo_discover demo_server = Some (?d, lines, Some dg)"
    and dg: "dg_payload dg = reply_payload demo_server (received_msg demo_server demo_discover) 0 2"
    by (auto simp: dhcp_reply_def)
  have c: "length demo_discover \<le> 548" "DHCP_MIN_SIZE \<le> length demo_discover"
    "length demo_request \<le> 548" "DHCP_MIN_SIZE \<le> length demo_request" "DHCP_MIN_SIZE \<le> 300"
    by (simp_all add: demo_simps DHCP_MIN_SIZE_def)
  note f = reply_payload_fields [OF demo_server_wf c(2,1), of 0 2, folded dg]
  have t: "map_of (options_of (drop 240 (dg_payload dg))) 53 = Some [2]" by (simp add: f(5))
  have a: "take 4 (drop 16 (dg_payload dg)) = [192, 168, 4, 16]"
    by (simp add: f(3) demo_server_def dhcp_server_init_def DHCPS_BASE_IP_def)
  have o: "options_of (drop 240 demo_request) = [(53, [3]), (50, [192, 168, 4, 16])]" by (simp add: demo_simps)
  from dhcp_offer_is_granted [OF demo_server_wf c(1,3) p t c(4,5), of "\<lambda>_. 5100" 0] p a o
  show ?thesis by (simp add: demo_simps) blast
qed

text \<open>
  C19. A granted lease lasts a day: with an acknowledgement the entry of the granted address belongs to
  the client, is not expired at any clock reading within the 24 hours that the reply promises - also
  when the millisecond counter wraps around - and is expired at every reading from 65.6 seconds later
  until half a turn of the counter.
\<close>

theorem dhcp_lease_lasts_a_day:
  assumes "ds_wf d" and "length copied \<le> 548"
    and "dhcp_server_process ticks allocated err tot_len copied d = Some (d', lines, Some dg)"
    and "map_of (options_of (drop 240 (dg_payload dg))) 53 = Some [5]"
  shows "\<exists>yi<DHCPS_MAX_IP. take 4 (drop 16 (dg_payload dg)) = take 3 (ds_ip d) @ [DHCPS_BASE_IP + of_nat yi] \<and>
    lease_mac (ds_lease d' ! yi) = take 6 (drop 28 copied) \<and>
    (\<forall>t \<le> 86400000. \<not> lease_expired (ticks 0 + of_nat t) (ds_lease d' ! yi)) \<and>
    (\<forall>t. 86400000 + 65535 < t \<and> t \<le> 2 ^ 31 \<longrightarrow> lease_expired (ticks 0 + of_nat t) (ds_lease d' ! yi))"
proof (rule dhcp_server_process_sent [OF assms(1-3)])
  fix yi and t :: u8
  assume r: "yi < DHCPS_MAX_IP" "DHCP_MIN_SIZE \<le> length copied"
    "dg = \<lparr>dg_dest = [255, 255, 255, 255], dg_port = 68, dg_payload = reply_payload d (received_msg d copied) yi t\<rparr>"
    "t = 5 \<Longrightarrow> (lease_mac (ds_lease d ! yi) = client_mac (received_msg d copied) \<or> mac_free (lease_mac (ds_lease d ! yi))) \<and>
      ds_lease d' = (ds_lease d)[yi := \<lparr>lease_mac = client_mac (received_msg d copied), lease_expiry = lease_end (ticks 0)\<rparr>]"
  note f = reply_payload_fields [OF assms(1) r(2) assms(2), of yi t]
  have t: "t = 5" using assms(4) f(5) by (simp add: r(3))
  have "yi < length (ds_lease d)" using assms(1) r(1) by (simp add: ds_wf_def)
  with r(4) [OF t] have l: "ds_lease d' ! yi = \<lparr>lease_mac = take 6 (drop 28 copied), lease_expiry = lease_end (ticks 0)\<rparr>"
    by (simp add: received_options(2) [OF r(2) assms(2)])
  show ?thesis
    using r(1,3) f(3) lease_expired_after [of "ds_lease d' ! yi" "ticks 0"] l by auto
qed

theorem dhcp_lease_lasts_a_day_witness:
  "\<exists>d' lines dg. dhcp_server_process (\<lambda>_. 5000) True 0 300 demo_request demo_server = Some (d', lines, Some dg) \<and>
     (\<exists>yi<8. lease_mac (ds_lease d' ! yi) = demo_mac \<and> \<not> lease_expired 60005000 (ds_lease d' ! yi))"
proof -
  from demo_request_answer obtain lines dg where
    p: "dhcp_server_process (\<lambda>_. 5000) True 0 300 demo_request demo_server = Some (demo_granted, lines, Some dg)"
    and dg: "dg_payload dg = reply_payload demo_server (received_msg demo_server demo_request) 0 5"
    by (auto simp: dhcp_reply_def)
  have c: "length demo_request \<le> 548" "DHCP_MIN_SIZE \<le> length demo_request"
    by (simp_all add: demo_simps DHCP_MIN_SIZE_def)
  have "map_of (options_of (drop 240 (dg_payload dg))) 53 = Some [5]"
    unfolding dg reply_payload_fields(5) [OF demo_server_wf c(2,1)] by simp
  from dhcp_lease_lasts_a_day [OF demo_server_wf c(1) p this] obtain yi where
    y: "yi < 8" "lease_mac (ds_lease demo_granted ! yi) = demo_mac"
    "\<forall>t \<le> 86400000. \<not> lease_expired (5000 + of_nat t) (ds_lease demo_granted ! yi)"
    by (auto simp: DHCPS_MAX_IP_def demo_simps)
  from y(3) [rule_format, of 60000000] y(1,2) p show ?thesis by auto
qed

end
