(* ===== verification/Usb_Descriptors.thy ===== *)
theory Usb_Descriptors
  imports Prelude
begin

unbundle bit_operations_syntax

text \<open>
  \<open>src/usb/usb_descriptors.c\<close>: what the device tells the host about itself. The macros of TinyUSB that
  expand to descriptor bytes are a parameter, a record of functions, and so is the serial number
  that \<open>board_usb_get_serial\<close> writes, as sixteen-bit units. \<open>None\<close> is an access outside an array or
  through a null pointer.
\<close>

section \<open>Device and configuration\<close>

definition ITF_NUM_HID :: nat where "ITF_NUM_HID = 0"
definition ITF_NUM_CDC :: nat where "ITF_NUM_CDC = 1"
definition ITF_NUM_TOTAL :: nat where "ITF_NUM_TOTAL = 3"

definition STRID_LANGID :: u8 where "STRID_LANGID = 0"
definition STRID_MANUFACTURER :: u8 where "STRID_MANUFACTURER = 1"
definition STRID_PRODUCT :: u8 where "STRID_PRODUCT = 2"
definition STRID_SERIAL :: u8 where "STRID_SERIAL = 3"

definition TUSB_DESC_DEVICE :: u8 where "TUSB_DESC_DEVICE = 0x01"
definition TUSB_DESC_STRING :: u16 where "TUSB_DESC_STRING = 0x03"
definition CFG_TUD_ENDPOINT0_SIZE :: u8 where "CFG_TUD_ENDPOINT0_SIZE = 64"
definition CFG_TUD_HID_EP_BUFSIZE :: nat where "CFG_TUD_HID_EP_BUFSIZE = 16"

record usb_device_descriptor =
  bLength :: u8
  bDescriptorType :: u8
  bcdUSB :: u16
  bDeviceClass :: u8
  bDeviceSubClass :: u8
  bDeviceProtocol :: u8
  bMaxPacketSize0 :: u8
  idVendor :: u16
  idProduct :: u16
  bcdDevice :: u16
  iManufacturer :: u8
  iProduct :: u8
  iSerialNumber :: u8
  bNumConfigurations :: u8

definition device_descriptor :: usb_device_descriptor where
  "device_descriptor =
     \<lparr>bLength = 18, bDescriptorType = TUSB_DESC_DEVICE, bcdUSB = 0x0200, bDeviceClass = 0x00,
      bDeviceSubClass = 0x00, bDeviceProtocol = 0x00, bMaxPacketSize0 = CFG_TUD_ENDPOINT0_SIZE,
      idVendor = 0xCafe, idProduct = 0x4005, bcdDevice = 0x0100, iManufacturer = STRID_MANUFACTURER,
      iProduct = STRID_PRODUCT, iSerialNumber = STRID_SERIAL, bNumConfigurations = 1\<rparr>"

text \<open>
  \<open>TUD_CONFIG_DESCRIPTOR\<close> (configuration, interfaces, string, total length, attributes, power),
  \<open>TUD_HID_DESCRIPTOR\<close> (interface, string, protocol, report descriptor length, endpoint, size,
  interval), \<open>TUD_CDC_DESCRIPTOR\<close> (interface, string, notification endpoint and size, out, in, size),
  the report descriptor, and the lengths that TinyUSB announces for the three.
\<close>

record tinyusb_macros =
  tu_config_descriptor :: "nat \<Rightarrow> nat \<Rightarrow> nat \<Rightarrow> nat \<Rightarrow> u8 \<Rightarrow> nat \<Rightarrow> u8 list"
  tu_hid_descriptor :: "nat \<Rightarrow> nat \<Rightarrow> nat \<Rightarrow> nat \<Rightarrow> u8 \<Rightarrow> nat \<Rightarrow> nat \<Rightarrow> u8 list"
  tu_cdc_descriptor :: "nat \<Rightarrow> nat \<Rightarrow> u8 \<Rightarrow> nat \<Rightarrow> u8 \<Rightarrow> u8 \<Rightarrow> nat \<Rightarrow> u8 list"
  tu_report_desc_keyboard :: "u8 list"
  tu_config_desc_len :: nat
  tu_hid_desc_len :: nat
  tu_cdc_desc_len :: nat

definition EPNUM_HID :: u8 where "EPNUM_HID = 0x81"
definition EPNUM_CDC_NOTIF :: u8 where "EPNUM_CDC_NOTIF = 0x82"
definition EPNUM_CDC_OUT :: u8 where "EPNUM_CDC_OUT = 0x03"
definition EPNUM_CDC_IN :: u8 where "EPNUM_CDC_IN = 0x83"
definition HID_ITF_PROTOCOL_KEYBOARD :: nat where "HID_ITF_PROTOCOL_KEYBOARD = 1"
definition TUSB_DESC_CONFIG_ATT_REMOTE_WAKEUP :: u8 where "TUSB_DESC_CONFIG_ATT_REMOTE_WAKEUP = 0x20"

definition hid_report_descriptor :: "tinyusb_macros \<Rightarrow> u8 list" where
  "hid_report_descriptor tu = tu_report_desc_keyboard tu"

definition CONFIG_TOTAL_LEN :: "tinyusb_macros \<Rightarrow> nat" where
  "CONFIG_TOTAL_LEN tu = tu_config_desc_len tu + tu_hid_desc_len tu + tu_cdc_desc_len tu"

definition configuration_descriptor :: "tinyusb_macros \<Rightarrow> u8 list" where
  "configuration_descriptor tu =
     tu_config_descriptor tu 1 ITF_NUM_TOTAL 0 (CONFIG_TOTAL_LEN tu) TUSB_DESC_CONFIG_ATT_REMOTE_WAKEUP 100 @
     tu_hid_descriptor tu ITF_NUM_HID 0 HID_ITF_PROTOCOL_KEYBOARD (length (hid_report_descriptor tu))
       EPNUM_HID CFG_TUD_HID_EP_BUFSIZE 10 @
     tu_cdc_descriptor tu ITF_NUM_CDC 0 EPNUM_CDC_NOTIF 8 EPNUM_CDC_OUT EPNUM_CDC_IN 64"

section \<open>Strings\<close>

text \<open>The texts as C strings; the language identifier is two bytes without a terminator.\<close>

definition string_descriptors :: "char list option list" where
  "string_descriptors =
     [Some [CHR 0x09, CHR 0x04], Some (''Pico BT Keyboard'' @ [NUL]),
      Some (''Pico W USB HID Keyboard'' @ [NUL]), None]"

definition unit_of_char :: "char \<Rightarrow> u16" where
  "unit_of_char c = of_nat (of_char c)"

text \<open>The loop that widens \<open>n\<close> characters from index \<open>i\<close> on into the units of the static buffer.\<close>

fun copy_units :: "char list \<Rightarrow> nat \<Rightarrow> nat \<Rightarrow> u16 list \<Rightarrow> u16 list option" where
  "copy_units tx i 0 buf = Some buf"
| "copy_units tx i (Suc n) buf = do {
     c \<leftarrow> array_at tx i;
     buf \<leftarrow> array_put buf (1 + i) (unit_of_char c);
     copy_units tx (i + 1) n buf
   }"

text \<open>Whether a pointer to the buffer is returned, rather than \<open>NULL\<close>, and the buffer.\<close>

definition tud_descriptor_string_cb ::
    "(nat \<Rightarrow> u16 list) \<Rightarrow> u8 \<Rightarrow> u16 list \<Rightarrow> (bool \<times> u16 list) option" where
  "tud_descriptor_string_cb serial index buf = do {
     filled \<leftarrow>
       (if index = STRID_LANGID then do {
          bytes \<leftarrow> string_descriptors ! 0;
          lo \<leftarrow> array_at bytes 0;
          hi \<leftarrow> array_at bytes 1;
          buf \<leftarrow> array_put buf 1 (unit_of_char lo OR push_bit 8 (unit_of_char hi));
          Some (Some (1, buf))
        }
        else if index = STRID_SERIAL then do {
          let units = serial 32;
          buf \<leftarrow> bytes_put buf 1 units;
          Some (Some (length units, buf))
        }
        else if unat index \<ge> length string_descriptors then Some None
        else do {
          tx \<leftarrow> string_descriptors ! unat index;
          n \<leftarrow> c_strlen tx;
          let count = (if n > 32 then 32 else n);
          buf \<leftarrow> copy_units tx 0 count buf;
          Some (Some (count, buf))
        });
     case filled of
       None \<Rightarrow> Some (False, buf)
     | Some (count, buf) \<Rightarrow> do {
         buf \<leftarrow> array_put buf 0 (push_bit 8 TUSB_DESC_STRING OR of_nat (2 * count + 2));
         Some (True, buf)
       }
   }"

section \<open>Lemmas\<close>

lemma copy_units_spec:
  "i + n \<le> length tx \<Longrightarrow> 1 + i + n \<le> length buf \<Longrightarrow>
   copy_units tx i n buf =
     Some (take (1 + i) buf @ map unit_of_char (take n (drop i tx)) @ drop (1 + i + n) buf)"
proof (induction n arbitrary: i buf)
  case (Suc n)
  have tk: "take (Suc n) (drop i tx) = tx ! i # take n (drop (i + 1) tx)"
    using Suc.prems(1) by (simp add: Cons_nth_drop_Suc [symmetric])
  have "take (Suc (Suc i)) (buf[Suc i := x]) = take (Suc i) buf @ [x]" for x
    using Suc.prems(2) by (simp add: take_Suc_conv_app_nth)
  then show ?case
    using Suc.IH [of "i + 1" "buf[Suc i := unit_of_char (tx ! i)]"] Suc.prems unfolding tk by simp
qed simp

text \<open>What the host is told: the language, or the text of the index.\<close>

definition string_units :: "(nat \<Rightarrow> u16 list) \<Rightarrow> nat \<Rightarrow> u16 list" where
  "string_units serial index =
     [[0x0409], map unit_of_char ''Pico BT Keyboard'', map unit_of_char ''Pico W USB HID Keyboard'', serial 32] ! index"

lemma header_unit: "n \<le> 32 \<Longrightarrow> push_bit 8 TUSB_DESC_STRING OR of_nat (2 * n + 2) = (0x0300 + of_nat (2 * n + 2) :: u16)"
proof -
  assume "n \<le> 32"
  then have "n < 33" by simp
  then have "n \<in> set [0..<33]" by simp
  then show ?thesis by (simp add: upt_rec TUSB_DESC_STRING_def) (elim disjE; simp)
qed

lemma text_descriptor:
  assumes "length buf = 33" and "string_descriptors ! unat index = Some (tx @ [NUL])"
    and "unat index < length string_descriptors" and "index \<noteq> STRID_LANGID" and "index \<noteq> STRID_SERIAL"
    and "NUL \<notin> set tx" and "length tx \<le> 32"
  shows "tud_descriptor_string_cb serial index buf =
    Some (True, (0x0300 + of_nat (2 * length tx + 2)) # map unit_of_char tx @ drop (1 + length tx) buf)"
  using assms copy_units_spec [of 0 "length tx" "tx @ [NUL]" buf] header_unit [of "length tx"]
    c_strlen_string [of tx "[]"]
  by (cases buf) (simp_all add: tud_descriptor_string_cb_def Let_def)

text \<open>
  C38. The host gets every string whole: for a device whose serial number has at most the 32 units
  asked for, a request for the string \<open>index\<close> stays inside the buffer of 33 units; it is answered exactly
  for the four indices that the descriptors name, with a header that holds the type and the length in
  bytes of what is returned, and behind it the language English (US), the manufacturer, the product or
  the serial number.
\<close>

theorem string_descriptor_complete:
  assumes "length buf = 33" and "\<And>n. length (serial n) \<le> n"
  shows "tud_descriptor_string_cb serial index buf =
    (if unat index < 4
     then Some (True, (0x0300 + of_nat (2 * (1 + length (string_units serial (unat index))))) #
            string_units serial (unat index) @ drop (1 + length (string_units serial (unat index))) buf)
     else Some (False, buf)) \<and>
    (unat index < 4 \<longrightarrow> length (string_units serial (unat index)) \<le> 32)"
proof -
  note defs = tud_descriptor_string_cb_def STRID_LANGID_def STRID_SERIAL_def string_units_def Let_def
  have small: "index \<in> {0, 1, 2, 3}" if "unat index < 4"
  proof -
    from that have "unat index \<in> {0, 1, 2, 3}" by auto
    then show ?thesis by (auto simp: word_unat_eq_iff)
  qed
  show ?thesis
  proof (cases "unat index < 4")
    case False
    then have "index \<noteq> 0" "index \<noteq> 3" by auto
    with False show ?thesis by (simp add: defs string_descriptors_def)
  next
    case True
    with small consider "index = 0" | "index = 1" | "index = 2" | "index = 3" by blast
    then show ?thesis
    proof cases
      case 1
      have "unit_of_char (CHR 0x09) OR push_bit 8 (unit_of_char (CHR 0x04)) = 0x0409"
        by (simp add: unit_of_char_def)
      with 1 assms(1) header_unit [of 1] show ?thesis by (cases buf; cases "tl buf") (simp_all add: defs string_descriptors_def)
    next
      case 2
      then show ?thesis using text_descriptor [OF assms(1), of index "''Pico BT Keyboard''" serial]
        by (simp add: string_descriptors_def string_units_def STRID_LANGID_def STRID_SERIAL_def)
    next
      case 3
      then show ?thesis using text_descriptor [OF assms(1), of index "''Pico W USB HID Keyboard''" serial]
        by (simp add: string_descriptors_def string_units_def STRID_LANGID_def STRID_SERIAL_def)
    next
      case 4
      have n: "length (serial 32) \<le> 32" by (rule assms(2))
      with assms(1) have put: "bytes_put buf 1 (serial 32) = Some (take 1 buf @ serial 32 @ drop (1 + length (serial 32)) buf)"
        by (simp add: bytes_put_def)
      with 4 n assms(1) header_unit [OF n] show ?thesis
        by (cases buf) (simp_all add: defs)
    qed
  qed
qed

theorem string_descriptor_complete_witness:
  "tud_descriptor_string_cb (\<lambda>n. take n [0x45, 0x36]) 3 (replicate 33 0) =
     Some (True, 0x0306 # [0x45, 0x36] @ replicate 30 0)"
  using string_descriptor_complete [of "replicate 33 0" "\<lambda>n. take n [0x45, 0x36]" 3]
  by (simp add: string_units_def)

text \<open>
  The host reads the configuration whole: when the expansions of TinyUSB's macros have the lengths
  that TinyUSB announces for them, the total length in the configuration descriptor is the length of
  what the callback returns.
\<close>

lemma configuration_length_announced:
  assumes "\<And>a b c d e f. length (tu_config_descriptor tu a b c d e f) = tu_config_desc_len tu"
    and "\<And>a b c d e f g. length (tu_hid_descriptor tu a b c d e f g) = tu_hid_desc_len tu"
    and "\<And>a b c d e f g. length (tu_cdc_descriptor tu a b c d e f g) = tu_cdc_desc_len tu"
  shows "length (configuration_descriptor tu) = CONFIG_TOTAL_LEN tu"
  using assms by (simp add: configuration_descriptor_def CONFIG_TOTAL_LEN_def)

end
