(* ===== verification/Keyboard_Demo.thy ===== *)
theory Keyboard_Demo
  imports Usb_Keyboard
begin

text \<open>
  \<open>src/usb/keyboard_demo.c\<close>, compiled when \<open>PICO_KEYBOARD_DEMO\<close> is on: once the host has enumerated the
  keyboard, a fixed text is typed, one key per 50 ms. The answers of \<open>tud_mounted\<close> and \<open>tud_hid_ready\<close>
  are arguments, and so is the clock: \<open>clock i\<close> is the \<open>i\<close>-th reading in milliseconds within a call. The
  four static variables are a record.
\<close>

section \<open>Data and operations\<close>

definition HID_KEY_A :: u8 where "HID_KEY_A = 0x04"
definition HID_KEY_B :: u8 where "HID_KEY_B = 0x05"
definition HID_KEY_C :: u8 where "HID_KEY_C = 0x06"
definition HID_KEY_ENTER :: u8 where "HID_KEY_ENTER = 0x28"
definition KEYBOARD_MODIFIER_LEFTCTRL :: u8 where "KEYBOARD_MODIFIER_LEFTCTRL = 0x01"
definition KEYBOARD_MODIFIER_LEFTSHIFT :: u8 where "KEYBOARD_MODIFIER_LEFTSHIFT = 0x02"

record keyboard_demo_key =
  dk_modifier :: u8
  dk_keycode :: u8

definition demo_keys :: "keyboard_demo_key list" where
  "demo_keys =
     [\<lparr>dk_modifier = 0, dk_keycode = HID_KEY_A\<rparr>, \<lparr>dk_modifier = 0, dk_keycode = HID_KEY_B\<rparr>,
      \<lparr>dk_modifier = 0, dk_keycode = HID_KEY_C\<rparr>,
      \<lparr>dk_modifier = KEYBOARD_MODIFIER_LEFTSHIFT, dk_keycode = HID_KEY_A\<rparr>,
      \<lparr>dk_modifier = KEYBOARD_MODIFIER_LEFTSHIFT, dk_keycode = HID_KEY_B\<rparr>,
      \<lparr>dk_modifier = KEYBOARD_MODIFIER_LEFTSHIFT, dk_keycode = HID_KEY_C\<rparr>,
      \<lparr>dk_modifier = KEYBOARD_MODIFIER_LEFTCTRL, dk_keycode = HID_KEY_A\<rparr>,
      \<lparr>dk_modifier = 0, dk_keycode = HID_KEY_ENTER\<rparr>]"

record keyboard_demo =
  kd_mounted :: bool
  kd_completed :: bool
  kd_key_index :: nat
  kd_next_key_ms :: u32

definition keyboard_demo_boot :: keyboard_demo where
  "keyboard_demo_boot = \<lparr>kd_mounted = False, kd_completed = False, kd_key_index = 0, kd_next_key_ms = 0\<rparr>"

definition keyboard_demo_task ::
    "bool \<Rightarrow> (nat \<Rightarrow> u32) \<Rightarrow> bool \<Rightarrow> keyboard_demo \<Rightarrow> usb_keyboard \<Rightarrow>
     (keyboard_demo \<times> usb_keyboard \<times> log_line list) option" where
  "keyboard_demo_task mounted clock ready d k =
     (if kd_completed d \<or> \<not> mounted then Some (d, k, [])
      else
        let (d, i) = (if \<not> kd_mounted d
                      then (d\<lparr>kd_mounted := True, kd_next_key_ms := clock 0 + 5000\<rparr>, 1)
                      else (d, 0))
        in if sint (clock i - kd_next_key_ms d) < 0 \<or> \<not> ready then Some (d, k, [])
           else do {
             key \<leftarrow> array_at demo_keys (kd_key_index d);
             let (k, lines) = keyboard_type (dk_modifier key) (dk_keycode key) k;
             let d = d\<lparr>kd_key_index := kd_key_index d + 1\<rparr>;
             let d = d\<lparr>kd_completed := (kd_key_index d = length demo_keys)\<rparr>;
             Some (d\<lparr>kd_next_key_ms := clock (i + 1) + 50\<rparr>, k, lines)
           })"

section \<open>What is typed\<close>

text \<open>The reports of the first \<open>n\<close> keys: each pressed and released.\<close>

definition key_reports :: "keyboard_demo_key \<Rightarrow> keyboard_report list" where
  "key_reports key = [\<lparr>kr_modifier = dk_modifier key, kr_keycodes = [dk_keycode key, 0, 0, 0, 0, 0]\<rparr>, zero_report]"

definition typed_reports :: "nat \<Rightarrow> keyboard_report list" where
  "typed_reports n = concat (map key_reports (take n demo_keys))"

lemma length_demo_keys [simp]: "length demo_keys = 8"
  by (simp add: demo_keys_def)

lemma length_typed_reports: "n \<le> 8 \<Longrightarrow> length (typed_reports n) = 2 * n"
  by (simp add: typed_reports_def length_concat comp_def key_reports_def sum_list_triv)

lemma typed_reports_Suc: "n < 8 \<Longrightarrow> typed_reports (Suc n) = typed_reports n @ key_reports (demo_keys ! n)"
  by (simp add: typed_reports_def take_Suc_conv_app_nth)

lemma keyboard_type_contents:
  assumes "kq_wf k" and "length (kq_contents k) + 2 \<le> KEYBOARD_REPORT_QUEUE_SIZE"
  shows "kq_wf (fst (keyboard_type m c k)) \<and>
    kq_contents (fst (keyboard_type m c k)) =
      kq_contents k @ [\<lparr>kr_modifier = m, kr_keycodes = [c, 0, 0, 0, 0, 0]\<rparr>, zero_report]"
proof -
  let ?k1 = "fst (keyboard_press m c k)"
  have k1: "kq_wf ?k1" "kq_contents ?k1 = kq_contents k @ [\<lparr>kr_modifier = m, kr_keycodes = [c, 0, 0, 0, 0, 0]\<rparr>]"
    using assms by (simp_all add: keyboard_press_def send_report_wf send_report_contents Let_def)
  have eq: "fst (keyboard_type m c k) = fst (keyboard_release ?k1)"
    by (simp add: keyboard_type_def split: prod.split)
  have "report_queue_count ?k1 = Suc (report_queue_count k)" using arg_cong [OF k1(2), of length] by simp
  then show ?thesis
    unfolding eq using k1 assms(2)
    by (simp add: keyboard_release_def send_report_wf send_report_contents zero_report_def Let_def)
qed

section \<open>The demo and the host\<close>

datatype demo_step =
    Demo_Poll bool "nat \<Rightarrow> u32" bool
  | Host_Poll bool "keyboard_report \<Rightarrow> bool"

text \<open>The reports that reach the host while the demo runs.\<close>

fun demo_run :: "demo_step list \<Rightarrow> keyboard_demo \<Rightarrow> usb_keyboard \<Rightarrow>
     (keyboard_report list \<times> keyboard_demo \<times> usb_keyboard) option" where
  "demo_run [] d k = Some ([], d, k)"
| "demo_run (Demo_Poll mounted clock ready # es) d k = do {
     (d, k, _) \<leftarrow> keyboard_demo_task mounted clock ready d k;
     demo_run es d k
   }"
| "demo_run (Host_Poll ready accepts # es) d k =
     (let (rep, k, _) = hid_keyboard_task_send ready accepts k
      in map_option (\<lambda>(sent, s). (case rep of None \<Rightarrow> sent | Some r \<Rightarrow> r # sent, s)) (demo_run es d k))"

definition kd_wf :: "keyboard_demo \<Rightarrow> bool" where
  "kd_wf d \<longleftrightarrow> kd_key_index d \<le> 8 \<and> (kd_completed d \<longleftrightarrow> kd_key_index d = 8)"

lemma demo_task_spec:
  assumes "kd_wf d" and "kq_wf k" and "length (kq_contents k) \<le> 2 * kd_key_index d"
  shows "\<exists>d' k' lines. keyboard_demo_task mounted clock ready d k = Some (d', k', lines) \<and> kd_wf d' \<and> kq_wf k' \<and>
    (k' = k \<and> kd_key_index d' = kd_key_index d \<or>
     kd_key_index d < 8 \<and> kd_key_index d' = Suc (kd_key_index d) \<and>
     kq_contents k' = kq_contents k @ key_reports (demo_keys ! kd_key_index d))"
proof (cases "kd_completed d \<or> \<not> mounted")
  case True
  with assms show ?thesis by (auto simp: keyboard_demo_task_def)
next
  case False
  let ?key = "demo_keys ! kd_key_index d"
  have i: "kd_key_index d < 8" using assms(1) False by (auto simp: kd_wf_def)
  have "length (kq_contents k) + 2 \<le> KEYBOARD_REPORT_QUEUE_SIZE"
    using assms(3) i by (simp add: KEYBOARD_REPORT_QUEUE_SIZE_def)
  from keyboard_type_contents [OF assms(2) this, of "dk_modifier ?key" "dk_keycode ?key"] False i assms show ?thesis
    by (cases "keyboard_type (dk_modifier ?key) (dk_keycode ?key) k")
      (auto simp: keyboard_demo_task_def key_reports_def kd_wf_def Let_def split: prod.split)
qed

text \<open>
  C39. The demo types its text and nothing else: whatever the timing, the clock readings and the host
  do, what the host received followed by what is queued for it is the press and the release of the
  first keys of the text, in order, and the demo stops after the last of them.
\<close>

theorem demo_types_prefix:
  "\<exists>sent d k. demo_run es keyboard_demo_boot usb_keyboard_boot = Some (sent, d, k) \<and>
     sent @ kq_contents k = typed_reports (kd_key_index d) \<and> kd_key_index d \<le> length demo_keys \<and>
     (kd_completed d \<longleftrightarrow> kd_key_index d = length demo_keys)"
proof -
  have "\<exists>sent d' k'. demo_run es d k = Some (sent, d', k') \<and> kd_wf d' \<and>
      out @ sent @ kq_contents k' = typed_reports (kd_key_index d')"
    if "kd_wf d" "kq_wf k" "out @ kq_contents k = typed_reports (kd_key_index d)" for out d k
    using that
  proof (induction es arbitrary: out d k)
    case (Cons e es)
    have len: "length (kq_contents k) \<le> 2 * kd_key_index d"
      using arg_cong [OF Cons.prems(3), of length] length_typed_reports [of "kd_key_index d"] Cons.prems(1)
      by (simp add: kd_wf_def)
    show ?case
    proof (cases e)
      case (Demo_Poll mounted clock ready)
      from demo_task_spec [OF Cons.prems(1,2) len, of mounted clock ready] obtain d' k' lines where
        t: "keyboard_demo_task mounted clock ready d k = Some (d', k', lines)" "kd_wf d'" "kq_wf k'"
          "k' = k \<and> kd_key_index d' = kd_key_index d \<or>
           kd_key_index d < 8 \<and> kd_key_index d' = Suc (kd_key_index d) \<and>
           kq_contents k' = kq_contents k @ key_reports (demo_keys ! kd_key_index d)" by blast
      then have "out @ kq_contents k' = typed_reports (kd_key_index d')"
        using Cons.prems(3) typed_reports_Suc [of "kd_key_index d"] by auto
      from Cons.IH [OF t(2,3) this] t(1) Demo_Poll show ?thesis by auto
    next
      case (Host_Poll ready accepts)
      obtain rep k' lines where s: "hid_keyboard_task_send ready accepts k = (rep, k', lines)"
        by (cases "hid_keyboard_task_send ready accepts k")
      from task_send_contents [OF Cons.prems(2) s] have k': "kq_wf k'"
        "(out @ (case rep of None \<Rightarrow> [] | Some r \<Rightarrow> [r])) @ kq_contents k' = typed_reports (kd_key_index d)"
        using Cons.prems(3) by (auto split: option.splits)
      from Cons.IH [OF Cons.prems(1) k'] s Host_Poll show ?thesis by (auto split: option.splits)
    qed
  qed auto
  from this [of keyboard_demo_boot usb_keyboard_boot "[]"] show ?thesis
    by (auto simp: kd_wf_def keyboard_demo_boot_def typed_reports_def)
qed

end
