(* ===== verification/Bluetooth_Session.thy ===== *)
theory Bluetooth_Session
  imports Bluetooth_Calls
begin

unbundle bit_operations_syntax

text \<open>
  The connection life cycle: under what BTstack is relied upon for, no event reports an unexpected
  state transition, and the state, the link and the channels agree.
\<close>

section \<open>Expected transitions and the connection invariant\<close>

definition unexpected_message :: string where
  "unexpected_message = ''[BT] Unexpected state transition %s -> %s''"

text \<open>No unexpected transition was reported.\<close>

definition quiet :: "bt_app \<Rightarrow> bool" where
  "quiet a \<longleftrightarrow> unexpected_message \<notin> fst ` set (app_log a)"

text \<open>The states with a link, the flags of the two channels, and the pending connection agree.\<close>

definition linked :: "bt_state \<Rightarrow> bool" where
  "linked s \<longleftrightarrow> s \<in> {STATE_CONNECTED, STATE_AUTHENTICATING, STATE_SERVICE_DISCOVERY, STATE_OPENING_CONTROL,
     STATE_SETTING_BOOT_PROTOCOL, STATE_OPENING_INTERRUPT, STATE_HID_CONNECTED}"

definition unlinked :: "bt_state \<Rightarrow> bool" where
  "unlinked s \<longleftrightarrow> s \<in> {STATE_INITIALIZING, STATE_IDLE, STATE_INQUIRY, STATE_CONNECTING}"

definition channels_match :: "bt_state \<Rightarrow> HidChannels \<Rightarrow> bool" where
  "channels_match s ch \<longleftrightarrow>
     (hc_interrupt_open ch \<longrightarrow> s = STATE_HID_CONNECTED) \<and>
     (hc_control_open ch \<longrightarrow>
        s \<in> {STATE_SETTING_BOOT_PROTOCOL, STATE_OPENING_INTERRUPT, STATE_HID_CONNECTED})"

definition coherent :: "bt_app \<Rightarrow> bool" where
  "coherent a \<longleftrightarrow>
     (acl_handle a = HCI_CON_HANDLE_INVALID \<longrightarrow> unlinked (current_state a)) \<and>
     (acl_handle a \<noteq> HCI_CON_HANDLE_INVALID \<longrightarrow> linked (current_state a)) \<and>
     channels_match (current_state a) (hid_channels a) \<and>
     (connecting_device_valid a \<longrightarrow> current_state a = STATE_CONNECTING) \<and>
     (connection_cancel_requested a \<longrightarrow> current_state a = STATE_CONNECTING)"

text \<open>What BTstack is relied upon for: the success events of a channel or an SDP query come while that
  channel or query is being opened, their failures while the link exists, the stack starts once, a
  link has a valid handle, and a disconnection event is about the link of this application.\<close>

fun stack_contract :: "bt_app \<Rightarrow> bt_event \<Rightarrow> bool" where
  "stack_contract a (Packet (HCI_EVENT_PACKET (L2CAP_EVENT_CHANNEL_OPENED status psm _ _))) =
     (linked (current_state a) \<and>
      (status = 0 \<longrightarrow>
         (case get_connected_device a of
            Some i \<Rightarrow>
              (psm = dev_hid_control_psm (device_at a i) \<longrightarrow> current_state a = STATE_OPENING_CONTROL) \<and>
              (psm \<noteq> dev_hid_control_psm (device_at a i) \<and> psm = dev_hid_interrupt_psm (device_at a i) \<longrightarrow>
                 current_state a = STATE_OPENING_INTERRUPT)
          | None \<Rightarrow> True)))"
| "stack_contract a (Sdp (SDP_EVENT_QUERY_COMPLETE status)) =
     (linked (current_state a) \<and> (status = 0 \<longrightarrow> current_state a = STATE_SERVICE_DISCOVERY))"
| "stack_contract a (Packet (HCI_EVENT_PACKET (BTSTACK_EVENT_STATE working))) =
     (working \<longrightarrow> current_state a = STATE_INITIALIZING)"
| "stack_contract a (Packet (HCI_EVENT_PACKET (HCI_EVENT_CONNECTION_COMPLETE _ handle _))) =
     (handle \<noteq> HCI_CON_HANDLE_INVALID)"
| "stack_contract a (Packet (HCI_EVENT_PACKET (HCI_EVENT_DISCONNECTION_COMPLETE handle _))) =
     (handle = acl_handle a \<and> acl_handle a \<noteq> HCI_CON_HANDLE_INVALID)"
| "stack_contract a _ = True"

inductive bt_run :: "btstack \<Rightarrow> bt_app \<Rightarrow> bool" for env where
  init: "bt_run env (bluetooth_init env bt_app_boot)"
| step: "bt_run env a \<Longrightarrow> stack_contract a e \<Longrightarrow> bt_apply env e a = Some a' \<Longrightarrow> bt_run env a'"

lemma bt_run_reachable: "bt_run env a \<Longrightarrow> bt_reachable env a"
  by (induction rule: bt_run.induct) (auto intro: bt_reachable.intros)

subsection \<open>Messages\<close>

lemma quiet_printf [simp]: "quiet (usb_serial_printf fmt args a) \<longleftrightarrow> quiet a \<and> fmt \<noteq> unexpected_message"
  by (auto simp: quiet_def usb_serial_printf_def)

lemma quiet_cong: "app_log a = app_log b \<Longrightarrow> quiet a = quiet b"
  by (simp add: quiet_def)

lemma quiet_append: "quiet (a\<lparr>app_log := app_log a @ lines\<rparr>) \<longleftrightarrow> quiet a \<and> unexpected_message \<notin> fst ` set lines"
  by (auto simp: quiet_def)

lemma quiet_updates [simp]:
  "quiet (a\<lparr>local_address := v1\<rparr>) = quiet a"
  "quiet (a\<lparr>connected_device_addr := v1\<rparr>) = quiet a"
  "quiet (a\<lparr>connecting_device_addr := v1\<rparr>) = quiet a"
  "quiet (a\<lparr>connecting_device_valid := v2\<rparr>) = quiet a"
  "quiet (a\<lparr>connection_cancel_requested := v2\<rparr>) = quiet a"
  "quiet (a\<lparr>stack_working := v2\<rparr>) = quiet a"
  "quiet (a\<lparr>startup_logged := v2\<rparr>) = quiet a"
  "quiet (a\<lparr>current_state := v3\<rparr>) = quiet a"
  "quiet (a\<lparr>inquiry_count := v6\<rparr>) = quiet a"
  "quiet (a\<lparr>inquiry_timer_armed := v2\<rparr>) = quiet a"
  "quiet (a\<lparr>acl_handle := v4\<rparr>) = quiet a"
  "quiet (a\<lparr>selected_device_addr := v1\<rparr>) = quiet a"
  "quiet (a\<lparr>selected_device_valid := v2\<rparr>) = quiet a"
  "quiet (a\<lparr>auto_connect_enabled := v2\<rparr>) = quiet a"
  "quiet (a\<lparr>pairing_pin_pending := v2\<rparr>) = quiet a"
  "quiet (a\<lparr>pairing_pin_timer_armed := v2\<rparr>) = quiet a"
  "quiet (a\<lparr>calls := v5\<rparr>) = quiet a"
  "quiet (a\<lparr>device_manager := v7\<rparr>) = quiet a"
  "quiet (a\<lparr>hid_channels := v8\<rparr>) = quiet a"
  "quiet (a\<lparr>sdp_parser := v9\<rparr>) = quiet a"
  "quiet (a\<lparr>command_buffer := v10\<rparr>) = quiet a"
  "quiet (a\<lparr>command_length := v6\<rparr>) = quiet a"
  "quiet (a\<lparr>control_requests := v11\<rparr>) = quiet a"
  "quiet (a\<lparr>keyboard := v12\<rparr>) = quiet a"
  by (simp_all add: quiet_def)

lemma quiet_calls [simp]:
  "quiet (bt_call c a) = quiet a"
  "quiet (clear_pairing_pin a) = quiet a"
  "quiet (show_pairing_pin a) = quiet a"
  "quiet (cancel_inquiry_timer a) = quiet a"
  "quiet (snd (store_selected_device env ad a)) = quiet a"
  "quiet (delete_selected_device env a) = quiet a"
  "quiet (modify_device i f a) = quiet a"
  "quiet (reset_hid_channels a) = quiet a"
  by (rule quiet_cong, simp)+

lemma quiet_transition [simp]:
  "quiet (transition_to_state s a) \<longleftrightarrow> quiet a \<and> bt_state_transition_allowed (current_state a) s"
  by (auto simp: transition_to_state_def Let_def unexpected_message_def)

lemma quiet_idle_timer [simp]: "quiet (start_idle_timer a) = quiet a"
  by (simp add: start_idle_timer_def Let_def unexpected_message_def)

lemma quiet_start_inquiry [simp]: "quiet (start_inquiry a) = quiet a"
  by (simp add: start_inquiry_def Let_def unexpected_message_def bt_state_transition_allowed_def)

lemma quiet_more [simp]:
  "quiet (log_device d a) = quiet a"
  "quiet (restore_saved_device env ad a) = quiet a"
  "quiet (cancel_pending_connection env a) = quiet a"
  "quiet (schedule_keyboard_led_report env a) = quiet a"
  by (simp_all add: log_device_def restore_saved_device_def cancel_pending_connection_def get_link_key_def
    schedule_keyboard_led_report_def bt_status_call_def Let_def unexpected_message_def
    split: prod.split option.split)

lemma quiet_begin [simp]: "quiet (snd (begin_connection env ad a)) = quiet a"
  by (auto simp: begin_connection_def bt_status_call_def Let_def unexpected_message_def
    bt_state_transition_allowed_def)

lemma quiet_keyboard_action:
  "unexpected_message \<notin> fst ` set (snd (f (keyboard a))) \<Longrightarrow> quiet (keyboard_action f a) = quiet a"
  by (cases "f (keyboard a)") (auto simp: keyboard_action_def quiet_def)

lemma keyboard_messages: "unexpected_message \<notin> fst ` set (snd (keyboard_send_report m ks k))"
  by (simp add: keyboard_send_report_def Let_def unexpected_message_def split: prod.split)

lemma quiet_send_report [simp]: "quiet (keyboard_action (keyboard_send_report m ks) a) = quiet a"
  by (intro quiet_keyboard_action keyboard_messages)

lemma quiet_release [simp]: "quiet (release_usb_keyboard a) = quiet a"
  by (simp add: release_usb_keyboard_def quiet_keyboard_action keyboard_release_all_def keyboard_release_def
    keyboard_messages) (simp add: unexpected_message_def)

lemma quiet_error [simp]: "quiet (disconnect_acl_after_error st e a) = quiet a"
  by (simp add: disconnect_acl_after_error_def Let_def) (simp add: unexpected_message_def)

lemma quiet_print_devices: "unexpected_message \<notin> fst ` set (device_manager_print_devices m)"
  by (auto simp: device_manager_print_devices_def unexpected_message_def)

lemma quiet_sdp_lines:
  assumes "sdp_parser_feed frames p d aid n i b = Some (p', d', lines)"
  shows "unexpected_message \<notin> fst ` set lines"
  using assms
  by (auto simp: sdp_parser_feed_def parse_attribute_def parse_descriptor_list_def parse_psm_list_def
    parse_name_def Let_def unexpected_message_def split: if_splits Option.bind_splits option.splits)

subsection \<open>Every event keeps the invariant\<close>

definition healthy :: "bt_app \<Rightarrow> bool" where
  "healthy a \<longleftrightarrow> coherent a \<and> quiet a"

lemmas healthy_defs = healthy_def coherent_def channels_match_def linked_def unlinked_def

lemma healthy_cong:
  assumes "quiet b = quiet a" and "acl_handle b = acl_handle a" and "current_state b = current_state a"
    and "hid_channels b = hid_channels a" and "connecting_device_valid b = connecting_device_valid a"
    and "connection_cancel_requested b = connection_cancel_requested a"
  shows "healthy b = healthy a"
  using assms by (simp add: healthy_def coherent_def)

lemma healthy_printf [simp]: "fmt \<noteq> unexpected_message \<Longrightarrow> healthy (usb_serial_printf fmt args a) = healthy a"
  by (rule healthy_cong) simp_all

lemma healthy_same [simp]:
  "healthy (bt_call c a) = healthy a"
  "healthy (clear_pairing_pin a) = healthy a"
  "healthy (show_pairing_pin a) = healthy a"
  "healthy (cancel_inquiry_timer a) = healthy a"
  "healthy (start_idle_timer a) = healthy a"
  "healthy (snd (store_selected_device env ad a)) = healthy a"
  "healthy (delete_selected_device env a) = healthy a"
  "healthy (modify_device i f a) = healthy a"
  "healthy (log_device d a) = healthy a"
  "healthy (restore_saved_device env ad a) = healthy a"
  "healthy (release_usb_keyboard a) = healthy a"
  by (rule healthy_cong; simp)+

lemma healthy_updates [simp]:
  "healthy (a\<lparr>local_address := v1\<rparr>) = healthy a"
  "healthy (a\<lparr>connected_device_addr := v1\<rparr>) = healthy a"
  "healthy (a\<lparr>connecting_device_addr := v1\<rparr>) = healthy a"
  "healthy (a\<lparr>stack_working := v2\<rparr>) = healthy a"
  "healthy (a\<lparr>startup_logged := v2\<rparr>) = healthy a"
  "healthy (a\<lparr>inquiry_count := v6\<rparr>) = healthy a"
  "healthy (a\<lparr>inquiry_timer_armed := v2\<rparr>) = healthy a"
  "healthy (a\<lparr>selected_device_addr := v1\<rparr>) = healthy a"
  "healthy (a\<lparr>selected_device_valid := v2\<rparr>) = healthy a"
  "healthy (a\<lparr>auto_connect_enabled := v2\<rparr>) = healthy a"
  "healthy (a\<lparr>pairing_pin_pending := v2\<rparr>) = healthy a"
  "healthy (a\<lparr>pairing_pin_timer_armed := v2\<rparr>) = healthy a"
  "healthy (a\<lparr>device_manager := v7\<rparr>) = healthy a"
  "healthy (a\<lparr>sdp_parser := v9\<rparr>) = healthy a"
  "healthy (a\<lparr>command_buffer := v10\<rparr>) = healthy a"
  "healthy (a\<lparr>command_length := v6\<rparr>) = healthy a"
  "healthy (a\<lparr>control_requests := v11\<rparr>) = healthy a"
  by (rule healthy_cong; simp)+

lemma healthy_schedule [simp]: "healthy (schedule_keyboard_led_report env a) = healthy a"
proof -
  have "hc_interrupt_open (hid_channels (schedule_keyboard_led_report env a)) = hc_interrupt_open (hid_channels a)"
    "hc_control_open (hid_channels (schedule_keyboard_led_report env a)) = hc_control_open (hid_channels a)"
    by (simp_all add: schedule_keyboard_led_report_def bt_status_call_def Let_def)
  then show ?thesis by (simp add: healthy_def coherent_def channels_match_def)
qed

lemma healthy_error: "healthy a \<Longrightarrow> linked (current_state a) \<Longrightarrow> healthy (disconnect_acl_after_error st e a)"
proof -
  assume *: "healthy a" "linked (current_state a)"
  moreover have "\<not> (linked s \<and> unlinked s)" for s by (cases s) (simp_all add: linked_def unlinked_def)
  ultimately have "acl_handle a \<noteq> HCI_CON_HANDLE_INVALID" by (auto simp: healthy_def coherent_def)
  with * show ?thesis
    by (simp add: disconnect_acl_after_error_def Let_def) (simp add: unexpected_message_def)
qed

lemma healthy_transition:
  assumes "healthy a" and "bt_state_transition_allowed (current_state a) s"
    and "linked (current_state a) = linked s" and "unlinked (current_state a) = unlinked s"
    and "channels_match s (hid_channels a)"
    and "s = STATE_CONNECTING \<or> \<not> connecting_device_valid a \<and> \<not> connection_cancel_requested a"
  shows "healthy (transition_to_state s a)"
  using assms by (auto simp: healthy_def coherent_def)

lemma healthy_open_control [healthy_intros]:
  assumes "healthy a" and "current_state a = STATE_SERVICE_DISCOVERY"
  shows "healthy (open_control_channel env a)"
proof -
  have l: "linked (current_state a)" using assms by (simp add: linked_def)
  have "healthy (transition_to_state STATE_OPENING_CONTROL a)"
    by (rule healthy_transition) (use assms in \<open>auto simp: healthy_defs bt_state_transition_allowed_def\<close>)
  moreover have "linked STATE_OPENING_CONTROL" by (simp add: linked_def)
  ultimately show ?thesis
    using healthy_error [OF assms(1) l]
    by (auto simp: open_control_channel_def bt_status_call_def Let_def unexpected_message_def
      intro!: healthy_error split: option.split)
      (auto simp: healthy_defs unexpected_message_def)
qed

lemma healthy_open_interrupt [healthy_intros]:
  assumes "healthy a" and "current_state a = STATE_SETTING_BOOT_PROTOCOL"
  shows "healthy (open_interrupt_channel env a)"
proof -
  have l: "linked (current_state a)" using assms by (simp add: linked_def)
  have "healthy (transition_to_state STATE_OPENING_INTERRUPT a)"
    by (rule healthy_transition) (use assms in \<open>auto simp: healthy_defs bt_state_transition_allowed_def\<close>)
  moreover have "linked STATE_OPENING_INTERRUPT" by (simp add: linked_def)
  ultimately show ?thesis
    using healthy_error [OF assms(1) l]
    by (auto simp: open_interrupt_channel_def bt_status_call_def Let_def unexpected_message_def
      intro!: healthy_error split: option.split)
      (auto simp: healthy_defs unexpected_message_def)
qed

lemma healthy_start_sdp: "healthy a \<Longrightarrow> healthy (start_sdp_discovery env a)"
proof -
  assume h: "healthy a"
  have "healthy (transition_to_state STATE_SERVICE_DISCOVERY b)"
    if "healthy b" "current_state b = STATE_AUTHENTICATING" for b
    by (rule healthy_transition) (use that in \<open>auto simp: healthy_defs bt_state_transition_allowed_def\<close>)
  moreover have "linked STATE_SERVICE_DISCOVERY" by (simp add: linked_def)
  ultimately show ?thesis using h
    by (auto simp: start_sdp_discovery_def bt_status_call_def Let_def unexpected_message_def
      intro!: healthy_error split: option.split)
qed

lemma linked_not_unlinked: "linked s \<Longrightarrow> \<not> unlinked s"
  by (auto simp: linked_def unlinked_def)

lemma healthy_unlinkedD:
  assumes "healthy a" and "unlinked (current_state a)"
  shows "acl_handle a = HCI_CON_HANDLE_INVALID"
    and "\<not> hc_interrupt_open (hid_channels a)" and "\<not> hc_control_open (hid_channels a)"
proof -
  have "\<not> linked (current_state a)" using assms(2) linked_not_unlinked by blast
  then show "acl_handle a = HCI_CON_HANDLE_INVALID" using assms(1) by (auto simp: healthy_def coherent_def)
  show "\<not> hc_interrupt_open (hid_channels a)" and "\<not> hc_control_open (hid_channels a)"
    using assms by (simp_all add: healthy_def coherent_def channels_match_def unlinked_def) auto
qed

lemma healthy_unlinkedI:
  assumes "quiet a" and "unlinked (current_state a)" and "acl_handle a = HCI_CON_HANDLE_INVALID"
    and "\<not> hc_interrupt_open (hid_channels a)" and "\<not> hc_control_open (hid_channels a)"
    and "current_state a = STATE_CONNECTING \<or> \<not> connecting_device_valid a \<and> \<not> connection_cancel_requested a"
  shows "healthy a"
  using assms by (simp add: healthy_def coherent_def channels_match_def) blast

lemma healthy_quiet: "healthy a \<Longrightarrow> quiet a"
  by (simp add: healthy_def)

lemma healthy_pending:
  assumes "healthy a" and "current_state a \<noteq> STATE_CONNECTING"
  shows "\<not> connecting_device_valid a" and "\<not> connection_cancel_requested a"
  using assms by (auto simp: healthy_def coherent_def)

lemma unlinked_states [simp]:
  "unlinked STATE_INITIALIZING" "unlinked STATE_IDLE" "unlinked STATE_INQUIRY" "unlinked STATE_CONNECTING"
  by (simp_all add: unlinked_def)

lemma healthy_connecting:
  assumes "healthy a" and "current_state a = STATE_IDLE \<or> current_state a = STATE_INQUIRY"
  shows "healthy (transition_to_state STATE_CONNECTING
    (a\<lparr>connecting_device_addr := ad, connecting_device_valid := True, connection_cancel_requested := False\<rparr>))"
proof -
  have "unlinked (current_state a)" using assms by auto
  from healthy_unlinkedD [OF assms(1) this] assms show ?thesis
    by (intro healthy_unlinkedI) (auto simp: healthy_quiet bt_state_transition_allowed_def)
qed

lemma healthy_connect_failed:
  assumes "healthy a" and "current_state a = STATE_CONNECTING" and "\<not> connection_cancel_requested a"
  shows "healthy (transition_to_state STATE_IDLE (a\<lparr>connecting_device_valid := False\<rparr>))"
proof -
  have "unlinked (current_state a)" using assms by auto
  from healthy_unlinkedD [OF assms(1) this] assms show ?thesis
    by (intro healthy_unlinkedI) (auto simp: healthy_quiet)
qed

lemma healthy_begin: "healthy a \<Longrightarrow> healthy (snd (begin_connection env ad a))"
  unfolding begin_connection_def bt_status_call_def Let_def
  by (auto simp: unexpected_message_def intro!: healthy_connecting healthy_connect_failed)

lemma healthy_inquiry:
  assumes "healthy a" and "current_state a = STATE_IDLE"
  shows "healthy (transition_to_state STATE_INQUIRY a)"
proof -
  have "unlinked (current_state a)" using assms by auto
  from healthy_unlinkedD [OF assms(1) this] healthy_pending [OF assms(1)] assms show ?thesis
    by (intro healthy_unlinkedI) (auto simp: healthy_quiet bt_state_transition_allowed_def)
qed

lemma healthy_start_inquiry: "healthy a \<Longrightarrow> healthy (start_inquiry a)"
  by (simp add: start_inquiry_def Let_def unexpected_message_def healthy_inquiry)

lemma healthy_cancel: "healthy a \<Longrightarrow> healthy (cancel_pending_connection env a)"
proof -
  assume h: "healthy a"
  then have "current_state a = STATE_CONNECTING \<Longrightarrow> healthy (a\<lparr>connection_cancel_requested := True\<rparr>)"
    using healthy_unlinkedD [OF h] by (intro healthy_unlinkedI) (auto simp: healthy_quiet)
  with h show ?thesis
    by (simp add: cancel_pending_connection_def bt_status_call_def Let_def unexpected_message_def)
qed

lemma healthy_execute:
  assumes h: "healthy a"
  shows "healthy (execute_control_request env r a)"
proof -
  have "healthy (execute_scan a)"
    using h by (simp add: execute_scan_def unexpected_message_def healthy_start_inquiry)
  moreover have "healthy (execute_connect env ad a)" for ad
    using h by (auto simp: execute_connect_def store_selected_device_def Let_def unexpected_message_def
      intro!: healthy_begin split: option.split)
  moreover have "healthy (execute_disconnect env a)"
    using h by (simp add: execute_disconnect_def Let_def unexpected_message_def healthy_cancel)
  moreover have "healthy (execute_reconnect env a)"
    using h by (auto simp: execute_reconnect_def Let_def unexpected_message_def
      intro!: healthy_begin healthy_start_inquiry split: option.split)
  moreover have "healthy (execute_forget env a)"
    using h by (simp add: execute_forget_def Let_def unexpected_message_def healthy_cancel)
  moreover have "healthy (a\<lparr>app_log := app_log a @ status_lines a\<rparr>)"
  proof -
    have "quiet (a\<lparr>app_log := app_log a @ status_lines a\<rparr>) = quiet a"
      using quiet_print_devices [of "device_manager a"]
      by (simp add: quiet_append status_lines_def) (simp add: unexpected_message_def)
    with h show ?thesis by (simp add: healthy_def coherent_def)
  qed
  ultimately show ?thesis
    using h by (cases "rq_action r") (simp_all add: execute_control_request_def unexpected_message_def)
qed

lemma healthy_run_requests: "run_control_requests env fuel a = Some a' \<Longrightarrow> healthy a \<Longrightarrow> healthy a'"
proof (induction fuel arbitrary: a)
  case 0
  then show ?case by (simp add: run_control_requests.simps split: option.splits prod.splits)
next
  case (Suc fuel)
  show ?case
  proof (cases "control_request_queue_pop (control_requests a)")
    case None
    with Suc.prems show ?thesis by (simp add: run_control_requests.simps)
  next
    case (Some p)
    obtain r q where p: "p = (r, q)" by (cases p)
    from Suc.IH [of "execute_control_request env r (a\<lparr>control_requests := q\<rparr>)"] Suc.prems Some p
    show ?thesis by (simp add: run_control_requests.simps [of env "Suc fuel"] healthy_execute)
  qed
qed

lemma healthy_console_char: "console_char a ch = Some a' \<Longrightarrow> healthy a \<Longrightarrow> healthy a'"
  by (auto simp: console_char_def submit_parsed_command_def bluetooth_control_submit_def Let_def
    unexpected_message_def split: if_splits Option.bind_splits option.splits prod.splits)

lemma healthy_console: "console_input cs a = Some a' \<Longrightarrow> healthy a \<Longrightarrow> healthy a'"
  by (induction cs arbitrary: a) (auto split: Option.bind_splits dest: healthy_console_char)

lemma healthy_task: "bluetooth_task env v i c a = Some a' \<Longrightarrow> healthy a \<Longrightarrow> healthy a'"
  by (auto simp: bluetooth_task_def log_startup_def Let_def unexpected_message_def split: Option.bind_splits
    dest!: healthy_console healthy_run_requests)

lemma healthy_linkedD:
  assumes "healthy a" and "linked (current_state a)"
  shows "acl_handle a \<noteq> HCI_CON_HANDLE_INVALID" and "channels_match (current_state a) (hid_channels a)"
    and "\<not> connecting_device_valid a" and "\<not> connection_cancel_requested a"
  using assms linked_not_unlinked [OF assms(2)]
  by (auto simp: healthy_def coherent_def linked_def)

lemma healthy_linkedI:
  assumes "quiet a" and "linked (current_state a)" and "acl_handle a \<noteq> HCI_CON_HANDLE_INVALID"
    and "channels_match (current_state a) (hid_channels a)"
    and "\<not> connecting_device_valid a" and "\<not> connection_cancel_requested a"
  shows "healthy a"
  using assms by (simp add: healthy_def coherent_def)

lemma linked_states [simp]:
  "linked STATE_CONNECTED" "linked STATE_AUTHENTICATING" "linked STATE_SERVICE_DISCOVERY"
  "linked STATE_OPENING_CONTROL" "linked STATE_SETTING_BOOT_PROTOCOL" "linked STATE_OPENING_INTERRUPT"
  "linked STATE_HID_CONNECTED"
  by (simp_all add: linked_def)

lemma healthy_state_cases:
  assumes "healthy a" obtains "linked (current_state a)" | "unlinked (current_state a)"
  using assms by (auto simp: healthy_def coherent_def)

lemma healthy_idle:
  assumes "healthy a" and "unlinked (current_state a)"
    and "\<not> connecting_device_valid a" and "\<not> connection_cancel_requested a"
  shows "healthy (transition_to_state STATE_IDLE a)"
  using healthy_unlinkedD [OF assms(1,2)] assms by (intro healthy_unlinkedI) (auto simp: healthy_quiet)

lemma healthy_on_stack_state [healthy_intros]:
  assumes h: "healthy a" and "working \<Longrightarrow> current_state a = STATE_INITIALIZING"
  shows "healthy (on_stack_state env working a)"
proof (cases working)
  case True
  then have s: "current_state a = STATE_INITIALIZING" using assms(2) by simp
  then show ?thesis using h healthy_pending [OF h]
    by (simp add: on_stack_state_def Let_def)
       (auto intro!: healthy_begin healthy_idle simp: unexpected_message_def)
next
  case False
  then show ?thesis using h by (simp add: on_stack_state_def unexpected_message_def)
qed

lemma healthy_link_key [simp]: "healthy (snd (get_link_key env ad a)) = healthy a"
  by (simp add: get_link_key_def Let_def)

lemma healthy_on_inquiry_result [healthy_intros]: "healthy a \<Longrightarrow> healthy (on_inquiry_result env ad hr rssi cod name a)"
  by (auto simp: on_inquiry_result_def get_link_key_def Let_def unexpected_message_def
    split: prod.split option.split)

lemma healthy_print [simp]:
  "healthy (a\<lparr>app_log := app_log a @ device_manager_print_devices m\<rparr>) = healthy a"
  by (rule healthy_cong) (simp_all add: quiet_append quiet_print_devices)

lemma healthy_on_inquiry_complete [healthy_intros]: "healthy a \<Longrightarrow> healthy (on_inquiry_complete env a)"
proof -
  assume h: "healthy a"
  have "healthy (transition_to_state STATE_IDLE b)" if "healthy b" "current_state b = STATE_INQUIRY" for b
    by (rule healthy_idle) (use that healthy_pending [OF that(1)] in auto)
  with h show ?thesis
    by (simp add: on_inquiry_complete_def Let_def unexpected_message_def split: option.split)
       (auto simp: unexpected_message_def intro!: healthy_begin)
qed

lemma healthy_on_connection_complete [healthy_intros]:
  assumes h: "healthy a" and v: "handle \<noteq> HCI_CON_HANDLE_INVALID"
  shows "healthy (on_connection_complete status handle address a)"
proof (cases "current_state a = STATE_CONNECTING")
  case False
  with h show ?thesis by (simp add: on_connection_complete_def Let_def unexpected_message_def)
next
  case True
  then have "unlinked (current_state a)" by simp
  note d = healthy_unlinkedD [OF h this]
  have q: "quiet a" using h by (rule healthy_quiet)
  have idle: "healthy (transition_to_state STATE_IDLE b)"
    if "quiet b" "hid_channels b = hid_channels a" "acl_handle b = acl_handle a"
      "\<not> connecting_device_valid b" "\<not> connection_cancel_requested b" for b
    using that d by (intro healthy_unlinkedI) auto
  have up: "healthy (transition_to_state STATE_CONNECTED b)"
    if "quiet b" "hid_channels b = hid_channels a" "acl_handle b = handle"
      "current_state b = STATE_CONNECTING" "\<not> connecting_device_valid b" "\<not> connection_cancel_requested b" for b
    using that d v by (intro healthy_linkedI) (auto simp: channels_match_def bt_state_transition_allowed_def)
  have auth: "healthy (transition_to_state STATE_AUTHENTICATING b)"
    if "quiet b" "\<not> hc_interrupt_open (hid_channels b)" "\<not> hc_control_open (hid_channels b)"
      "acl_handle b = handle"
      "current_state b = STATE_CONNECTED" "\<not> connecting_device_valid b" "\<not> connection_cancel_requested b" for b
    using that v by (intro healthy_linkedI) (auto simp: channels_match_def bt_state_transition_allowed_def)
  show ?thesis
    using True q d
    by (simp add: on_connection_complete_def Let_def unexpected_message_def split: option.split)
       (auto intro!: idle up auth simp: unexpected_message_def bt_state_transition_allowed_def
         reset_hid_channels_def hid_channels_defs)
qed

lemma healthy_on_channel_opened [healthy_intros]:
  assumes h: "healthy a"
    and c: "stack_contract a (Packet (HCI_EVENT_PACKET (L2CAP_EVENT_CHANNEL_OPENED status psm lcid rcid)))"
  shows "healthy (on_channel_opened env status psm lcid rcid a)"
proof -
  have l: "linked (current_state a)" using c by simp
  note d = healthy_linkedD [OF h l]
  have q: "quiet a" using h by (rule healthy_quiet)
  define b where "b = usb_serial_printf ''[BT] L2CAP opened PSM=0x%04x CID=0x%04x'' [LNum (unat psm), LNum (unat lcid)]
    (usb_serial_printf ''[BT] Event: L2CAP_EVENT_CHANNEL_OPENED'' [] a)"
  have b: "quiet b" "hid_channels b = hid_channels a" "current_state b = current_state a"
    "acl_handle b = acl_handle a" "connecting_device_valid b = connecting_device_valid a"
    "connection_cancel_requested b = connection_cancel_requested a" "healthy b"
    using h q by (simp_all add: b_def unexpected_message_def)
  define x where "x = transition_to_state STATE_SETTING_BOOT_PROTOCOL
    (b\<lparr>hid_channels := hid_channels_control_opened (hid_channels b) lcid\<rparr>)"
  define y where "y = usb_serial_printf ''[BT] HID_READY'' [] (transition_to_state STATE_HID_CONNECTED
    (b\<lparr>hid_channels := hid_channels_interrupt_opened (hid_channels b) lcid\<rparr>))"
  have x: "healthy x \<and> linked (current_state x)" if "current_state a = STATE_OPENING_CONTROL"
  proof -
    have "linked (current_state x)" by (simp add: x_def)
    then show ?thesis using that d b unfolding x_def
      by (intro conjI healthy_linkedI)
        (auto simp: channels_match_def bt_state_transition_allowed_def hid_channels_defs)
  qed
  have y: "healthy y" if "current_state a = STATE_OPENING_INTERRUPT"
    using that d b unfolding y_def by (intro healthy_linkedI)
      (auto simp: channels_match_def bt_state_transition_allowed_def hid_channels_defs unexpected_message_def)
  have sync: "healthy (z\<lparr>hid_channels := hid_channels_request_led_sync (hid_channels z)\<rparr>) = healthy z" for z
    by (simp add: healthy_def coherent_def channels_match_def hid_channels_defs)
  show ?thesis
  proof (cases "status = 0")
    case False
    with h l show ?thesis
      by (auto simp: on_channel_opened_def unexpected_message_def intro!: healthy_error)
  next
    case True
    have eq: "on_channel_opened env status psm lcid rcid a =
      (case get_connected_device a of
         None \<Rightarrow> disconnect_acl_after_error ''L2CAP device lookup'' ERROR_CODE_UNKNOWN_CONNECTION_IDENTIFIER b
       | Some i \<Rightarrow>
           if psm = dev_hid_control_psm (device_at a i)
           then let (request_status, x) = bt_status_call env
                       (l2cap_request_can_send_now_event (hc_control_cid (hid_channels x))) x
                in if request_status \<noteq> ERROR_CODE_SUCCESS
                   then disconnect_acl_after_error ''Set Boot Protocol scheduling'' request_status x else x
           else if psm = dev_hid_interrupt_psm (device_at a i)
           then schedule_keyboard_led_report env
                  (y\<lparr>hid_channels := hid_channels_request_led_sync (hid_channels y)\<rparr>)
           else b)"
      using True unfolding x_def y_def by (cases "get_connected_device a")
        (simp_all add: on_channel_opened_def b_def Let_def cong: if_cong)
    have "healthy (let (request_status, x) = bt_status_call env c x
                in if request_status \<noteq> ERROR_CODE_SUCCESS
                   then disconnect_acl_after_error ''Set Boot Protocol scheduling'' request_status x else x)"
      if "current_state a = STATE_OPENING_CONTROL" for c
      using x [OF that] by (simp add: bt_status_call_def Let_def healthy_error)
    then show ?thesis
      using c True l b y unfolding eq
      by (cases "get_connected_device a") (auto simp: sync healthy_error)
  qed
qed


lemma healthy_channels:
  assumes "healthy a" and "hc_interrupt_open ch \<longrightarrow> hc_interrupt_open (hid_channels a)"
    and "hc_control_open ch \<longrightarrow> hc_control_open (hid_channels a)"
  shows "healthy (a\<lparr>hid_channels := ch\<rparr>)"
  using assms by (simp add: healthy_def coherent_def channels_match_def)

text \<open>Whatever is sent on the control channel and fails is reported while the link exists.\<close>

lemma healthy_on_can_send_now [healthy_intros]:
  assumes h: "healthy a" and wf: "app_wf a"
  shows "healthy (on_can_send_now env cid a)"
proof -
  have "linked (current_state a)" if "hc_boot_protocol_request_pending (hid_channels a)"
    using that h app_wfD(2) [OF wf]
    by (auto simp: hc_wf_def healthy_def coherent_def channels_match_def)
  then show ?thesis using h
    by (auto simp: on_can_send_now_def Let_def bt_status_call_def unexpected_message_def
      split: prod.split intro!: healthy_error healthy_channels)
qed

lemma channels_closed_flags:
  "hc_interrupt_open (snd (hid_channels_closed ch cid)) \<Longrightarrow> hc_interrupt_open ch"
  "hc_control_open (snd (hid_channels_closed ch cid)) \<Longrightarrow> hc_control_open ch"
  by (auto simp: hid_channels_closed_def Let_def split: if_splits)

lemma healthy_on_channel_closed [healthy_intros]:
  assumes h: "healthy a"
  shows "healthy (on_channel_closed cid a)"
proof -
  obtain closed ch where c: "hid_channels_closed (hid_channels a) cid = (closed, ch)"
    by (cases "hid_channels_closed (hid_channels a) cid")
  have "healthy (x\<lparr>hid_channels := ch\<rparr>)" if "healthy x" "hid_channels x = hid_channels a" for x
    using that channels_closed_flags [of "hid_channels a" cid] c by (intro healthy_channels) simp_all
  with h c show ?thesis by (simp add: on_channel_closed_def Let_def unexpected_message_def)
qed

lemma healthy_handle_linked:
  assumes "healthy a" and "current_state a = STATE_AUTHENTICATING"
  shows "healthy (disconnect_acl_after_error st e a)"
  using assms by (simp add: healthy_error)

lemma healthy_security_events [healthy_intros]:
  assumes "healthy a"
  shows "healthy (on_security_level env handle status level a)"
    and "healthy (on_authentication_complete handle status a)"
    and "healthy (on_encryption_change env handle status enabled a)"
  using assms
  by (auto simp: on_security_level_def on_authentication_complete_def on_encryption_change_def Let_def
    unexpected_message_def intro!: healthy_handle_linked healthy_start_sdp)

lemma healthy_on_disconnection_complete [healthy_intros]:
  assumes h: "healthy a" and v: "acl_handle a \<noteq> HCI_CON_HANDLE_INVALID"
  shows "healthy (on_disconnection_complete handle reason a)"
proof -
  have l: "linked (current_state a)" using h v by (simp add: healthy_def coherent_def)
  show ?thesis unfolding on_disconnection_complete_def Let_def healthy_same
    by (rule healthy_unlinkedI)
      (use healthy_linkedD [OF h l] healthy_quiet [OF h] in
        \<open>auto simp: handle_disconnected_state_def reset_hid_channels_def hid_channels_defs unexpected_message_def\<close>)
qed

lemma healthy_pairing_events [healthy_intros]:
  assumes "healthy a"
  shows "healthy (on_pin_code_request env addr a)" and "healthy (on_link_key_request env addr a)"
  using assms
  by (simp_all add: on_pin_code_request_def on_link_key_request_def get_link_key_def bt_status_call_def Let_def
    unexpected_message_def split: prod.split option.split)

lemma healthy_on_link_key_notification [healthy_intros]:
  "on_link_key_notification env addr packet a = Some a' \<Longrightarrow> healthy a \<Longrightarrow> healthy a'"
  by (auto simp: on_link_key_notification_def get_link_key_def Let_def unexpected_message_def
    split: if_splits Option.bind_splits option.splits prod.splits)


lemma healthy_hci_event:
  assumes h: "healthy a" and wf: "app_wf a" and c: "stack_contract a (Packet (HCI_EVENT_PACKET e))"
    and r: "handle_hci_event env e a = Some a'"
  shows "healthy a'"
  using r c h wf
  by (cases e)
    (auto simp: handle_hci_event_def unexpected_message_def
      intro: healthy_intros)

lemma healthy_control_data [healthy_intros]:
  assumes h: "healthy a" and r: "handle_control_data env packet a = Some a'"
  shows "healthy a'"
  using r h
  by (auto simp: handle_control_data_def Let_def unexpected_message_def
    intro!: healthy_open_interrupt healthy_error split: if_splits Option.bind_splits)

lemma healthy_send_report [simp]: "healthy (keyboard_action (keyboard_send_report m ks) a) = healthy a"
  by (rule healthy_cong) simp_all

lemma healthy_packet [healthy_intros]:
  assumes h: "healthy a" and wf: "app_wf a" and c: "stack_contract a (Packet p)"
    and r: "hci_event_handler env p a = Some a'"
  shows "healthy a'"
proof (cases p)
  case (L2CAP_DATA_PACKET channel packet)
  with r h show ?thesis
    by (auto simp: hci_event_handler_def handle_hid_data_packet_def unexpected_message_def
      split: if_splits Option.bind_splits hid_boot_parse_result.splits intro: healthy_control_data)
next
  case (HCI_EVENT_PACKET e)
  with r c h wf show ?thesis by (simp add: hci_event_handler_def healthy_hci_event)
next
  case OTHER_PACKET
  with r h show ?thesis by (simp add: hci_event_handler_def)
qed

lemma healthy_sdp_attribute [healthy_intros]:
  assumes h: "healthy a" and r: "handle_sdp_attribute aid n i b a = Some a'"
  shows "healthy a'"
proof -
  obtain p d lines where f: "sdp_parser_feed SDP_SEARCH_FRAMES (sdp_parser a)
      (map_option (device_at a) (get_connected_device a)) aid n i b = Some (p, d, lines)"
    using r by (auto simp: handle_sdp_attribute_def Let_def split: Option.bind_splits)
  have "healthy (a\<lparr>sdp_parser := p, app_log := app_log a @ lines\<rparr>) = healthy a"
    by (rule healthy_cong) (use quiet_sdp_lines [OF f] in \<open>simp_all add: quiet_def image_Un\<close>)
  with r f h show ?thesis
    by (auto simp: handle_sdp_attribute_def Let_def split: option.splits)
qed

lemma healthy_sdp_complete [healthy_intros]:
  assumes h: "healthy a" and c: "stack_contract a (Sdp (SDP_EVENT_QUERY_COMPLETE status))"
  shows "healthy (handle_sdp_complete env status a)"
proof -
  have l: "linked (current_state a)" using c by simp
  with h c show ?thesis
    by (auto simp: handle_sdp_complete_def Let_def unexpected_message_def
      intro!: healthy_open_control healthy_error split: option.split)
qed

lemma healthy_sdp_event [healthy_intros]:
  assumes h: "healthy a" and c: "stack_contract a (Sdp e)"
    and r: "handle_sdp_client_query_result env e a = Some a'"
  shows "healthy a'"
  using r h c
  by (cases e) (auto simp: handle_sdp_client_query_result_def unexpected_message_def
    intro: healthy_intros)

lemma healthy_timers [healthy_intros]:
  assumes "healthy a"
  shows "healthy (inquiry_timer_handler env a)" and "healthy (pairing_pin_timeout a)"
  using assms by (simp_all add: inquiry_timer_handler_def pairing_pin_timeout_def Let_def unexpected_message_def healthy_begin)

lemma healthy_submit [healthy_intros]: "healthy a \<Longrightarrow> healthy (snd (bluetooth_control_submit r a))"
  by (simp add: bluetooth_control_submit_def Let_def split: prod.split)

lemma healthy_set_leds [healthy_intros]: "healthy a \<Longrightarrow> healthy (bluetooth_set_keyboard_leds leds a)"
  unfolding bluetooth_set_keyboard_leds_def
  by (rule healthy_channels) (auto simp: hid_channels_set_leds_def Let_def)

lemma healthy_apply:
  assumes "healthy a" and "app_wf a" and "stack_contract a e" and "bt_apply env e a = Some a'"
  shows "healthy a'"
  using assms
  by (cases e) (auto simp: bt_apply_def intro: healthy_intros dest: healthy_task)

lemma healthy_init: "healthy (bluetooth_init env bt_app_boot)"
proof -
  have "healthy bt_app_boot"
    by (rule healthy_unlinkedI) (simp_all add: bt_app_boot_def quiet_def hid_channels_defs)
  moreover have "healthy (b\<lparr>hid_channels := hid_channels_init, control_requests := control_request_queue_init\<rparr>)"
    if "healthy b" for b
    using healthy_channels [OF that, of hid_channels_init] by (simp add: hid_channels_defs)
  moreover have "healthy (load_selected_device env b) = healthy b" for b
    by (simp add: load_selected_device_def Let_def unexpected_message_def split: prod.split option.split)
  ultimately show ?thesis by (simp add: bluetooth_init_def Let_def unexpected_message_def)
qed

lemma bt_run_healthy: "bt_run env a \<Longrightarrow> healthy a"
proof (induction rule: bt_run.induct)
  case init
  show ?case by (rule healthy_init)
next
  case (step a e a')
  then show ?case using healthy_apply bt_reachable_wf bt_run_reachable by blast
qed

interpretation bt_session: event_system "bt_apply env" stack_contract "\<lambda>a. app_wf a \<and> healthy a" for env
  by unfold_locales (use bt_apply_ok healthy_apply in blast)

section \<open>The example run\<close>

lemma demo_contract:
  "allowed_run (bt_apply demo_btstack) stack_contract demo_events (bluetooth_init demo_btstack bt_app_boot)"
  by code_simp

lemma demo_at_9:
  "current_state (demo_state 9) = STATE_HID_CONNECTED"
  "acl_handle (demo_state 9) = 0x000b" "auto_connect_enabled (demo_state 9) \<and> selected_device_valid (demo_state 9)"
  "hid_channels (demo_state 9) =
     \<lparr>hc_control_cid = 0x40, hc_interrupt_cid = 0x41, hc_control_open = True, hc_interrupt_open = True,
      hc_boot_protocol_request_pending = False, hc_led_state = 0, hc_led_report_pending = True,
      hc_led_can_send_requested = True\<rparr>"
  "\<forall>c\<in>set (calls (demo_state 9)). case c of gap_disconnect _ \<Rightarrow> False | _ \<Rightarrow> True"
proof -
  have "(let a = demo_state 9
     in (current_state a, acl_handle a, auto_connect_enabled a \<and> selected_device_valid a, hid_channels a,
         list_all (\<lambda>c. case c of gap_disconnect _ \<Rightarrow> False | _ \<Rightarrow> True) (calls a))) =
    (STATE_HID_CONNECTED, 0x000b, True,
     \<lparr>hc_control_cid = 0x40, hc_interrupt_cid = 0x41, hc_control_open = True, hc_interrupt_open = True,
      hc_boot_protocol_request_pending = False, hc_led_state = 0, hc_led_report_pending = True,
      hc_led_can_send_requested = True\<rparr>, True)" by code_simp
  then show "current_state (demo_state 9) = STATE_HID_CONNECTED"
    "acl_handle (demo_state 9) = 0x000b" "auto_connect_enabled (demo_state 9) \<and> selected_device_valid (demo_state 9)"
    "hid_channels (demo_state 9) =
       \<lparr>hc_control_cid = 0x40, hc_interrupt_cid = 0x41, hc_control_open = True, hc_interrupt_open = True,
        hc_boot_protocol_request_pending = False, hc_led_state = 0, hc_led_report_pending = True,
        hc_led_can_send_requested = True\<rparr>"
    "\<forall>c\<in>set (calls (demo_state 9)). case c of gap_disconnect _ \<Rightarrow> False | _ \<Rightarrow> True"
    by (simp_all add: Let_def list_all_iff)
qed

section \<open>Properties\<close>



end
