(* ===== verification/Log_Messages.thy ===== *)
theory Log_Messages
  imports Bluetooth_Session Printf
begin

text \<open>
  Every message the Bluetooth application prints has arguments that fit its format. The model records
  a message as its format, without the line end that all formats of \<open>bluetooth.c\<close> have in common, and
  its arguments; \<open>printed_text\<close> is what \<open>vsnprintf\<close> makes of it.
\<close>

definition line_end :: string where
  "line_end = [CHR 0x0D, CHR 0x0A]"

definition printed_text :: "log_line \<Rightarrow> string option" where
  "printed_text l = format_text (fst l @ line_end) (snd l)"

definition printable_line :: "log_line \<Rightarrow> bool" where
  "printable_line l \<longleftrightarrow> printed_text l \<noteq> None"

text \<open>The reports in the queue have six key codes, as their type says in C.\<close>

definition reports_wf :: "usb_keyboard \<Rightarrow> bool" where
  "reports_wf k \<longleftrightarrow> (\<forall>r\<in>set (report_queue k). length (kr_keycodes r) = 6)"

definition formats_ok :: "bt_app \<Rightarrow> bool" where
  "formats_ok a \<longleftrightarrow> (\<forall>l\<in>set (app_log a). printable_line l) \<and> reports_wf (keyboard a)"

lemma printable_simp [simp]: "printable_line (fmt, args) \<longleftrightarrow> format_text (fmt @ [CHR 0x0D, CHR 0x0A]) args \<noteq> None"
  by (simp add: printable_line_def printed_text_def line_end_def)

lemma formats_printf [simp]:
  "formats_ok (usb_serial_printf fmt args a) \<longleftrightarrow> formats_ok a \<and> printable_line (fmt, args)"
  by (auto simp: formats_ok_def usb_serial_printf_def simp del: printable_simp)


lemma formats_cong: "app_log a = app_log b \<Longrightarrow> keyboard a = keyboard b \<Longrightarrow> formats_ok a = formats_ok b"
  by (simp add: formats_ok_def)

lemma formats_append:
  "formats_ok (a\<lparr>app_log := app_log a @ lines\<rparr>) \<longleftrightarrow> formats_ok a \<and> (\<forall>l\<in>set lines. printable_line l)"
  by (auto simp: formats_ok_def simp del: printable_simp)

lemma formats_updates [simp]:
  "formats_ok (a\<lparr>local_address := v0\<rparr>) = formats_ok a"
  "formats_ok (a\<lparr>connected_device_addr := v1\<rparr>) = formats_ok a"
  "formats_ok (a\<lparr>connecting_device_addr := v2\<rparr>) = formats_ok a"
  "formats_ok (a\<lparr>connecting_device_valid := v3\<rparr>) = formats_ok a"
  "formats_ok (a\<lparr>connection_cancel_requested := v4\<rparr>) = formats_ok a"
  "formats_ok (a\<lparr>stack_working := v5\<rparr>) = formats_ok a"
  "formats_ok (a\<lparr>startup_logged := v6\<rparr>) = formats_ok a"
  "formats_ok (a\<lparr>current_state := v7\<rparr>) = formats_ok a"
  "formats_ok (a\<lparr>inquiry_count := v8\<rparr>) = formats_ok a"
  "formats_ok (a\<lparr>inquiry_timer_armed := v9\<rparr>) = formats_ok a"
  "formats_ok (a\<lparr>acl_handle := v10\<rparr>) = formats_ok a"
  "formats_ok (a\<lparr>selected_device_addr := v11\<rparr>) = formats_ok a"
  "formats_ok (a\<lparr>selected_device_valid := v12\<rparr>) = formats_ok a"
  "formats_ok (a\<lparr>auto_connect_enabled := v13\<rparr>) = formats_ok a"
  "formats_ok (a\<lparr>pairing_pin_pending := v14\<rparr>) = formats_ok a"
  "formats_ok (a\<lparr>pairing_pin_timer_armed := v15\<rparr>) = formats_ok a"
  "formats_ok (a\<lparr>calls := v16\<rparr>) = formats_ok a"
  "formats_ok (a\<lparr>device_manager := v17\<rparr>) = formats_ok a"
  "formats_ok (a\<lparr>hid_channels := v18\<rparr>) = formats_ok a"
  "formats_ok (a\<lparr>sdp_parser := v19\<rparr>) = formats_ok a"
  "formats_ok (a\<lparr>command_buffer := v20\<rparr>) = formats_ok a"
  "formats_ok (a\<lparr>command_length := v21\<rparr>) = formats_ok a"
  "formats_ok (a\<lparr>control_requests := v22\<rparr>) = formats_ok a"
  by (simp_all add: formats_ok_def)

lemma formats_calls [simp]:
  "formats_ok (bt_call c a) = formats_ok a"
  "formats_ok (clear_pairing_pin a) = formats_ok a"
  "formats_ok (show_pairing_pin a) = formats_ok a"
  "formats_ok (cancel_inquiry_timer a) = formats_ok a"
  "formats_ok (snd (store_selected_device env ad a)) = formats_ok a"
  "formats_ok (delete_selected_device env a) = formats_ok a"
  "formats_ok (modify_device i f a) = formats_ok a"
  "formats_ok (reset_hid_channels a) = formats_ok a"
  by (rule formats_cong; simp)+

lemma formats_transition [simp]: "formats_ok (transition_to_state s a) = formats_ok a"
  by (auto simp: transition_to_state_def Let_def)

lemma formats_idle_timer [simp]: "formats_ok (start_idle_timer a) = formats_ok a"
  by (simp add: start_idle_timer_def Let_def)

lemma formats_start_inquiry [simp]: "formats_ok (start_inquiry a) = formats_ok a"
  by (simp add: start_inquiry_def Let_def)

lemma formats_more [simp]:
  "formats_ok (log_device d a) = formats_ok a"
  "formats_ok (restore_saved_device env ad a) = formats_ok a"
  "formats_ok (cancel_pending_connection env a) = formats_ok a"
  "formats_ok (schedule_keyboard_led_report env a) = formats_ok a"
  "formats_ok (snd (get_link_key env ad a)) = formats_ok a"
  by (simp_all add: log_device_def restore_saved_device_def cancel_pending_connection_def get_link_key_def
    schedule_keyboard_led_report_def bt_status_call_def Let_def split: prod.split option.split)

lemma formats_begin [simp]: "formats_ok (snd (begin_connection env ad a)) = formats_ok a"
  by (simp add: begin_connection_def bt_status_call_def Let_def)


lemma reports_wf_boot: "reports_wf usb_keyboard_boot"
  by (simp add: reports_wf_def usb_keyboard_boot_def zero_report_def)

lemma reports_wf_send:
  assumes "reports_wf k" and "length ks = 6"
  shows "reports_wf (fst (keyboard_send_report m ks k))"
    and "\<forall>l\<in>set (snd (keyboard_send_report m ks k)). printable_line l"
  using assms
  by (auto simp: keyboard_send_report_def reports_wf_def Let_def dest!: subsetD [OF set_update_subset_insert])

lemma formats_keyboard_action:
  assumes "formats_ok a" and "reports_wf (fst (f (keyboard a)))" and "\<forall>l\<in>set (snd (f (keyboard a))). printable_line l"
  shows "formats_ok (keyboard_action f a)"
  using assms by (cases "f (keyboard a)") (auto simp: keyboard_action_def formats_ok_def simp del: printable_simp)

lemma formats_reports: "formats_ok a \<Longrightarrow> reports_wf (keyboard a)"
  by (simp add: formats_ok_def)

lemma formats_send_report [intro]:
  "formats_ok a \<Longrightarrow> length ks = 6 \<Longrightarrow> formats_ok (keyboard_action (keyboard_send_report m ks) a)"
  by (intro formats_keyboard_action reports_wf_send formats_reports)

lemma formats_release [intro]: "formats_ok a \<Longrightarrow> formats_ok (release_usb_keyboard a)"
proof -
  assume a: "formats_ok a"
  then have "reports_wf (keyboard a\<lparr>report_queue_head := 0, report_queue_count := 0\<rparr>)"
    using formats_reports [OF a] by (simp add: reports_wf_def)
  from formats_keyboard_action [OF a, of keyboard_release_all] reports_wf_send [OF this, of "replicate 6 0" 0]
  show ?thesis by (simp add: release_usb_keyboard_def keyboard_release_all_def keyboard_release_def)
qed

lemma formats_error [intro]: "formats_ok a \<Longrightarrow> formats_ok (disconnect_acl_after_error st e a)"
  by (auto simp: disconnect_acl_after_error_def Let_def)

lemma formats_open [intro]:
  "formats_ok a \<Longrightarrow> formats_ok (open_interrupt_channel env a)"
  "formats_ok a \<Longrightarrow> formats_ok (open_control_channel env a)"
  "formats_ok a \<Longrightarrow> formats_ok (start_sdp_discovery env a)"
  by (auto simp: open_interrupt_channel_def open_control_channel_def start_sdp_discovery_def bt_status_call_def Let_def
    split: option.split)

lemma printable_devices: "\<forall>l\<in>set (device_manager_print_devices m). printable_line l"
  by (auto simp: device_manager_print_devices_def yes_no_def)

text \<open>\<open>None\<close> and the messages of a part of the SDP parser.\<close>

definition lines_ok :: "('a \<times> log_line list) option \<Rightarrow> bool" where
  "lines_ok r \<longleftrightarrow> (\<forall>d lines. r = Some (d, lines) \<longrightarrow> (\<forall>l\<in>set lines. printable_line l))"

lemma lines_ok_sdp:
  "lines_ok (parse_descriptor_list d buffer len)"
  "lines_ok (parse_psm_list frames dv aid buffer len)"
  "lines_ok (parse_name dv aid buffer len)"
  by (simp_all add: lines_ok_def parse_descriptor_list_def parse_psm_list_def parse_name_def Let_def
    split: Option.bind_split option.split)

lemma lines_okI: "lines_ok (Some (d, []))" "lines_ok (map_option (map_prod f id) r) = lines_ok r"
  by (auto simp: lines_ok_def simp del: printable_simp)

lemma lines_ok_attribute: "lines_ok (parse_attribute frames dv aid buffer len)"
  by (simp add: parse_attribute_def lines_okI lines_ok_sdp split: option.split)

lemma printable_sdp_lines:
  assumes "sdp_parser_feed frames p d aid n i b = Some (p', d', lines)"
  shows "\<forall>l\<in>set lines. printable_line l"
proof -
  have "lines = [] \<or> (\<exists>buffer dv. parse_attribute frames d aid buffer n = Some (dv, lines))"
    using assms by (simp add: sdp_parser_feed_def Let_def split: if_splits Option.bind_splits prod.splits) blast+
  with lines_ok_attribute show ?thesis by (auto simp: lines_ok_def simp del: printable_simp)
qed

section \<open>Requests and the console\<close>

lemma formats_print [simp]:
  "formats_ok (a\<lparr>app_log := app_log a @ device_manager_print_devices m\<rparr>) = formats_ok a"
  using printable_devices [of m] unfolding formats_append by blast

lemma formats_status [simp]: "formats_ok (a\<lparr>app_log := app_log a @ status_lines a\<rparr>) = formats_ok a"
  using printable_devices [of "device_manager a"]
  by (simp only: formats_append status_lines_def) simp

lemma formats_executes [simp]:
  "formats_ok (execute_scan a) = formats_ok a"
  "formats_ok (execute_disconnect env a) = formats_ok a"
  "formats_ok (execute_forget env a) = formats_ok a"
  by (simp_all add: execute_scan_def execute_disconnect_def execute_forget_def Let_def)

lemma formats_execute_connect [simp]: "formats_ok (execute_connect env ad a) = formats_ok a"
  by (simp add: execute_connect_def store_selected_device_def Let_def split: option.split)

lemma formats_execute_reconnect [simp]: "formats_ok (execute_reconnect env a) = formats_ok a"
  by (simp add: execute_reconnect_def Let_def split: option.split)

lemma formats_execute [simp]: "formats_ok (execute_control_request env r a) = formats_ok a"
  by (simp add: execute_control_request_def split: bluetooth_control_action.split)

lemma formats_run_requests: "run_control_requests env fuel a = Some a' \<Longrightarrow> formats_ok a' = formats_ok a"
proof (induction fuel arbitrary: a)
  case 0
  then show ?case by (simp add: run_control_requests.simps split: option.splits prod.splits)
next
  case (Suc fuel)
  show ?case
  proof (cases "control_request_queue_pop (control_requests a)")
    case None
    with Suc.prems show ?thesis by (simp add: run_control_requests.simps)
  next
    case (Some p)
    obtain r q where p: "p = (r, q)" by (cases p)
    from Suc.IH [of "execute_control_request env r (a\<lparr>control_requests := q\<rparr>)"] Suc.prems Some p
    show ?thesis by (simp add: run_control_requests.simps [of env "Suc fuel"])
  qed
qed

lemma formats_console_char: "console_char a ch = Some a' \<Longrightarrow> formats_ok a' = formats_ok a"
  by (auto simp: console_char_def submit_parsed_command_def bluetooth_control_submit_def Let_def CR_def LF_def
    split: if_splits Option.bind_splits option.splits prod.splits)

lemma formats_console: "console_input cs a = Some a' \<Longrightarrow> formats_ok a' = formats_ok a"
  by (induction cs arbitrary: a) (auto split: Option.bind_splits dest: formats_console_char)

lemma formats_startup [simp]: "formats_ok (log_startup v c a) = formats_ok a"
  by (simp add: log_startup_def)

lemma formats_task: "bluetooth_task env v i c a = Some a' \<Longrightarrow> formats_ok a' = formats_ok a"
  by (auto simp: bluetooth_task_def Let_def split: Option.bind_splits
    dest!: formats_console formats_run_requests)

section \<open>Events\<close>

lemma formats_stack [intro]:
  "formats_ok a \<Longrightarrow> formats_ok (on_stack_state env w a)"
  "formats_ok a \<Longrightarrow> formats_ok (on_inquiry_result env ad hr rssi cod name a)"
  by (simp_all add: on_stack_state_def on_inquiry_result_def get_link_key_def Let_def split: prod.split option.split)

lemma formats_inquiry_complete [intro]: "formats_ok a \<Longrightarrow> formats_ok (on_inquiry_complete env a)"
  by (simp add: on_inquiry_complete_def Let_def split: option.split)

lemma formats_connection_complete [intro]: "formats_ok a \<Longrightarrow> formats_ok (on_connection_complete s h ad a)"
  by (simp add: on_connection_complete_def Let_def split: option.split)

lemma formats_channel_opened [intro]: "formats_ok a \<Longrightarrow> formats_ok (on_channel_opened env s psm l r a)"
  by (auto simp: on_channel_opened_def bt_status_call_def Let_def split: option.split)

lemma formats_can_send_now [intro]: "formats_ok a \<Longrightarrow> formats_ok (on_can_send_now env cid a)"
  by (auto simp: on_can_send_now_def bt_status_call_def Let_def split: prod.split)

lemma formats_channel_closed [intro]: "formats_ok a \<Longrightarrow> formats_ok (on_channel_closed cid a)"
  by (auto simp: on_channel_closed_def Let_def split: prod.split)

lemma formats_security [intro]:
  "formats_ok a \<Longrightarrow> formats_ok (on_security_level env h s l a)"
  "formats_ok a \<Longrightarrow> formats_ok (on_authentication_complete h s a)"
  "formats_ok a \<Longrightarrow> formats_ok (on_encryption_change env h s e a)"
  by (auto simp: on_security_level_def on_authentication_complete_def on_encryption_change_def Let_def)

lemma formats_disconnection [intro]: "formats_ok a \<Longrightarrow> formats_ok (on_disconnection_complete h r a)"
  by (auto simp: on_disconnection_complete_def handle_disconnected_state_def Let_def)

lemma formats_pairing [intro]:
  "formats_ok a \<Longrightarrow> formats_ok (on_pin_code_request env ad a)"
  "formats_ok a \<Longrightarrow> formats_ok (on_link_key_request env ad a)"
  by (simp_all add: on_pin_code_request_def on_link_key_request_def get_link_key_def bt_status_call_def Let_def
    split: prod.split option.split)

lemma formats_link_key [dest]: "on_link_key_notification env ad p a = Some a' \<Longrightarrow> formats_ok a \<Longrightarrow> formats_ok a'"
  by (auto simp: on_link_key_notification_def get_link_key_def Let_def split: if_splits Option.bind_splits option.splits)

lemma formats_hci_event:
  "handle_hci_event env e a = Some a' \<Longrightarrow> formats_ok a \<Longrightarrow> formats_ok a'"
  by (cases e) (auto simp: handle_hci_event_def)

lemma boot_report_keycodes:
  assumes "hid_boot_keyboard_parse_input p n zero_boot_report = Some (HID_BOOT_PARSE_OK, report)"
  shows "length (br_keycodes report) = 6"
  using assms
  by (auto simp: hid_boot_keyboard_parse_input_def slice_at_def split: option.splits if_splits Option.bind_splits)

lemma printable_report:
  assumes "length ks = 6"
  shows "printable_line (''[HID] RX id=%u mod=%02x keys=%02x,%02x,%02x,%02x,%02x,%02x'',
    LNum n # LNum m # map (\<lambda>k. LNum (unat k)) ks)"
proof -
  from assms obtain a b c d e f where "ks = [a, b, c, d, e, f]" by (auto simp: numeral_eq_Suc length_Suc_conv)
  then show ?thesis by simp
qed

lemma formats_control_data [dest]: "handle_control_data env p a = Some a' \<Longrightarrow> formats_ok a \<Longrightarrow> formats_ok a'"
  by (auto simp: handle_control_data_def Let_def split: if_splits Option.bind_splits)

lemma formats_hid_data: "handle_hid_data_packet env ch p a = Some a' \<Longrightarrow> formats_ok a \<Longrightarrow> formats_ok a'"
  by (auto simp: handle_hid_data_packet_def printable_report boot_report_keycodes simp del: printable_simp
      intro!: formats_send_report split: if_splits Option.bind_splits hid_boot_parse_result.splits) auto

lemma formats_packet:
  assumes "hci_event_handler env p a = Some a'" and "formats_ok a"
  shows "formats_ok a'"
  using assms by (cases p) (auto simp: hci_event_handler_def dest: formats_hci_event formats_hid_data)

lemma formats_sdp_lines:
  "formats_ok (a\<lparr>sdp_parser := p, app_log := app_log a @ lines\<rparr>) \<longleftrightarrow> formats_ok a \<and> (\<forall>l\<in>set lines. printable_line l)"
  by (auto simp: formats_ok_def simp del: printable_simp)

lemma formats_sdp_attribute:
  "handle_sdp_attribute aid n i b a = Some a' \<Longrightarrow> formats_ok a \<Longrightarrow> formats_ok a'"
  by (auto simp: handle_sdp_attribute_def formats_sdp_lines Let_def simp del: printable_simp
    split: Option.bind_splits option.splits dest!: printable_sdp_lines)

lemma formats_sdp_complete [intro]: "formats_ok a \<Longrightarrow> formats_ok (handle_sdp_complete env status a)"
  by (auto simp: handle_sdp_complete_def Let_def split: option.split)

lemma formats_sdp:
  assumes "handle_sdp_client_query_result env ev a = Some a'" and "formats_ok a"
  shows "formats_ok a'"
  using assms by (cases ev) (auto simp: handle_sdp_client_query_result_def dest: formats_sdp_attribute)

lemma formats_timers [intro]:
  "formats_ok a \<Longrightarrow> formats_ok (inquiry_timer_handler env a)"
  "formats_ok a \<Longrightarrow> formats_ok (pairing_pin_timeout a)"
  by (simp_all add: inquiry_timer_handler_def pairing_pin_timeout_def Let_def)

lemma formats_submit [simp]: "formats_ok (snd (bluetooth_control_submit r a)) = formats_ok a"
  by (simp add: bluetooth_control_submit_def split: prod.split)

lemma formats_leds [simp]: "formats_ok (bluetooth_set_keyboard_leds leds a) = formats_ok a"
  by (simp add: bluetooth_set_keyboard_leds_def)

lemma formats_apply: "bt_apply env e a = Some a' \<Longrightarrow> formats_ok a \<Longrightarrow> formats_ok a'"
  by (cases e) (auto simp: bt_apply_def formats_task dest: formats_packet formats_sdp)

lemma formats_init: "formats_ok (bluetooth_init env bt_app_boot)"
  by (simp add: bluetooth_init_def load_selected_device_def Let_def formats_ok_def bt_app_boot_def reports_wf_boot bt_call_def
    usb_serial_printf_def split: prod.split)

lemma bt_reachable_formats: "bt_reachable env a \<Longrightarrow> formats_ok a"
  by (induction rule: bt_reachable.induct) (auto intro: formats_init formats_apply)

section \<open>Properties\<close>

text \<open>
  C23. Every message the Bluetooth application prints, whatever events arrive in whatever order, has
  arguments that its format accepts: as many as the format converts, each of the kind that its conversion
  expects, so that no call of \<open>usb_serial_printf\<close> reads an argument that is not there.
\<close>

theorem messages_fit_formats:
  assumes "bt_reachable env a" and "(fmt, args) \<in> set (app_log a)"
  shows "\<exists>tx. format_text (fmt @ line_end) args = Some tx"
  using bt_reachable_formats [OF assms(1)] assms(2)
  by (auto simp: formats_ok_def line_end_def simp del: printable_simp) (fastforce simp: line_end_def)

theorem messages_fit_formats_witness:
  "\<exists>tx. format_text (''[BT] Unknown SDP event 0x%02x'' @ line_end) [LNum 200] = Some tx"
proof -
  let ?a = "bluetooth_init demo_btstack bt_app_boot"
  have "bt_apply demo_btstack (Sdp (SDP_EVENT_OTHER 200)) ?a =
      Some (usb_serial_printf ''[BT] Unknown SDP event 0x%02x'' [LNum 200] ?a)"
    by (simp add: bt_apply_def handle_sdp_client_query_result_def)
  then have "bt_reachable demo_btstack (usb_serial_printf ''[BT] Unknown SDP event 0x%02x'' [LNum 200] ?a)"
    by (rule bt_reachable.step [OF bt_reachable.init])
  then show ?thesis by (rule messages_fit_formats) (simp add: usb_serial_printf_def)
qed

end
