(* ===== verification/Address_Types.thy ===== *)
theory Address_Types
  imports Bluetooth_Session
begin

text \<open>
  In C the type \<open>bd_addr_t\<close> says that an address has six bytes; in the model addresses are lists. The
  addresses that the application keeps - in the device table, in the queued requests, of the selected
  keyboard - have six bytes whenever those that BTstack, the flash and the web server hand in do.
\<close>

definition devices_typed :: "DeviceManager \<Rightarrow> bool" where
  "devices_typed m \<longleftrightarrow> (\<forall>d\<in>set (dm_devices m). length (dev_address d) = 6)"

definition requests_typed :: "control_request_queue \<Rightarrow> bool" where
  "requests_typed q \<longleftrightarrow> (\<forall>r\<in>set (crq_requests q). length (rq_address r) = 6)"

definition typed :: "bt_app \<Rightarrow> bool" where
  "typed a \<longleftrightarrow> devices_typed (device_manager a) \<and> length (selected_device_addr a) = 6 \<and>
     requests_typed (control_requests a)"

definition env_typed :: "btstack \<Rightarrow> bool" where
  "env_typed env \<longleftrightarrow> (\<forall>cs. length (snd (be_tlv_get env cs)) = 6)"

fun event_typed :: "bt_event \<Rightarrow> bool" where
  "event_typed (Packet (HCI_EVENT_PACKET (GAP_EVENT_INQUIRY_RESULT ad _ _ _ _))) \<longleftrightarrow> length ad = 6"
| "event_typed (Submit r) \<longleftrightarrow> length (rq_address r) = 6"
| "event_typed _ \<longleftrightarrow> True"

section \<open>The device table\<close>

lemma set_update_cases: "x \<in> set (xs[i := y]) \<Longrightarrow> x \<in> set xs \<or> x = y \<and> i < length xs"
  by (cases "i < length xs") (auto simp: list_update_beyond dest: subsetD [OF set_update_subset_insert])

lemma devices_typed_modify:
  "devices_typed m \<Longrightarrow> (\<And>d. dev_address (f d) = dev_address d) \<Longrightarrow> devices_typed (dm_modify i f m)"
  by (auto simp: devices_typed_def dm_modify_def dest!: set_update_cases)

lemma devices_typed_upsert:
  assumes "device_manager_upsert m ad h r c n = (res, created, m')" and "devices_typed m" and "length ad = 6"
  shows "devices_typed m'"
  using assms
  by (auto simp: device_manager_upsert_def devices_typed_def Let_def dest!: set_update_cases
    split: option.splits if_splits)

lemma devices_typed_map_used:
  "devices_typed m \<Longrightarrow> (\<And>d. dev_address (f d) = dev_address d) \<Longrightarrow> devices_typed (map_used f m)"
  by (auto simp: devices_typed_def map_used_def dest: in_set_takeD in_set_dropD)

lemma devices_typed_init [simp]: "devices_typed device_manager_init"
  by (simp add: devices_typed_def device_manager_init_def zero_device_def)

lemma typed_target:
  assumes "devices_typed m" and "device_manager_get_connection_target m = Some ad"
  shows "length ad = 6"
  using assms
  by (auto simp: device_manager_get_connection_target_def devices_typed_def Let_def find_Some_iff
    dest!: nth_mem dest: in_set_takeD split: option.splits)

section \<open>Operations\<close>

lemma typed_cong:
  "device_manager a = device_manager b \<Longrightarrow> selected_device_addr a = selected_device_addr b \<Longrightarrow>
   control_requests a = control_requests b \<Longrightarrow> typed a = typed b"
  by (simp add: typed_def)

lemma typed_updates [simp]:
  "typed (a\<lparr>local_address := v0\<rparr>) = typed a"
  "typed (a\<lparr>connected_device_addr := v1\<rparr>) = typed a"
  "typed (a\<lparr>connecting_device_addr := v2\<rparr>) = typed a"
  "typed (a\<lparr>connecting_device_valid := v3\<rparr>) = typed a"
  "typed (a\<lparr>connection_cancel_requested := v4\<rparr>) = typed a"
  "typed (a\<lparr>stack_working := v5\<rparr>) = typed a"
  "typed (a\<lparr>startup_logged := v6\<rparr>) = typed a"
  "typed (a\<lparr>current_state := v7\<rparr>) = typed a"
  "typed (a\<lparr>inquiry_count := v8\<rparr>) = typed a"
  "typed (a\<lparr>inquiry_timer_armed := v9\<rparr>) = typed a"
  "typed (a\<lparr>acl_handle := v10\<rparr>) = typed a"
  "typed (a\<lparr>selected_device_valid := v11\<rparr>) = typed a"
  "typed (a\<lparr>auto_connect_enabled := v12\<rparr>) = typed a"
  "typed (a\<lparr>pairing_pin_pending := v13\<rparr>) = typed a"
  "typed (a\<lparr>pairing_pin_timer_armed := v14\<rparr>) = typed a"
  "typed (a\<lparr>calls := v15\<rparr>) = typed a"
  "typed (a\<lparr>hid_channels := v16\<rparr>) = typed a"
  "typed (a\<lparr>sdp_parser := v17\<rparr>) = typed a"
  "typed (a\<lparr>command_buffer := v18\<rparr>) = typed a"
  "typed (a\<lparr>command_length := v19\<rparr>) = typed a"
  "typed (a\<lparr>app_log := v20\<rparr>) = typed a"
  "typed (a\<lparr>keyboard := v21\<rparr>) = typed a"
  by (simp_all add: typed_def)

lemma typed_frame [simp]:
  "typed (bt_call c a) = typed a"
  "typed (usb_serial_printf fmt args a) = typed a"
  "typed (clear_pairing_pin a) = typed a"
  "typed (show_pairing_pin a) = typed a"
  "typed (transition_to_state s a) = typed a"
  "typed (cancel_inquiry_timer a) = typed a"
  "typed (start_inquiry a) = typed a"
  "typed (start_idle_timer a) = typed a"
  "typed (snd (store_selected_device env ad a)) = typed a"
  "typed (delete_selected_device env a) = typed a"
  "typed (cancel_pending_connection env a) = typed a"
  "typed (log_device d a) = typed a"
  "typed (reset_hid_channels a) = typed a"
  "typed (schedule_keyboard_led_report env a) = typed a"
  "typed (release_usb_keyboard a) = typed a"
  "typed (disconnect_acl_after_error st e a) = typed a"
  "typed (open_interrupt_channel env a) = typed a"
  "typed (open_control_channel env a) = typed a"
  "typed (keyboard_action f a) = typed a"
  by (rule typed_cong; simp)+

lemma typed_modify_device: "typed a \<Longrightarrow> (\<And>d. dev_address (f d) = dev_address d) \<Longrightarrow> typed (modify_device i f a)"
  by (simp add: typed_def modify_device_def devices_typed_modify)

lemma typed_device_manager: "typed a \<Longrightarrow> devices_typed m \<Longrightarrow> typed (a\<lparr>device_manager := m\<rparr>)"
  by (simp add: typed_def)

lemma typedD: "typed a \<Longrightarrow> devices_typed (device_manager a)" "typed a \<Longrightarrow> length (selected_device_addr a) = 6"
  by (simp_all add: typed_def)

lemma typed_restore:
  assumes "typed a" and "length ad = 6"
  shows "typed (restore_saved_device env ad a)"
proof -
  obtain res created m where u: "device_manager_upsert (device_manager a) ad False 0 0x0540 None = (res, created, m)"
    by (cases "device_manager_upsert (device_manager a) ad False 0 0x0540 None")
  obtain res2 created2 m2 where u2: "device_manager_upsert device_manager_init ad False 0 0x0540 None = (res2, created2, m2)"
    by (cases "device_manager_upsert device_manager_init ad False 0 0x0540 None")
  from devices_typed_upsert [OF u typedD(1)] devices_typed_upsert [OF u2] assms show ?thesis
    by (auto simp: restore_saved_device_def u u2 get_link_key_def Let_def
      intro!: typed_device_manager devices_typed_modify split: option.split)
qed

lemma typed_begin [intro]:
  assumes "typed a" and "length ad = 6"
  shows "typed (snd (begin_connection env ad a))"
  using assms by (auto simp: begin_connection_def bt_status_call_def Let_def intro!: typed_restore)

lemma typed_start_sdp [intro]: "typed a \<Longrightarrow> typed (start_sdp_discovery env a)"
  by (auto simp: start_sdp_discovery_def bt_status_call_def Let_def clear_sdp_results_def
    intro!: typed_modify_device split: option.split)

section \<open>Requests\<close>

lemma typed_selected: "typed a \<Longrightarrow> length ad = 6 \<Longrightarrow> typed (a\<lparr>selected_device_addr := ad\<rparr>)"
  by (simp add: typed_def)

lemma typed_execute:
  assumes t: "typed a" and r: "length (rq_address r) = 6"
  shows "typed (execute_control_request env r a)"
proof -
  have "typed (execute_scan a)"
    using t by (simp add: execute_scan_def typed_device_manager)
  moreover have "typed (execute_connect env (rq_address r) a)"
    using t r by (auto simp: execute_connect_def store_selected_device_def Let_def
      intro!: typed_begin typed_selected split: option.split)
  moreover have "typed (execute_disconnect env a)"
    using t by (simp add: execute_disconnect_def Let_def)
  moreover have "typed (execute_reconnect env a)"
    using t typedD [OF t] by (auto simp: execute_reconnect_def Let_def
      intro!: typed_begin typed_selected dest: typed_target split: option.split)
  moreover have "typed (execute_forget env a)"
    using t typedD [OF t]
    by (auto simp: execute_forget_def device_manager_clear_bonded_def Let_def
      intro!: typed_device_manager devices_typed_map_used)
  ultimately show ?thesis
    using t by (cases "rq_action r") (simp_all add: execute_control_request_def)
qed

lemma typed_pop:
  assumes "control_request_queue_pop q = Some (r, q')" and "crq_wf q" and "requests_typed q"
  shows "requests_typed q'" and "length (rq_address r) = 6"
  using assms
  by (auto simp: control_request_queue_pop_def requests_typed_def crq_wf_def CONTROL_REQUEST_QUEUE_CAPACITY_def
    split: if_splits)

lemma typed_requests: "typed a \<Longrightarrow> requests_typed q \<Longrightarrow> typed (a\<lparr>control_requests := q\<rparr>)"
  by (simp add: typed_def)

lemma typed_run_requests:
  "run_control_requests env fuel a = Some a' \<Longrightarrow> app_wf a \<Longrightarrow> typed a \<Longrightarrow> typed a'"
proof (induction fuel arbitrary: a)
  case 0
  then show ?case by (simp add: run_control_requests.simps split: option.splits prod.splits)
next
  case (Suc fuel)
  show ?case
  proof (cases "control_request_queue_pop (control_requests a)")
    case None
    with Suc.prems show ?thesis by (simp add: run_control_requests.simps)
  next
    case (Some p)
    obtain r q where p: "p = (r, q)" by (cases p)
    have q: "crq_wf q" "requests_typed q" "length (rq_address r) = 6"
      using crq.deq_SomeD [OF app_wfD(4) [OF Suc.prems(2)] Some [unfolded p]]
        typed_pop [OF Some [unfolded p] app_wfD(4) [OF Suc.prems(2)]] Suc.prems(3) by (simp_all add: typed_def)
    let ?a = "execute_control_request env r (a\<lparr>control_requests := q\<rparr>)"
    have "app_wf ?a" "typed ?a"
      using Suc.prems(2,3) q by (auto intro: app_wf_execute app_wf_control_requests typed_execute typed_requests)
    with Suc.IH [of ?a] Suc.prems Some p show ?thesis by (simp add: run_control_requests.simps [of env "Suc fuel"])
  qed
qed

lemma typed_submit [intro]:
  "typed a \<Longrightarrow> length (rq_address r) = 6 \<Longrightarrow> typed (snd (bluetooth_control_submit r a))"
  by (auto simp: bluetooth_control_submit_def control_request_queue_push_def typed_def requests_typed_def Let_def
    dest!: set_update_cases)

lemma address_length: "parse_address_loop k i tx ad = Some (ok, ad') \<Longrightarrow> length ad' = length ad"
  by (induction k i tx ad rule: parse_address_loop.induct)
    (auto simp: Let_def split: if_splits Option.bind_splits)

lemma command_address: "control_command_parse line = Some (ok, command) \<Longrightarrow> length (cmd_address command) = 6"
  by (auto simp: control_command_parse_def parse_address_def Let_def dest!: address_length
    split: option.splits Option.bind_splits if_splits)

lemma typed_submit_command:
  "typed a \<Longrightarrow> length (cmd_address command) = 6 \<Longrightarrow> typed (snd (submit_parsed_command command a))"
  by (auto simp: submit_parsed_command_def request_of_command_def zero_request_def
    intro!: typed_submit split: option.split control_command_type.splits)

lemma typed_console_char:
  assumes "console_char a ch = Some a'" and "typed a"
  shows "typed a'"
proof -
  have "typed b" if "submit_parsed_command command (a\<lparr>command_buffer := buf\<rparr>) = (ok, b)"
    "control_command_parse line = Some (valid, command)" for command buf ok b line valid
    using typed_submit_command [OF _ command_address [OF that(2)], of "a\<lparr>command_buffer := buf\<rparr>"] assms(2) that(1) by simp
  with assms show ?thesis
    by (auto simp: console_char_def Let_def split: if_splits Option.bind_splits prod.splits)
qed

lemma typed_console: "console_input cs a = Some a' \<Longrightarrow> typed a \<Longrightarrow> app_wf a \<Longrightarrow> typed a'"
proof (induction cs arbitrary: a)
  case (Cons c cs)
  then obtain b where b: "console_char a c = Some b" "console_input cs b = Some a'" by (auto split: Option.bind_splits)
  from console_char_ok [OF Cons.prems(3), of c] b have "app_wf b" by auto
  with Cons.IH [OF b(2)] typed_console_char [OF b(1)] Cons.prems show ?case by simp
qed simp

lemma typed_task:
  assumes "bluetooth_task env v i c a = Some a'" and "app_wf a" and "typed a"
  shows "typed a'"
proof -
  let ?s = "schedule_keyboard_led_report env a"
  from assms(1) obtain b b2 where b: "console_input (map byte_char i) ?s = Some b"
    "run_control_requests env CONTROL_REQUEST_QUEUE_CAPACITY b = Some b2" "a' = log_startup v c b2"
    by (auto simp: bluetooth_task_def Let_def split: Option.bind_splits)
  have s: "typed ?s" "app_wf ?s" using assms by auto
  from console_input_ok [OF s(2), of "map byte_char i"] b(1) have "app_wf b" by auto
  from typed_run_requests [OF b(2) this typed_console [OF b(1) s]] b(3) show ?thesis
    by (simp add: log_startup_def)
qed

section \<open>Events\<close>

lemma typed_stack_state: "typed a \<Longrightarrow> typed (on_stack_state env w a)"
  by (auto simp: on_stack_state_def Let_def typedD intro!: typed_begin)

lemma typed_inquiry_result:
  assumes t: "typed a" and ad: "length ad = 6"
  shows "typed (on_inquiry_result env ad h r c n a)"
proof -
  obtain res created m where u: "device_manager_upsert (device_manager a) ad h r c n = (res, created, m)"
    by (cases "device_manager_upsert (device_manager a) ad h r c n")
  from devices_typed_upsert [OF u typedD(1) [OF t] ad] t show ?thesis
    by (auto simp: on_inquiry_result_def u get_link_key_def Let_def
      intro!: typed_modify_device typed_device_manager split: option.split)
qed

lemma typed_inquiry_target: "typed a \<Longrightarrow> inquiry_target a = Some ad \<Longrightarrow> length ad = 6"
  by (auto simp: inquiry_target_def typedD dest: typed_target [OF typedD(1)] split: if_splits option.splits)

lemma inquiry_target_frame [simp]:
  "inquiry_target (usb_serial_printf fmt args a) = inquiry_target a"
  "inquiry_target (a\<lparr>app_log := lines\<rparr>) = inquiry_target a"
  by (simp_all add: inquiry_target_def cong: option.case_cong if_cong)

lemma typed_inquiry_complete: "typed a \<Longrightarrow> typed (on_inquiry_complete env a)"
  by (auto simp: on_inquiry_complete_def Let_def dest: typed_inquiry_target [rotated]
    intro!: typed_begin typed_selected split: option.split)

lemma typed_connection_complete: "typed a \<Longrightarrow> typed (on_connection_complete s h ad a)"
  by (auto simp: on_connection_complete_def Let_def intro!: typed_modify_device split: option.split)

lemma typed_channel_events:
  "typed a \<Longrightarrow> typed (on_channel_opened env s psm l r a)"
  "typed a \<Longrightarrow> typed (on_can_send_now env cid a)"
  "typed a \<Longrightarrow> typed (on_channel_closed cid a)"
  by (auto simp: on_channel_opened_def on_can_send_now_def on_channel_closed_def bt_status_call_def Let_def
    split: option.split prod.split)

lemma typed_security:
  "typed a \<Longrightarrow> typed (on_security_level env h s l a)"
  "typed a \<Longrightarrow> typed (on_authentication_complete h s a)"
  "typed a \<Longrightarrow> typed (on_encryption_change env h s e a)"
  by (auto simp: on_security_level_def on_authentication_complete_def on_encryption_change_def Let_def)

lemma typed_disconnection: "typed a \<Longrightarrow> typed (on_disconnection_complete h r a)"
  by (auto simp: on_disconnection_complete_def handle_disconnected_state_def device_manager_clear_connections_def
    Let_def typedD intro!: typed_device_manager devices_typed_map_used)

lemma typed_pairing:
  "typed a \<Longrightarrow> typed (on_pin_code_request env ad a)"
  "typed a \<Longrightarrow> typed (on_link_key_request env ad a)"
  by (auto simp: on_pin_code_request_def on_link_key_request_def get_link_key_def bt_status_call_def Let_def
    intro!: typed_modify_device split: option.split prod.split)

lemma typed_link_key: "on_link_key_notification env ad p a = Some a' \<Longrightarrow> typed a \<Longrightarrow> typed a'"
  by (auto simp: on_link_key_notification_def get_link_key_def Let_def
    intro!: typed_modify_device split: if_splits Option.bind_splits option.splits)

lemmas typed_events = typed_stack_state typed_inquiry_result typed_inquiry_complete typed_connection_complete
  typed_channel_events typed_security typed_disconnection typed_pairing

lemma typed_hci_event:
  assumes "handle_hci_event env e a = Some a'" and "typed a" and "event_typed (Packet (HCI_EVENT_PACKET e))"
  shows "typed a'"
  using assms by (cases e) (auto simp: handle_hci_event_def typed_events dest: typed_link_key)

lemma typed_packet:
  assumes "hci_event_handler env p a = Some a'" and "typed a" and "event_typed (Packet p)"
  shows "typed a'"
  using assms
  by (cases p) (auto simp: hci_event_handler_def handle_hid_data_packet_def handle_control_data_def Let_def
    dest: typed_hci_event split: if_splits Option.bind_splits hid_boot_parse_result.splits)

lemma typed_sdp:
  assumes "handle_sdp_client_query_result env ev a = Some a'" and "typed a"
  shows "typed a'"
proof (cases ev)
  case (SDP_EVENT_QUERY_ATTRIBUTE_VALUE aid n i b)
  show ?thesis
  proof (cases "get_connected_device a")
    case None
    with assms SDP_EVENT_QUERY_ATTRIBUTE_VALUE show ?thesis
      by (auto simp: handle_sdp_client_query_result_def handle_sdp_attribute_def Let_def typed_def split: Option.bind_splits)
  next
    case (Some k)
    with assms(1) SDP_EVENT_QUERY_ATTRIBUTE_VALUE obtain p device lines where
      feed: "sdp_parser_feed SDP_SEARCH_FRAMES (sdp_parser a) (Some (device_at a k)) aid n i b = Some (p, device, lines)"
      by (auto simp: handle_sdp_client_query_result_def handle_sdp_attribute_def split: Option.bind_splits)
    from sdp_feed_device [OF feed] obtain d' where d': "device = Some d'" "dev_address d' = dev_address (device_at a k)" by auto
    with feed Some assms SDP_EVENT_QUERY_ATTRIBUTE_VALUE have
      "a' = modify_device k (\<lambda>_. d') (a\<lparr>sdp_parser := p, app_log := app_log a @ lines\<rparr>)"
      by (auto simp: handle_sdp_client_query_result_def handle_sdp_attribute_def Let_def)
    with d' assms(2) show ?thesis
      by (auto simp: modify_device_def typed_def devices_typed_def dm_modify_def dest!: set_update_cases)
  qed
next
  case (SDP_EVENT_QUERY_COMPLETE status)
  with assms show ?thesis
    by (auto simp: handle_sdp_client_query_result_def handle_sdp_complete_def Let_def
      intro!: typed_modify_device split: option.split)
next
  case (SDP_EVENT_OTHER e)
  with assms show ?thesis by (auto simp: handle_sdp_client_query_result_def)
qed

lemma typed_timers:
  "typed a \<Longrightarrow> typed (inquiry_timer_handler env a)"
  "typed a \<Longrightarrow> typed (pairing_pin_timeout a)"
  by (auto simp: inquiry_timer_handler_def pairing_pin_timeout_def typedD Let_def intro!: typed_begin)

lemma typed_apply:
  assumes "bt_apply env e a = Some a'" and "app_wf a" and "typed a" and "event_typed e"
  shows "typed a'"
  using assms
  by (cases e) (auto simp: bt_apply_def bluetooth_set_keyboard_leds_def typed_timers intro: typed_packet typed_sdp typed_task)

lemma typed_init: "env_typed env \<Longrightarrow> typed (bluetooth_init env bt_app_boot)"
  by (auto simp: bluetooth_init_def load_selected_device_def Let_def typed_def bt_app_boot_def bt_call_def
    usb_serial_printf_def env_typed_def requests_typed_def control_request_queue_init_def zero_request_def split: prod.split)
    (metis snd_conv)?

end
