(* ===== verification/Control_Json.thy ===== *)
theory Control_Json
  imports Printf Bluetooth_Control
begin

text \<open>
  \<open>src/web/control_json.c\<close>: the status document of the web page. The first part is the writer of the
  code, on an array of characters; the second a reference: JSON values, how they are printed and a
  parser that reads them back.
\<close>

section \<open>The writer\<close>

record json_writer =
  jw_buffer :: "char list"
  jw_capacity :: nat
  jw_length :: nat
  jw_valid :: bool

definition append_format :: "string \<Rightarrow> log_arg list \<Rightarrow> json_writer \<Rightarrow> json_writer option" where
  "append_format format args writer =
     (if \<not> jw_valid writer then Some writer
      else do {
        tx \<leftarrow> format_text format args;
        buf \<leftarrow> vsnprintf_at (jw_buffer writer) (jw_length writer) (jw_capacity writer - jw_length writer) tx;
        let writer = writer\<lparr>jw_buffer := buf\<rparr>;
        if length tx \<ge> jw_capacity writer - jw_length writer
        then Some (writer\<lparr>jw_valid := False\<rparr>)
        else Some (writer\<lparr>jw_length := jw_length writer + length tx\<rparr>)
      })"

abbreviation QUOTE :: char where "QUOTE \<equiv> CHR 0x22"
abbreviation BACKSLASH :: char where "BACKSLASH \<equiv> CHR 0x5C"

text \<open>The loop over the characters of the value, from the cursor on.\<close>

fun append_json_chars :: "char list \<Rightarrow> json_writer \<Rightarrow> json_writer option" where
  "append_json_chars [] writer = (if \<not> jw_valid writer then Some writer else None)"
| "append_json_chars (c # cursor) writer =
     (if \<not> jw_valid writer \<or> c = NUL then Some writer
      else do {
        writer \<leftarrow>
          (if c = QUOTE \<or> c = BACKSLASH then append_format [BACKSLASH, CHR ''%'', CHR ''c''] [LNum (of_char c)] writer
           else if (of_char c :: nat) < 0x20
           then append_format (BACKSLASH # ''u%04x'') [LNum (of_char c)] writer
           else append_format ''%c'' [LNum (of_char c)] writer);
        append_json_chars cursor writer
      })"

definition append_json_string :: "char list \<Rightarrow> json_writer \<Rightarrow> json_writer option" where
  "append_json_string value writer = do {
     writer \<leftarrow> append_format [QUOTE] [] writer;
     writer \<leftarrow> append_json_chars value writer;
     append_format [QUOTE] [] writer
   }"

definition append_address :: "bd_addr \<Rightarrow> json_writer \<Rightarrow> json_writer option" where
  "append_address address writer =
     append_format (QUOTE # ''%02X:%02X:%02X:%02X:%02X:%02X'' @ [QUOTE])
       (map (\<lambda>b. LNum (unat b)) (take 6 address)) writer"

abbreviation true_false :: "bool \<Rightarrow> log_arg" where
  "true_false b \<equiv> LStr (if b then ''true'' else ''false'')"

text \<open>A member name as it stands in the format strings, with its quotes and the colon.\<close>

abbreviation key :: "string \<Rightarrow> string" where
  "key name \<equiv> QUOTE # name @ [QUOTE, CHR '':'']"

definition append_device :: "nat \<Rightarrow> bluetooth_control_device \<Rightarrow> json_writer \<Rightarrow> json_writer option" where
  "append_device i device writer = do {
     writer \<leftarrow> append_format (''%s{'' @ key ''address'') [LStr (if i \<noteq> 0 then '','' else [])] writer;
     writer \<leftarrow> append_address (cd_address device) writer;
     writer \<leftarrow> append_format ('','' @ key ''name'') [] writer;
     writer \<leftarrow> append_json_string (cd_name device) writer;
     append_format
       ('','' @ key ''rssi'' @ ''%d,'' @ key ''hasRssi'' @ ''%s,'' @ key ''keyboard'' @ ''%s,'' @
        key ''bonded'' @ ''%s,'' @ key ''connected'' @ ''%s,'' @ key ''reportDescriptorPresent'' @ ''%s,'' @
        key ''reportDescriptorTooLarge'' @ ''%s,'' @ key ''reportDescriptorValid'' @ ''%s,'' @
        key ''reportKeyboard'' @ ''%s,'' @ key ''reportConsumerControl'' @ ''%s,'' @ key ''reportNkro'' @ ''%s,'' @
        key ''reportIds'' @ ''%s}'')
       [LInt (sint (cd_rssi device)), true_false (cd_has_rssi device), true_false (cd_keyboard device),
        true_false (cd_bonded device), true_false (cd_connected device),
        true_false (cd_report_descriptor_present device), true_false (cd_report_descriptor_too_large device),
        true_false (cd_report_descriptor_valid device), true_false (cd_report_has_keyboard device),
        true_false (cd_report_has_consumer_control device), true_false (cd_report_has_nkro_keyboard device),
        true_false (cd_report_uses_ids device)] writer
   }"

text \<open>The last \<open>n\<close> rounds of the loop over the devices.\<close>

fun append_devices :: "bluetooth_control_device list \<Rightarrow> nat \<Rightarrow> nat \<Rightarrow> json_writer \<Rightarrow> json_writer option" where
  "append_devices devices i 0 writer = Some writer"
| "append_devices devices i (Suc n) writer = do {
     device \<leftarrow> array_at devices i;
     writer \<leftarrow> append_device i device writer;
     append_devices devices (i + 1) n writer
   }"

definition append_snapshot :: "bluetooth_control_snapshot \<Rightarrow> json_writer \<Rightarrow> json_writer option" where
  "append_snapshot snapshot writer = do {
     writer \<leftarrow> append_format (''{'' @ key ''version'') [] writer;
     writer \<leftarrow> append_json_string (sn_version snapshot) writer;
     writer \<leftarrow> append_format ('','' @ key ''state'') [] writer;
     writer \<leftarrow> append_json_string (sn_state snapshot) writer;
     writer \<leftarrow> append_format ('','' @ key ''autoConnect'' @ ''%s,'' @ key ''pairingPin'')
       [true_false (sn_auto_connect snapshot)] writer;
     writer \<leftarrow> (if sn_has_pairing_pin snapshot then append_json_string (sn_pairing_pin snapshot) writer
                else append_format ''null'' [] writer);
     writer \<leftarrow> append_format ('','' @ key ''selectedDevice'') [] writer;
     writer \<leftarrow> (if sn_has_selected_device snapshot then append_address (sn_selected_device snapshot) writer
                else append_format ''null'' [] writer);
     writer \<leftarrow> append_format ('','' @ key ''devices'' @ ''['') [] writer;
     let device_count = (if sn_device_count snapshot > 16 then 16 else sn_device_count snapshot);
     writer \<leftarrow> append_devices (sn_devices snapshot) 0 device_count writer;
     append_format '']}'' [] writer
   }"

text \<open>The result, the buffer, and what is stored to \<open>*written\<close>.\<close>

definition control_json_write_snapshot ::
    "bluetooth_control_snapshot option \<Rightarrow> char list option \<Rightarrow> nat \<Rightarrow> bool \<Rightarrow>
     (bool \<times> char list option \<times> nat option) option" where
  "control_json_write_snapshot snapshot buffer capacity has_written =
     (case (snapshot, buffer) of
        (Some snapshot, Some buf) \<Rightarrow>
          if capacity = 0 then Some (False, Some buf, None)
          else do {
            buf \<leftarrow> array_put buf 0 NUL;
            writer \<leftarrow> append_snapshot snapshot
              \<lparr>jw_buffer = buf, jw_capacity = capacity, jw_length = 0, jw_valid = True\<rparr>;
            if \<not> jw_valid writer then do {
              buf \<leftarrow> array_put (jw_buffer writer) (capacity - 1) NUL;
              Some (False, Some buf, None)
            }
            else Some (True, Some (jw_buffer writer), if has_written then Some (jw_length writer) else None)
          }
      | _ \<Rightarrow> Some (False, buffer, None))"

section \<open>The text that is written\<close>

text \<open>The writer holds the text \<open>tx\<close>, or has given up because the text does not fit.\<close>

definition holds :: "nat \<Rightarrow> json_writer \<Rightarrow> string \<Rightarrow> bool" where
  "holds capacity w tx \<longleftrightarrow> jw_capacity w = capacity \<and> length (jw_buffer w) = capacity \<and>
     (if length tx < capacity
      then jw_valid w \<and> jw_length w = length tx \<and> take (length tx) (jw_buffer w) = tx \<and>
        jw_buffer w ! length tx = NUL
      else \<not> jw_valid w)"

text \<open>The step \<open>f\<close> appends the text \<open>tx\<close>.\<close>

definition appends :: "nat \<Rightarrow> (json_writer \<Rightarrow> json_writer option) \<Rightarrow> string \<Rightarrow> bool" where
  "appends capacity f tx \<longleftrightarrow> (\<forall>w t. holds capacity w t \<longrightarrow> (\<exists>w'. f w = Some w' \<and> holds capacity w' (t @ tx)))"

lemma appends_append_format:
  assumes "format_text format args = Some tx"
  shows "appends capacity (append_format format args) tx"
  unfolding appends_def
proof (intro allI impI)
  fix w t
  assume h: "holds capacity w t"
  show "\<exists>w'. append_format format args w = Some w' \<and> holds capacity w' (t @ tx)"
  proof (cases "length t < capacity")
    case False
    with h show ?thesis by (auto simp: append_format_def holds_def)
  next
    case True
    let ?n = "capacity - length t"
    have b: "length (jw_buffer w) = capacity" "jw_valid w" "jw_length w = length t"
      "take (length t) (jw_buffer w) = t" "jw_capacity w = capacity"
      using h True by (auto simp: holds_def)
    let ?b = "take (length t) (jw_buffer w) @ (take (?n - 1) tx @ [NUL]) @
      drop (length t + length (take (?n - 1) tx @ [NUL])) (jw_buffer w)"
    have v: "vsnprintf_at (jw_buffer w) (length t) ?n tx = Some ?b"
      using True b(1) by (simp add: vsnprintf_at_def bytes_put_def)
    have l: "length ?b = capacity" using True b(1) by simp
    show ?thesis
    proof (cases "length tx \<ge> ?n")
      case big: True
      with v assms b l show ?thesis by (simp add: append_format_def holds_def)
    next
      case False
      then have "?b = t @ tx @ [NUL] @ drop (length t + length tx + 1) (jw_buffer w)" using b by simp
      with v assms b l False show ?thesis by (simp add: append_format_def holds_def nth_append)
    qed
  qed
qed

lemma appends_bind:
  "appends capacity f t1 \<Longrightarrow> appends capacity g t2 \<Longrightarrow> appends capacity (\<lambda>w. Option.bind (f w) g) (t1 @ t2)"
  unfolding appends_def by (metis append_assoc bind.bind_lunit)

lemma appends_Nil: "appends capacity Some []"
  by (simp add: appends_def)

lemma appends_if: "(P \<Longrightarrow> appends c f tx) \<Longrightarrow> (\<not> P \<Longrightarrow> appends c g tx) \<Longrightarrow> appends c (\<lambda>w. if P then f w else g w) tx"
  by (cases P) simp_all

section \<open>JSON values\<close>

datatype jvalue = JNull | JBool bool | JInt int | JStr string | JArr "jvalue list" | JObj "(string \<times> jvalue) list"

definition json_escape :: "char \<Rightarrow> string" where
  "json_escape c =
     (if c = QUOTE \<or> c = BACKSLASH then [BACKSLASH, c]
      else if (of_char c :: nat) < 0x20
      then [BACKSLASH, CHR ''u'', CHR ''0'', CHR ''0'', lower_digit (of_char c div 16), lower_digit (of_char c mod 16)]
      else [c])"

definition json_string :: "string \<Rightarrow> string" where
  "json_string s = QUOTE # concat (map json_escape s) @ [QUOTE]"

fun commas :: "string list \<Rightarrow> string" where
  "commas [] = []"
| "commas [x] = x"
| "commas (x # y # xs) = x @ CHR '','' # commas (y # xs)"

fun json_text :: "jvalue \<Rightarrow> string" where
  "json_text JNull = ''null''"
| "json_text (JBool b) = (if b then ''true'' else ''false'')"
| "json_text (JInt i) = decimal_int i"
| "json_text (JStr s) = json_string s"
| "json_text (JArr vs) = CHR ''['' # commas (map json_text vs) @ '']''"
| "json_text (JObj ms) = CHR ''{'' # commas (map (\<lambda>(k, v). json_string k @ CHR '':'' # json_text v) ms) @ ''}''"

section \<open>The document as a value\<close>

definition device_json :: "bluetooth_control_device \<Rightarrow> jvalue" where
  "device_json d = JObj
     [(''address'', JStr (address_text upper_digit (cd_address d))),
      (''name'', JStr (c_string (cd_name d))),
      (''rssi'', JInt (sint (cd_rssi d))),
      (''hasRssi'', JBool (cd_has_rssi d)),
      (''keyboard'', JBool (cd_keyboard d)),
      (''bonded'', JBool (cd_bonded d)),
      (''connected'', JBool (cd_connected d)),
      (''reportDescriptorPresent'', JBool (cd_report_descriptor_present d)),
      (''reportDescriptorTooLarge'', JBool (cd_report_descriptor_too_large d)),
      (''reportDescriptorValid'', JBool (cd_report_descriptor_valid d)),
      (''reportKeyboard'', JBool (cd_report_has_keyboard d)),
      (''reportConsumerControl'', JBool (cd_report_has_consumer_control d)),
      (''reportNkro'', JBool (cd_report_has_nkro_keyboard d)),
      (''reportIds'', JBool (cd_report_uses_ids d))]"

definition snapshot_json :: "bluetooth_control_snapshot \<Rightarrow> jvalue" where
  "snapshot_json s = JObj
     [(''version'', JStr (c_string (sn_version s))),
      (''state'', JStr (c_string (sn_state s))),
      (''autoConnect'', JBool (sn_auto_connect s)),
      (''pairingPin'', if sn_has_pairing_pin s then JStr (c_string (sn_pairing_pin s)) else JNull),
      (''selectedDevice'', if sn_has_selected_device s then JStr (address_text upper_digit (sn_selected_device s)) else JNull),
      (''devices'', JArr (map device_json (take (min (sn_device_count s) 16) (sn_devices s))))]"

text \<open>What the fields of a snapshot guarantee.\<close>

definition cd_wf :: "bluetooth_control_device \<Rightarrow> bool" where
  "cd_wf d \<longleftrightarrow> length (cd_address d) = 6 \<and> length (cd_name d) = 64 \<and> nul_terminated (cd_name d)"

definition sn_wf :: "bluetooth_control_snapshot \<Rightarrow> bool" where
  "sn_wf s \<longleftrightarrow> length (sn_version s) = 32 \<and> nul_terminated (sn_version s) \<and>
     length (sn_state s) = 24 \<and> nul_terminated (sn_state s) \<and>
     length (sn_pairing_pin s) = 7 \<and> nul_terminated (sn_pairing_pin s) \<and> length (sn_selected_device s) = 6 \<and>
     length (sn_devices s) = 16 \<and> (\<forall>d\<in>set (sn_devices s). cd_wf d)"

lemma char_of_of_char [simp]: "char_of (of_char c :: nat) = (c :: char)"
  by (rule char_of_char)

lemma zero_pad_4_byte:
  "n < 256 \<Longrightarrow> zero_pad 4 (digits lower_digit 16 n) = ''00'' @ [lower_digit (n div 16), lower_digit (n mod 16)]"
proof -
  assume n: "n < 256"
  then have d: "n div 16 < 16" by simp
  show ?thesis
  proof (cases "n < 16")
    case True
    then show ?thesis by (simp add: digits_small zero_pad_def numeral_3_eq_3)
  next
    case False
    then show ?thesis using digits_small [OF d] by (subst digits.simps) (simp add: zero_pad_def numeral_2_eq_2)
  qed
qed

lemma escape_formats:
  "format_text [BACKSLASH, CHR ''%'', CHR ''c''] [LNum (of_char c)] = Some [BACKSLASH, c]"
  "format_text ''%c'' [LNum (of_char c)] = Some [c]"
  "(of_char c :: nat) < 0x20 \<Longrightarrow> format_text (BACKSLASH # ''u%04x'') [LNum (of_char c)] =
     Some [BACKSLASH, CHR ''u'', CHR ''0'', CHR ''0'', lower_digit (of_char c div 16), lower_digit (of_char c mod 16)]"
  by (simp_all add: zero_pad_4_byte)

lemma appends_escape:
  "appends capacity (\<lambda>writer. if c = QUOTE \<or> c = BACKSLASH then append_format [BACKSLASH, CHR ''%'', CHR ''c''] [LNum (of_char c)] writer
     else if (of_char c :: nat) < 0x20 then append_format (BACKSLASH # ''u%04x'') [LNum (of_char c)] writer
     else append_format ''%c'' [LNum (of_char c)] writer) (json_escape c)"
  using escape_formats [of c]
  by (intro appends_if) (auto simp: json_escape_def intro!: appends_append_format simp del: format_text.simps)

lemma holds_invalid: "holds capacity w t \<Longrightarrow> \<not> jw_valid w \<Longrightarrow> holds capacity w (t @ u)"
  by (auto simp: holds_def split: if_splits)

lemma appends_json_chars:
  assumes "nul_terminated value"
  shows "appends capacity (append_json_chars value) (concat (map json_escape (c_string value)))"
  using assms
proof (induction "value")
  case (Cons c cursor)
  show ?case
    unfolding appends_def
  proof (intro allI impI)
    fix w t
    assume h: "holds capacity w t"
    show "\<exists>w'. append_json_chars (c # cursor) w = Some w' \<and>
      holds capacity w' (t @ concat (map json_escape (c_string (c # cursor))))"
    proof (cases "jw_valid w \<and> c \<noteq> NUL")
      case False
      with h holds_invalid [OF h] show ?thesis by (auto simp: c_string_def)
    next
      case True
      from True Cons.prems have "nul_terminated cursor" by (auto simp: nul_terminated_def)
      note ih = Cons.IH [OF this]
      from appends_escape [of capacity c, unfolded appends_def, rule_format, OF h] obtain v where
        "(if c = QUOTE \<or> c = BACKSLASH then append_format [BACKSLASH, CHR ''%'', CHR ''c''] [LNum (of_char c)] w
         else if (of_char c :: nat) < 0x20 then append_format (BACKSLASH # ''u%04x'') [LNum (of_char c)] w
         else append_format ''%c'' [LNum (of_char c)] w) = Some v" "holds capacity v (t @ json_escape c)" by blast
      with ih [unfolded appends_def, rule_format, of v "t @ json_escape c"] True show ?thesis
        by (simp add: c_string_def)
    qed
  qed
qed (simp add: nul_terminated_def)

lemma appends_json_string:
  assumes "nul_terminated value"
  shows "appends capacity (append_json_string value) (json_string (c_string value))"
proof -
  have q: "appends capacity (append_format [QUOTE] []) [QUOTE]"
    by (rule appends_append_format) simp
  from appends_bind [OF q appends_bind [OF appends_json_chars [OF assms] q]] show ?thesis
    by (simp add: append_json_string_def [abs_def] json_string_def)
qed

lemma json_escape_plain: "of_char c \<notin> {34, 92 :: nat} \<Longrightarrow> 32 \<le> (of_char c :: nat) \<Longrightarrow> json_escape c = [c]"
  by (auto simp: json_escape_def)

lemma hex_digit_plain: "n < 16 \<Longrightarrow> json_escape (upper_digit n) = [upper_digit n]"
  by (rule json_escape_plain) (auto simp: upper_digit_def)

lemma escape_address: "concat (map json_escape (address_text upper_digit a)) = address_text upper_digit a"
proof (induction upper_digit a rule: address_text.induct)
  case (2 b)
  have "unat b < 256" using unsigned_less [of b] by simp
  then have "unat b div 16 < 16" "unat b mod 16 < 16" by simp_all
  then show ?case by (simp add: byte_text_def hex_digit_plain)
next
  case (3 b v va)
  have "unat b < 256" using unsigned_less [of b] by simp
  then have "unat b div 16 < 16" "unat b mod 16 < 16" by simp_all
  moreover have "json_escape CHR '':'' = '':''" by (simp add: json_escape_def)
  ultimately show ?case using 3 by (simp add: byte_text_def hex_digit_plain)
qed simp

lemma list_of_6: "length xs = 6 \<Longrightarrow> \<exists>a b c d e f. xs = [a, b, c, d, e, f]"
  by (auto simp: numeral_eq_Suc length_Suc_conv)

lemma appends_address:
  assumes "length a = 6"
  shows "appends capacity (append_address a) (json_text (JStr (address_text upper_digit a)))"
proof -
  from list_of_6 [OF assms] obtain x0 x1 x2 x3 x4 x5 where a: "a = [x0, x1, x2, x3, x4, x5]" by blast
  have "format_text (QUOTE # ''%02X:%02X:%02X:%02X:%02X:%02X'' @ [QUOTE]) (map (\<lambda>b. LNum (unat b)) (take 6 a)) =
      Some (QUOTE # address_text upper_digit a @ [QUOTE])"
    by (simp add: a zero_pad_2_byte)
  from appends_append_format [OF this] show ?thesis
    by (simp add: append_address_def [abs_def] json_string_def escape_address)
qed

text \<open>Names without special characters print as themselves.\<close>

definition plain :: "string \<Rightarrow> bool" where
  "plain s \<longleftrightarrow> (\<forall>c\<in>set s. json_escape c = [c])"

lemma json_string_plain: "plain s \<Longrightarrow> json_string s = QUOTE # s @ [QUOTE]"
  by (induction s) (simp_all add: json_string_def plain_def)

lemma plain_code: "plain s = list_all (\<lambda>c. c \<noteq> QUOTE \<and> c \<noteq> BACKSLASH \<and> \<not> (of_char c :: nat) < 0x20) s"
  by (auto simp: plain_def list_all_iff json_escape_def)

lemma key_plain: "plain s \<Longrightarrow> key s = json_string s @ '':''"
  by (simp add: json_string_plain)

abbreviation tf :: "bool \<Rightarrow> string" where
  "tf b \<equiv> (if b then ''true'' else ''false'')"

lemma appends_device:
  assumes "cd_wf d"
  shows "appends capacity (append_device i d) ((if i \<noteq> 0 then '','' else []) @ json_text (device_json d))"
proof -
  have l: "length (cd_address d) = 6" and n: "nul_terminated (cd_name d)" using assms by (simp_all add: cd_wf_def)
  have f1: "appends capacity (append_format (''%s{'' @ key ''address'') [LStr (if i \<noteq> 0 then '','' else [])])
      ((if i \<noteq> 0 then '','' else []) @ ''{'' @ key ''address'')"
    by (rule appends_append_format) simp
  have f2: "appends capacity (append_format ('','' @ key ''name'') []) ('','' @ key ''name'')"
    by (rule appends_append_format) simp
  let ?args = "[LInt (sint (cd_rssi d)), true_false (cd_has_rssi d), true_false (cd_keyboard d),
        true_false (cd_bonded d), true_false (cd_connected d),
        true_false (cd_report_descriptor_present d), true_false (cd_report_descriptor_too_large d),
        true_false (cd_report_descriptor_valid d), true_false (cd_report_has_keyboard d),
        true_false (cd_report_has_consumer_control d), true_false (cd_report_has_nkro_keyboard d),
        true_false (cd_report_uses_ids d)]"
  let ?tx = "'','' @ key ''rssi'' @ decimal_int (sint (cd_rssi d)) @ '','' @ key ''hasRssi'' @ tf (cd_has_rssi d) @
     '','' @ key ''keyboard'' @ tf (cd_keyboard d) @ '','' @ key ''bonded'' @ tf (cd_bonded d) @
     '','' @ key ''connected'' @ tf (cd_connected d) @
     '','' @ key ''reportDescriptorPresent'' @ tf (cd_report_descriptor_present d) @
     '','' @ key ''reportDescriptorTooLarge'' @ tf (cd_report_descriptor_too_large d) @
     '','' @ key ''reportDescriptorValid'' @ tf (cd_report_descriptor_valid d) @
     '','' @ key ''reportKeyboard'' @ tf (cd_report_has_keyboard d) @
     '','' @ key ''reportConsumerControl'' @ tf (cd_report_has_consumer_control d) @
     '','' @ key ''reportNkro'' @ tf (cd_report_has_nkro_keyboard d) @
     '','' @ key ''reportIds'' @ tf (cd_report_uses_ids d) @ ''}''"
  have f3: "appends capacity (append_format
       ('','' @ key ''rssi'' @ ''%d,'' @ key ''hasRssi'' @ ''%s,'' @ key ''keyboard'' @ ''%s,'' @
        key ''bonded'' @ ''%s,'' @ key ''connected'' @ ''%s,'' @ key ''reportDescriptorPresent'' @ ''%s,'' @
        key ''reportDescriptorTooLarge'' @ ''%s,'' @ key ''reportDescriptorValid'' @ ''%s,'' @
        key ''reportKeyboard'' @ ''%s,'' @ key ''reportConsumerControl'' @ ''%s,'' @ key ''reportNkro'' @ ''%s,'' @
        key ''reportIds'' @ ''%s}'') ?args) ?tx"
    by (rule appends_append_format) simp
  note chain = appends_bind [OF f1 appends_bind [OF appends_address [OF l] appends_bind [OF f2
      appends_bind [OF appends_json_string [OF n] f3]]]]
  have tx: "((if i \<noteq> 0 then '','' else []) @ ''{'' @ key ''address'') @
      json_text (JStr (address_text upper_digit (cd_address d))) @ ('','' @ key ''name'') @
      json_string (c_string (cd_name d)) @ ?tx = (if i \<noteq> 0 then '','' else []) @ json_text (device_json d)"
    by (simp add: device_json_def json_string_plain plain_code split del: if_split)
  from chain show ?thesis unfolding tx append_device_def [abs_def] .
qed

lemma commas_Cons: "commas (x # xs) = x @ (if xs = [] then [] else CHR '','' # commas xs)"
  by (cases xs) simp_all

lemma appends_devices:
  assumes "i + n \<le> length ds" and "\<forall>d\<in>set ds. cd_wf d"
  shows "appends capacity (append_devices ds i n)
    ((if i \<noteq> 0 \<and> 0 < n then '','' else []) @ commas (map (\<lambda>d. json_text (device_json d)) (take n (drop i ds))))"
  using assms
proof (induction n arbitrary: i)
  case 0
  then show ?case by (simp add: appends_Nil [unfolded id_def] appends_def)
next
  case (Suc n)
  have tk: "take (Suc n) (drop i ds) = ds ! i # take n (drop (i + 1) ds)"
    using Suc.prems(1) by (simp add: Cons_nth_drop_Suc [symmetric])
  have "cd_wf (ds ! i)" using Suc.prems by simp
  note step = appends_bind [OF appends_device [OF this, of capacity i] Suc.IH [of "i + 1", OF _ Suc.prems(2)]]
  have "append_devices ds i (Suc n) = (\<lambda>w. Option.bind (append_device i (ds ! i) w) (append_devices ds (i + 1) n))"
    using Suc.prems(1) by (intro ext) simp
  moreover have "((if i \<noteq> 0 then '','' else []) @ json_text (device_json (ds ! i))) @
      (if i + 1 \<noteq> 0 \<and> 0 < n then '','' else []) @ commas (map (\<lambda>d. json_text (device_json d)) (take n (drop (i + 1) ds))) =
      (if i \<noteq> 0 \<and> 0 < Suc n then '','' else []) @
      commas (map (\<lambda>d. json_text (device_json d)) (take (Suc n) (drop i ds)))"
    using Suc.prems(1) unfolding tk by (simp add: commas_Cons)
  ultimately show ?case using step Suc.prems(1) by simp
qed

lemma appends_snapshot:
  assumes "sn_wf s"
  shows "appends capacity (append_snapshot s) (json_text (snapshot_json s))"
proof -
  let ?n = "min (sn_device_count s) 16"
  have wf: "nul_terminated (sn_version s)" "nul_terminated (sn_state s)" "nul_terminated (sn_pairing_pin s)"
    "length (sn_selected_device s) = 6" "length (sn_devices s) = 16" "\<forall>d\<in>set (sn_devices s). cd_wf d"
    using assms by (simp_all add: sn_wf_def)
  have fix_fmt: "appends capacity (append_format f args) tx" if "format_text f args = Some tx" for f args tx
    using that by (rule appends_append_format)
  have pin: "appends capacity (\<lambda>w. if sn_has_pairing_pin s then append_json_string (sn_pairing_pin s) w else append_format ''null'' [] w)
      (json_text (if sn_has_pairing_pin s then JStr (c_string (sn_pairing_pin s)) else JNull))"
    using appends_json_string [OF wf(3)] by (intro appends_if) (auto intro: fix_fmt)
  have sel: "appends capacity (\<lambda>w. if sn_has_selected_device s then append_address (sn_selected_device s) w else append_format ''null'' [] w)
      (json_text (if sn_has_selected_device s then JStr (address_text upper_digit (sn_selected_device s)) else JNull))"
    using appends_address [OF wf(4)] by (intro appends_if) (auto intro: fix_fmt simp del: json_text.simps(4))
  have "appends capacity (append_devices (sn_devices s) 0 ?n)
      (commas (map (\<lambda>d. json_text (device_json d)) (take ?n (sn_devices s))))"
    using appends_devices [of 0 ?n "sn_devices s" capacity] wf(5,6) by simp
  moreover have "(if sn_device_count s > 16 then 16 else sn_device_count s) = ?n" by simp
  ultimately have devs: "appends capacity
      (append_devices (sn_devices s) 0 (if sn_device_count s > 16 then 16 else sn_device_count s))
      (commas (map (\<lambda>d. json_text (device_json d)) (take ?n (sn_devices s))))" by simp
  have f1: "appends capacity (append_format (''{'' @ key ''version'') []) (''{'' @ key ''version'')"
    and f2: "appends capacity (append_format ('','' @ key ''state'') []) ('','' @ key ''state'')"
    and f3: "appends capacity (append_format ('','' @ key ''autoConnect'' @ ''%s,'' @ key ''pairingPin'') [true_false (sn_auto_connect s)])
      ('','' @ key ''autoConnect'' @ tf (sn_auto_connect s) @ '','' @ key ''pairingPin'')"
    and f4: "appends capacity (append_format ('','' @ key ''selectedDevice'') []) ('','' @ key ''selectedDevice'')"
    and f5: "appends capacity (append_format ('','' @ key ''devices'' @ ''['') []) ('','' @ key ''devices'' @ ''['')"
    and f6: "appends capacity (append_format '']}'' []) '']}''"
    by (rule fix_fmt; simp split del: if_split)+
  note chain = appends_bind [OF f1 appends_bind [OF appends_json_string [OF wf(1)] appends_bind [OF f2
      appends_bind [OF appends_json_string [OF wf(2)] appends_bind [OF f3 appends_bind [OF pin
      appends_bind [OF f4 appends_bind [OF sel appends_bind [OF f5 appends_bind [OF devs f6]]]]]]]]]]
  have tx: "(''{'' @ key ''version'') @ json_string (c_string (sn_version s)) @ ('','' @ key ''state'') @
      json_string (c_string (sn_state s)) @
      ('','' @ key ''autoConnect'' @ tf (sn_auto_connect s) @ '','' @ key ''pairingPin'') @
      json_text (if sn_has_pairing_pin s then JStr (c_string (sn_pairing_pin s)) else JNull) @
      ('','' @ key ''selectedDevice'') @
      json_text (if sn_has_selected_device s then JStr (address_text upper_digit (sn_selected_device s)) else JNull) @
      ('','' @ key ''devices'' @ ''['') @ commas (map (\<lambda>d. json_text (device_json d)) (take ?n (sn_devices s))) @ '']}'' =
      json_text (snapshot_json s)"
    by (simp add: snapshot_json_def json_string_plain plain_code comp_def split del: if_split)
  from chain show ?thesis unfolding tx append_snapshot_def [abs_def] Let_def .
qed

lemma length_json_escape_le: "length (json_escape c) \<le> 6"
  by (simp add: json_escape_def)

lemma length_json_string_le: "length (json_string s) \<le> 6 * length s + 2"
proof -
  have "length (concat (map json_escape s)) \<le> 6 * length s"
    by (induction s) (auto intro: order_trans [OF add_mono [OF length_json_escape_le]])
  then show ?thesis by (simp add: json_string_def)
qed

lemma length_tf_le: "length (tf b) \<le> 5"
  by simp

lemma length_decimal_int_le:
  fixes x :: i8
  shows "length (decimal_int (sint x)) \<le> 4"
proof -
  have "- 128 \<le> sint x" "sint x < 128" using sint_greater_eq [of x] sint_less [of x] by simp_all
  then have "nat (- sint x) < 10 ^ 3" "nat (sint x) < 10 ^ 3" by simp_all
  then show ?thesis
    using length_digits_le [of 10 "nat (- sint x)" 3 lower_digit] length_digits_le [of 10 "nat (sint x)" 3 lower_digit]
    by (simp add: decimal_int_def)
qed

lemma length_field:
  "nul_terminated cs \<Longrightarrow> length cs \<le> Suc n \<Longrightarrow> length (json_string (c_string cs)) \<le> 6 * n + 2"
  using length_json_string_le [of "c_string cs"] length_c_string_less [of cs] by simp

lemma length_json_address: "length a = 6 \<Longrightarrow> length (json_string (address_text upper_digit a)) = 19"
  using length_address_text [of a upper_digit] by (cases a) (simp_all add: json_string_def escape_address)

lemma length_device_le:
  assumes "cd_wf d"
  shows "length (json_text (device_json d)) \<le> 682"
proof -
  have a: "length (json_string (address_text upper_digit (cd_address d))) = 19"
    using assms by (simp add: cd_wf_def length_json_address)
  have n: "length (json_string (c_string (cd_name d))) \<le> 380"
    using assms length_field [of "cd_name d" 63] by (simp add: cd_wf_def)
  note r = length_decimal_int_le [of "cd_rssi d"]
  note t = length_tf_le [of "cd_has_rssi d"] length_tf_le [of "cd_keyboard d"] length_tf_le [of "cd_bonded d"]
    length_tf_le [of "cd_connected d"] length_tf_le [of "cd_report_descriptor_present d"]
    length_tf_le [of "cd_report_descriptor_too_large d"] length_tf_le [of "cd_report_descriptor_valid d"]
    length_tf_le [of "cd_report_has_keyboard d"] length_tf_le [of "cd_report_has_consumer_control d"]
    length_tf_le [of "cd_report_has_nkro_keyboard d"] length_tf_le [of "cd_report_uses_ids d"]
  show ?thesis
    using a n r t by (simp add: device_json_def json_string_plain plain_code split del: if_split)
qed

lemma length_commas_le:
  "\<forall>x\<in>set xs. length x \<le> k \<Longrightarrow> length (commas xs) \<le> length xs * (k + 1)"
  by (induction xs) (auto simp: commas_Cons)

text \<open>The longest document, in characters.\<close>

definition SNAPSHOT_TEXT_MAX :: nat where "SNAPSHOT_TEXT_MAX = 11399"

lemma length_snapshot_le:
  assumes "sn_wf s"
  shows "length (json_text (snapshot_json s)) \<le> SNAPSHOT_TEXT_MAX"
proof -
  let ?ds = "map (\<lambda>d. json_text (device_json d)) (take (min (sn_device_count s) 16) (sn_devices s))"
  have wf: "nul_terminated (sn_version s)" "nul_terminated (sn_state s)" "nul_terminated (sn_pairing_pin s)"
    "length (sn_version s) = 32" "length (sn_state s) = 24" "length (sn_pairing_pin s) = 7"
    "length (sn_selected_device s) = 6" "length (sn_devices s) = 16" "\<forall>d\<in>set (sn_devices s). cd_wf d"
    using assms by (simp_all add: sn_wf_def)
  have "\<forall>x\<in>set ?ds. length x \<le> 682" using wf(9) length_device_le by (auto dest: in_set_takeD)
  from length_commas_le [OF this] have d: "length (commas ?ds) \<le> 10928" using wf(8) by (simp add: min_def split: if_splits)
  have p: "length (json_text (if sn_has_pairing_pin s then JStr (c_string (sn_pairing_pin s)) else JNull)) \<le> 38"
    using length_field [OF wf(3), of 6] wf(6) by simp
  have q: "length (json_text (if sn_has_selected_device s then JStr (address_text upper_digit (sn_selected_device s)) else JNull)) \<le> 19"
    using wf(7) by (simp add: length_json_address)
  have v: "length (json_string (c_string (sn_version s))) \<le> 188" "length (json_string (c_string (sn_state s))) \<le> 140"
    using length_field [OF wf(1), of 31] length_field [OF wf(2), of 23] wf(4,5) by simp_all
  show ?thesis
    using d p q v length_tf_le [of "sn_auto_connect s"]
    by (simp add: snapshot_json_def json_string_plain plain_code comp_def SNAPSHOT_TEXT_MAX_def split del: if_split)
qed

section \<open>Reading the document\<close>

text \<open>A parser for JSON texts, written from the grammar; the fuel bounds the nesting and the number of elements.\<close>

fun read_chars :: "string \<Rightarrow> (string \<times> string) option" where
  "read_chars (c # cs) =
     (if c = QUOTE then Some ([], cs)
      else if c = BACKSLASH then
        (case cs of
           CHR ''u'' # a # b # x # y # rest \<Rightarrow>
             if a = CHR ''0'' \<and> b = CHR ''0'' \<and> 0 \<le> hex_value x \<and> 0 \<le> hex_value y
             then map_option (\<lambda>(s, r). (char_of (nat (16 * hex_value x + hex_value y)) # s, r)) (read_chars rest)
             else None
         | e # rest \<Rightarrow>
             if e = QUOTE \<or> e = BACKSLASH then map_option (\<lambda>(s, r). (e # s, r)) (read_chars rest) else None
         | [] \<Rightarrow> None)
      else if (of_char c :: nat) < 0x20 then None
      else map_option (\<lambda>(s, r). (c # s, r)) (read_chars cs))"
| "read_chars [] = None"

definition read_number :: "string \<Rightarrow> (int \<times> string) option" where
  "read_number cs =
     (let (neg, cs) = (case cs of CHR ''-'' # r \<Rightarrow> (True, r) | _ \<Rightarrow> (False, cs));
          ds = takeWhile is_digit cs
      in if ds = [] then None
         else let n = int (foldl (\<lambda>a c. a * 10 + digit_value c) 0 ds)
              in Some (if neg then - n else n, dropWhile is_digit cs))"

definition expect :: "string \<Rightarrow> string \<Rightarrow> string option" where
  "expect tx cs = (if take (length tx) cs = tx then Some (drop (length tx) cs) else None)"

fun read_value :: "nat \<Rightarrow> string \<Rightarrow> (jvalue \<times> string) option"
  and read_elements :: "nat \<Rightarrow> string \<Rightarrow> (jvalue list \<times> string) option"
  and read_members :: "nat \<Rightarrow> string \<Rightarrow> ((string \<times> jvalue) list \<times> string) option" where
  "read_value 0 cs = None"
| "read_value (Suc n) cs =
     (case cs of
        [] \<Rightarrow> None
      | c # r \<Rightarrow>
          if c = CHR ''n'' then map_option (Pair JNull) (expect ''null'' cs)
          else if c = CHR ''t'' then map_option (Pair (JBool True)) (expect ''true'' cs)
          else if c = CHR ''f'' then map_option (Pair (JBool False)) (expect ''false'' cs)
          else if c = QUOTE then map_option (\<lambda>(s, r). (JStr s, r)) (read_chars r)
          else if c = CHR ''['' then
            (if take 1 r = '']'' then Some (JArr [], drop 1 r)
             else map_option (\<lambda>(vs, r). (JArr vs, r)) (read_elements n r))
          else if c = CHR ''{'' then
            (if take 1 r = ''}'' then Some (JObj [], drop 1 r)
             else map_option (\<lambda>(ms, r). (JObj ms, r)) (read_members n r))
          else map_option (\<lambda>(i, r). (JInt i, r)) (read_number cs))"
| "read_elements 0 cs = None"
| "read_elements (Suc n) cs = do {
     (v, cs) \<leftarrow> read_value n cs;
     case cs of
       [] \<Rightarrow> None
     | c # r \<Rightarrow>
         if c = CHR '']'' then Some ([v], r)
         else if c = CHR '','' then do { (vs, r) \<leftarrow> read_elements n r; Some (v # vs, r) }
         else None
   }"
| "read_members 0 cs = None"
| "read_members (Suc n) cs = do {
     cs \<leftarrow> expect [QUOTE] cs;
     (k, cs) \<leftarrow> read_chars cs;
     cs \<leftarrow> expect '':'' cs;
     (v, cs) \<leftarrow> read_value n cs;
     case cs of
       [] \<Rightarrow> None
     | c # r \<Rightarrow>
         if c = CHR ''}'' then Some ([(k, v)], r)
         else if c = CHR '','' then do { (ms, r) \<leftarrow> read_members n r; Some ((k, v) # ms, r) }
         else None
   }"

definition json_read :: "string \<Rightarrow> jvalue option" where
  "json_read tx = (case read_value (length tx) tx of Some (v, []) \<Rightarrow> Some v | _ \<Rightarrow> None)"

lemma read_chars_escape: "read_chars (json_escape c @ cs) = map_option (\<lambda>(s, r). (c # s, r)) (read_chars cs)"
proof -
  have "hex_value (lower_digit k) = int k" if "k < 16" for k using that by simp
  moreover have "(of_char c :: nat) < 32 \<Longrightarrow> 16 * int (of_char c div 16) + int (of_char c mod 16) = int (of_char c)"
    by (metis mult_div_mod_eq of_nat_add of_nat_mult of_nat_numeral)
  ultimately show ?thesis
    by (auto simp: json_escape_def)
qed

lemma read_chars_string: "read_chars (concat (map json_escape s) @ QUOTE # rest) = Some (s, rest)"
  by (induction s) (simp_all add: read_chars_escape)

lemma is_digit_first:
  "\<exists>c cs. decimal n = c # cs \<and> is_digit c"
  using decimal_is_digits [of n] by (cases "decimal n") auto

text \<open>What may follow a value.\<close>

definition follows :: "string \<Rightarrow> bool" where
  "follows rest \<longleftrightarrow> (\<forall>c cs. rest = c # cs \<longrightarrow> \<not> is_digit c)"

lemma is_digit_punct [simp]:
  "\<not> is_digit CHR '',''" "\<not> is_digit CHR '']''" "\<not> is_digit CHR ''}''" "\<not> is_digit CHR ''-''" "\<not> is_digit QUOTE"
  "\<not> is_digit CHR ''n''" "\<not> is_digit CHR ''t''" "\<not> is_digit CHR ''f''" "\<not> is_digit CHR ''[''" "\<not> is_digit CHR ''{''"
  by (simp_all add: is_digit_def)

lemma read_number_decimal:
  assumes "follows rest"
  shows "read_number (decimal_int i @ rest) = Some (i, rest)"
proof -
  have t: "takeWhile is_digit (decimal n @ rest) = decimal n" "dropWhile is_digit (decimal n @ rest) = rest" for n
    using decimal_is_digits [of n] assms by (cases rest; simp add: follows_def)+
  obtain c cs where c: "decimal (nat i) = c # cs" "is_digit c" using is_digit_first by blast
  then have "c \<noteq> CHR ''-''" by auto
  then have "(case decimal (nat i) @ rest of CHR ''-'' # r \<Rightarrow> (True, r) | _ \<Rightarrow> (False, decimal (nat i) @ rest)) =
      (False, decimal (nat i) @ rest)"
    unfolding c by (auto split: char.split bool.split)
  with t decimal_value show ?thesis by (auto simp: read_number_def decimal_int_def Let_def)
qed

lemma json_text_first: "\<exists>c cs. json_text v = c # cs \<and> c \<noteq> CHR '']''"
proof (cases v)
  case (JInt i)
  from is_digit_first [of "nat i"] obtain c cs where "decimal (nat i) = c # cs" "is_digit c" by blast
  with JInt show ?thesis by (auto simp: decimal_int_def)
qed (auto simp: json_string_def)

definition reads :: "jvalue \<Rightarrow> bool" where
  "reads v \<longleftrightarrow> (\<forall>n rest. length (json_text v) \<le> n \<longrightarrow> follows rest \<longrightarrow> read_value n (json_text v @ rest) = Some (v, rest))"

lemma read_elements_text:
  assumes "\<forall>v\<in>set vs. reads v" and "vs \<noteq> []" and "length (commas (map json_text vs)) < n"
  shows "read_elements n (commas (map json_text vs) @ CHR '']'' # rest) = Some (vs, rest)"
  using assms
proof (induction vs arbitrary: n)
  case (Cons v vs)
  obtain m where n: "n = Suc m" using Cons.prems(3) by (cases n) auto
  show ?case
  proof (cases "vs = []")
    case True
    have "read_value m (json_text v @ CHR '']'' # rest) = Some (v, CHR '']'' # rest)"
      using Cons.prems n True by (auto simp: reads_def follows_def)
    with True n show ?thesis by simp
  next
    case False
    let ?r = "commas (map json_text vs) @ CHR '']'' # rest"
    have "read_value m (json_text v @ CHR '','' # ?r) = Some (v, CHR '','' # ?r)"
      using Cons.prems n False by (auto simp: reads_def follows_def commas_Cons)
    moreover have "read_elements m ?r = Some (vs, rest)"
      using Cons.prems n False by (intro Cons.IH) (auto simp: commas_Cons)
    ultimately show ?thesis using n False by (simp add: commas_Cons)
  qed
qed simp

abbreviation member_text :: "string \<times> jvalue \<Rightarrow> string" where
  "member_text \<equiv> \<lambda>(k, v). json_string k @ CHR '':'' # json_text v"

lemma read_members_text:
  assumes "\<forall>p\<in>set ms. reads (snd p)" and "ms \<noteq> []" and "length (commas (map member_text ms)) < n"
  shows "read_members n (commas (map member_text ms) @ CHR ''}'' # rest) = Some (ms, rest)"
  using assms
proof (induction ms arbitrary: n)
  case (Cons p ms)
  obtain m where n: "n = Suc m" using Cons.prems(3) by (cases n) auto
  obtain k v where p: "p = (k, v)" by force
  have q: "expect [QUOTE] (json_string k @ t) = Some (concat (map json_escape k) @ QUOTE # t)" for t
    by (simp add: expect_def json_string_def)
  have c: "expect '':'' (CHR '':'' # t) = Some t" for t by (simp add: expect_def)
  show ?case
  proof (cases "ms = []")
    case True
    have "read_value m (json_text v @ CHR ''}'' # rest) = Some (v, CHR ''}'' # rest)"
      using Cons.prems n p True by (auto simp: reads_def follows_def)
    with True n p show ?thesis by (simp add: q c read_chars_string)
  next
    case False
    let ?r = "commas (map member_text ms) @ CHR ''}'' # rest"
    have "read_value m (json_text v @ CHR '','' # ?r) = Some (v, CHR '','' # ?r)"
      using Cons.prems n p False by (auto simp: reads_def follows_def commas_Cons)
    moreover have "read_members m ?r = Some (ms, rest)"
      using Cons.prems n p False by (intro Cons.IH) (auto simp: commas_Cons)
    ultimately show ?thesis using n p False by (simp add: commas_Cons q c read_chars_string)
  qed
qed simp

lemma readsI:
  assumes "\<And>m rest. follows rest \<Longrightarrow> read_value (Suc m) (json_text v @ rest) = Some (v, rest)"
  shows "reads v"
  unfolding reads_def
proof (intro allI impI)
  fix n rest
  assume "length (json_text v) \<le> n" "follows rest"
  moreover from this(1) json_text_first [of v] have "n \<noteq> 0" by auto
  ultimately show "read_value n (json_text v @ rest) = Some (v, rest)" using assms by (cases n) simp_all
qed

lemma reads_value: "reads v"
proof (induction v rule: json_text.induct)
  case (3 i)
  show ?case
  proof (rule readsI)
    fix m rest
    assume h: "follows rest"
    from json_text_first [of "JInt i"] obtain c cs where c: "decimal_int i = c # cs" by auto
    then have "is_digit c \<or> c = CHR ''-''"
      using is_digit_first [of "nat i"] by (auto simp: decimal_int_def split: if_splits)
    then show "read_value (Suc m) (json_text (JInt i) @ rest) = Some (JInt i, rest)"
      using read_number_decimal [OF h, of i] c by auto
  qed
next
  case (5 vs)
  show ?case
    unfolding reads_def
  proof (intro allI impI)
    fix n rest
    assume h: "length (json_text (JArr vs)) \<le> n"
    then obtain m where n: "n = Suc m" by (cases n) auto
    show "read_value n (json_text (JArr vs) @ rest) = Some (JArr vs, rest)"
    proof (cases vs)
      case Nil
      with n show ?thesis by simp
    next
      case (Cons v ws)
      from json_text_first [of v] obtain c cs where "json_text v = c # cs" "c \<noteq> CHR '']''" by blast
      then have "take 1 (commas (map json_text vs) @ t) \<noteq> '']''" for t using Cons by (simp add: commas_Cons)
      with read_elements_text [of vs m rest] 5 Cons h n show ?thesis by auto
    qed
  qed
next
  case (6 ms)
  show ?case
    unfolding reads_def
  proof (intro allI impI)
    fix n rest
    assume h: "length (json_text (JObj ms)) \<le> n"
    then obtain m where n: "n = Suc m" by (cases n) auto
    show "read_value n (json_text (JObj ms) @ rest) = Some (JObj ms, rest)"
    proof (cases ms)
      case Nil
      with n show ?thesis by simp
    next
      case (Cons p qs)
      then have "take 1 (commas (map member_text ms) @ t) \<noteq> ''}''" for t
        by (cases p) (simp add: commas_Cons json_string_def)
      moreover have "\<forall>p\<in>set ms. reads (snd p)" using 6 by (metis prod.collapse)
      ultimately show ?thesis using read_members_text [of ms m rest] Cons h n by auto
    qed
  qed
qed (rule readsI; simp add: expect_def json_string_def read_chars_string)+

lemma json_read_text: "json_read (json_text v) = Some v"
  using reads_value [of v] by (simp add: json_read_def reads_def follows_def) (metis append_Nil2 le_refl list.distinct(1) list.simps(4) option.simps(5) prod.simps(2))

section \<open>Properties\<close>

lemma append_snapshot_result:
  assumes "sn_wf s" and "length buf = capacity" and "0 < capacity"
  shows "\<exists>w. append_snapshot s \<lparr>jw_buffer = buf[0 := NUL], jw_capacity = capacity, jw_length = 0, jw_valid = True\<rparr> = Some w \<and>
    holds capacity w (json_text (snapshot_json s))"
proof -
  have "holds capacity \<lparr>jw_buffer = buf[0 := NUL], jw_capacity = capacity, jw_length = 0, jw_valid = True\<rparr> []"
    using assms(2,3) by (simp add: holds_def)
  from appends_snapshot [OF assms(1), of capacity, unfolded appends_def, rule_format, OF this] show ?thesis by simp
qed

text \<open>
  C14. The writer never leaves its buffer, whatever its size, and its answer is exact: it reports
  success just when the whole document and its terminator fit, and then the buffer holds the document
  and \<open>*written\<close> its length; otherwise it reports failure and leaves a terminated buffer of the same size.
\<close>

theorem status_json_written:
  assumes "sn_wf s" and "length buf = capacity" and "0 < capacity"
  shows "\<exists>ok b written. control_json_write_snapshot (Some s) (Some buf) capacity True = Some (ok, Some b, written) \<and>
    length b = capacity \<and> (ok \<longleftrightarrow> length (json_text (snapshot_json s)) < capacity) \<and>
    (if ok then written = Some (length (json_text (snapshot_json s))) \<and>
        take (length (json_text (snapshot_json s))) b = json_text (snapshot_json s) \<and>
        b ! length (json_text (snapshot_json s)) = NUL
     else written = None \<and> b ! (capacity - 1) = NUL)"
proof -
  from append_snapshot_result [OF assms] obtain w where
    w: "append_snapshot s \<lparr>jw_buffer = buf[0 := NUL], jw_capacity = capacity, jw_length = 0, jw_valid = True\<rparr> = Some w"
    and h: "holds capacity w (json_text (snapshot_json s))" by blast
  show ?thesis
  proof (cases "length (json_text (snapshot_json s)) < capacity")
    case True
    with h have "jw_valid w" "jw_length w = length (json_text (snapshot_json s))" "length (jw_buffer w) = capacity"
      "take (length (json_text (snapshot_json s))) (jw_buffer w) = json_text (snapshot_json s)"
      "jw_buffer w ! length (json_text (snapshot_json s)) = NUL" by (simp_all add: holds_def)
    with w True assms(2,3) show ?thesis
      by (intro exI [of _ True] exI [of _ "jw_buffer w"] exI) (simp add: control_json_write_snapshot_def)
  next
    case False
    with h have "\<not> jw_valid w" "length (jw_buffer w) = capacity" by (simp_all add: holds_def)
    with w False assms(2,3) show ?thesis
      by (intro exI [of _ False] exI [of _ "(jw_buffer w)[capacity - 1 := NUL]"] exI [of _ None])
        (simp add: control_json_write_snapshot_def)
  qed
qed

definition demo_snapshot :: bluetooth_control_snapshot where
  "demo_snapshot =
     \<lparr>sn_version = strncpy_field 32 ''1.0'', sn_state = strncpy_field 24 ''IDLE'', sn_auto_connect = True,
      sn_has_pairing_pin = False, sn_pairing_pin = strncpy_field 7 [], sn_has_selected_device = False,
      sn_selected_device = replicate 6 0, sn_device_count = 1,
      sn_devices = zero_control_device\<lparr>cd_name := strncpy_field 64 [QUOTE, CHR 0x0A]\<rparr> # replicate 15 zero_control_device\<rparr>"

lemma length_strncpy_field [simp]: "0 < n \<Longrightarrow> length (strncpy_field n s) = n"
  by (simp add: strncpy_field_def)

lemma nul_terminated_strncpy_field [simp]: "0 < n \<Longrightarrow> nul_terminated (strncpy_field n s)"
  by (auto simp: strncpy_field_def nul_terminated_def)

lemma demo_snapshot_wf: "sn_wf demo_snapshot"
  by (auto simp: sn_wf_def demo_snapshot_def cd_wf_def zero_control_device_def)

theorem status_json_written_witness:
  "\<exists>b. control_json_write_snapshot (Some demo_snapshot) (Some (replicate 14 NUL)) 14 True = Some (False, Some b, None) \<and>
     b ! 13 = NUL"
proof -
  have "\<not> length (json_text (snapshot_json demo_snapshot)) < 14" by (simp add: snapshot_json_def json_string_def)
  with status_json_written [OF demo_snapshot_wf, of "replicate 14 NUL" 14] show ?thesis by auto
qed

definition CONTROL_JSON_MAX_SNAPSHOT_SIZE :: nat where "CONTROL_JSON_MAX_SNAPSHOT_SIZE = 14336"

text \<open>
  C13. The status document always fits and says what the snapshot says: into a buffer of
  \<open>CONTROL_JSON_MAX_SNAPSHOT_SIZE\<close> characters every snapshot is written - at most 11399 characters, also
  when every byte of every name needs an escape - and a JSON reader gets back exactly the version, the
  state, the pairing PIN, the selected device and the devices with their names and flags.
\<close>

theorem status_json_roundtrip:
  assumes "sn_wf s" and "length buf = CONTROL_JSON_MAX_SNAPSHOT_SIZE"
  shows "\<exists>b n. control_json_write_snapshot (Some s) (Some buf) CONTROL_JSON_MAX_SNAPSHOT_SIZE True = Some (True, Some b, Some n) \<and>
    n \<le> SNAPSHOT_TEXT_MAX \<and> json_read (take n b) = Some (snapshot_json s)"
proof -
  let ?S = CONTROL_JSON_MAX_SNAPSHOT_SIZE
  have pos: "0 < ?S" by (simp add: CONTROL_JSON_MAX_SNAPSHOT_SIZE_def)
  have fits: "length (json_text (snapshot_json s)) < ?S"
    using length_snapshot_le [OF assms(1)] by (simp add: SNAPSHOT_TEXT_MAX_def CONTROL_JSON_MAX_SNAPSHOT_SIZE_def)
  from append_snapshot_result [OF assms pos] obtain w where
    w: "append_snapshot s \<lparr>jw_buffer = buf[0 := NUL], jw_capacity = ?S, jw_length = 0, jw_valid = True\<rparr> = Some w"
    and h: "holds ?S w (json_text (snapshot_json s))" by blast
  have "control_json_write_snapshot (Some s) (Some buf) ?S True =
      Some (True, Some (jw_buffer w), Some (length (json_text (snapshot_json s))))"
    using w h assms(2) fits pos by (simp add: control_json_write_snapshot_def holds_def)
  moreover have "json_read (take (length (json_text (snapshot_json s))) (jw_buffer w)) = Some (snapshot_json s)"
    using h fits by (simp add: holds_def json_read_text)
  ultimately show ?thesis using length_snapshot_le [OF assms(1)] by blast
qed

theorem status_json_roundtrip_witness:
  "\<exists>b n. control_json_write_snapshot (Some demo_snapshot) (Some (replicate 14336 NUL)) 14336 True = Some (True, Some b, Some n) \<and>
     json_read (take n b) = Some (snapshot_json demo_snapshot)"
  using status_json_roundtrip [OF demo_snapshot_wf, of "replicate 14336 NUL"]
  by (auto simp: CONTROL_JSON_MAX_SNAPSHOT_SIZE_def)

end
