(* ===== verification/Web_Config.thy ===== *)
theory Web_Config
  imports Control_Json Dhcp_Server "HOL-Library.Sublist"
begin

unbundle bit_operations_syntax

text \<open>
  \<open>src/web/web_config.c\<close>: the web server of the access point, two clients at a time. lwIP is a
  parameter: \<open>lw_write\<close> and \<open>lw_close\<close> answer \<open>tcp_write\<close> and \<open>tcp_close\<close> from the calls made so far,
  which the state records; a connection is a number. A \<open>web_client_t *\<close> is the index of the client. The
  page of \<open>web_ui.c\<close> and the version string are the arguments \<open>html\<close> and \<open>version\<close>.
\<close>

section \<open>Data\<close>

definition WEB_AP_SSID :: string where "WEB_AP_SSID = ''PicoW-Keyboard-Setup''"
definition WEB_AP_PASSWORD :: string where "WEB_AP_PASSWORD = ''pico-keyboard''"
definition WEB_MAX_CLIENTS :: nat where "WEB_MAX_CLIENTS = 2"
definition WEB_REQUEST_SIZE :: nat where "WEB_REQUEST_SIZE = 1536"
definition WEB_RESPONSE_HEADER_SIZE :: nat where "WEB_RESPONSE_HEADER_SIZE = 256"

record web_client =
  wc_used :: bool
  wc_pcb :: "nat option"
  wc_request_length :: nat
  wc_age_polls :: u8
  wc_request :: "char list"
  wc_response_header :: "char list"

definition zero_client :: web_client where
  "zero_client =
     \<lparr>wc_used = False, wc_pcb = None, wc_request_length = 0, wc_age_polls = 0,
      wc_request = replicate WEB_REQUEST_SIZE NUL, wc_response_header = replicate WEB_RESPONSE_HEADER_SIZE NUL\<rparr>"

datatype tcp_call =
    Tcp_Arg nat "nat option"
  | Tcp_Recv nat bool
  | Tcp_Err nat bool
  | Tcp_Poll nat "nat option"
  | Tcp_Recved nat nat
  | Tcp_Write nat string
  | Tcp_Output nat
  | Tcp_Close nat
  | Tcp_Abort nat

record lwip_tcp =
  lw_write :: "tcp_call list \<Rightarrow> bool"
  lw_close :: "tcp_call list \<Rightarrow> bool"

type_synonym err_t = int

definition ERR_OK :: err_t where "ERR_OK = 0"
definition ERR_ABRT :: err_t where "ERR_ABRT = - 13"

record web_server =
  ws_clients :: "web_client list"
  ws_listening :: bool
  ws_dhcp :: dhcp_server
  ws_status_json :: "char list"
  ws_cdc_was_connected :: bool
  ws_calls :: "tcp_call list"
  ws_app :: bt_app
  ws_log :: "log_line list"

definition tcp_call :: "tcp_call \<Rightarrow> web_server \<Rightarrow> web_server" where
  "tcp_call c w = w\<lparr>ws_calls := ws_calls w @ [c]\<rparr>"

section \<open>Addresses in a request\<close>

definition hex_value :: "char \<Rightarrow> int" where
  "hex_value ch =
     (let ch = of_char ch
      in if of_char CHR ''0'' \<le> ch \<and> ch \<le> of_char CHR ''9'' then ch - of_char CHR ''0''
         else if of_char CHR ''a'' \<le> ch \<and> ch \<le> of_char CHR ''f'' then ch - of_char CHR ''a'' + 10
         else if of_char CHR ''A'' \<le> ch \<and> ch \<le> of_char CHR ''F'' then ch - of_char CHR ''A'' + 10
         else - 1)"

text \<open>The last \<open>n\<close> rounds of the loop; the text moves on, the bytes read so far are collected.\<close>

fun parse_address_rounds :: "nat \<Rightarrow> char list \<Rightarrow> u8 list \<Rightarrow> (u8 list \<times> char list) option option" where
  "parse_address_rounds 0 tx address = Some (Some (address, tx))"
| "parse_address_rounds (Suc n) tx address = do {
     c0 \<leftarrow> array_at tx 0;
     c1 \<leftarrow> array_at tx 1;
     let high = hex_value c0;
     let low = hex_value c1;
     if high < 0 \<or> low < 0 then Some None
     else do {
       let address = address @ [word_of_int (push_bit 4 high OR low)];
       let tx = drop 2 tx;
       if n = 0 then parse_address_rounds n tx address
       else do {
         c \<leftarrow> array_at tx 0;
         if c \<noteq> CHR '':'' then Some None else parse_address_rounds n (drop 1 tx) address
       }
     }
   }"

definition parse_address :: "char list \<Rightarrow> bd_addr option option" where
  "parse_address tx = do {
     r \<leftarrow> parse_address_rounds 6 tx [];
     case r of
       None \<Rightarrow> Some None
     | Some (address, tx) \<Rightarrow> do {
         c \<leftarrow> array_at tx 0;
         Some (if c = CHR '' '' \<or> c = NUL \<or> c = CHR ''&'' then Some address else None)
       }
   }"

section \<open>Clients\<close>

definition close_client :: "lwip_tcp \<Rightarrow> nat \<Rightarrow> web_server \<Rightarrow> (err_t \<times> web_server) option" where
  "close_client lw i w = do {
     client \<leftarrow> array_at (ws_clients w) i;
     let w = w\<lparr>ws_clients := (ws_clients w)[i := zero_client]\<rparr>;
     case wc_pcb client of
       None \<Rightarrow> Some (ERR_OK, w)
     | Some pcb \<Rightarrow>
         (let w = tcp_call (Tcp_Arg pcb None) w;
              w = tcp_call (Tcp_Recv pcb False) w;
              w = tcp_call (Tcp_Err pcb False) w;
              w = tcp_call (Tcp_Poll pcb None) w;
              w = tcp_call (Tcp_Close pcb) w
          in if \<not> lw_close lw (ws_calls w) then Some (ERR_ABRT, tcp_call (Tcp_Abort pcb) w)
             else Some (ERR_OK, w))
   }"

definition poll_client :: "lwip_tcp \<Rightarrow> nat option \<Rightarrow> web_server \<Rightarrow> (err_t \<times> web_server) option" where
  "poll_client lw arg w =
     (case arg of
        None \<Rightarrow> Some (ERR_OK, w)
      | Some i \<Rightarrow> do {
          client \<leftarrow> array_at (ws_clients w) i;
          let client = client\<lparr>wc_age_polls := wc_age_polls client + 1\<rparr>;
          let w = w\<lparr>ws_clients := (ws_clients w)[i := client]\<rparr>;
          if wc_age_polls client \<ge> 5 then close_client lw i w else Some (ERR_OK, w)
        })"

definition client_error :: "nat option \<Rightarrow> web_server \<Rightarrow> web_server option" where
  "client_error arg w =
     (case arg of
        None \<Rightarrow> Some w
      | Some i \<Rightarrow> do {
          clients \<leftarrow> array_put (ws_clients w) i zero_client;
          Some (w\<lparr>ws_clients := clients\<rparr>)
        })"

section \<open>Responses\<close>

definition response_reason :: "int \<Rightarrow> string" where
  "response_reason status =
     (if status = 200 then ''OK''
      else if status = 202 then ''Accepted''
      else if status = 400 then ''Bad Request''
      else if status = 404 then ''Not Found''
      else if status = 405 then ''Method Not Allowed''
      else if status = 503 then ''Service Unavailable''
      else ''Error'')"

abbreviation CRLF :: string where "CRLF \<equiv> [CHR 0x0D, CHR 0x0A]"

definition response_format :: string where
  "response_format =
     ''HTTP/1.1 %d %s'' @ CRLF @ ''Content-Type: %s'' @ CRLF @ ''Content-Length: %u'' @ CRLF @
     ''Cache-Control: no-store'' @ CRLF @ ''Connection: close'' @ CRLF @ CRLF"

text \<open>\<open>tcp_write\<close>: its length parameter has sixteen bits.\<close>

definition tcp_write :: "lwip_tcp \<Rightarrow> nat \<Rightarrow> char list \<Rightarrow> nat \<Rightarrow> web_server \<Rightarrow> (bool \<times> web_server) option" where
  "tcp_write lw pcb buf n w = do {
     bytes \<leftarrow> slice_at buf 0 (to_u16 n);
     let w = tcp_call (Tcp_Write pcb bytes) w;
     Some (lw_write lw (ws_calls w), w)
   }"

text \<open>\<open>None\<close> also where \<open>tcp_write\<close> would be called without a connection.\<close>

definition send_response ::
    "lwip_tcp \<Rightarrow> nat \<Rightarrow> int \<Rightarrow> string \<Rightarrow> char list \<Rightarrow> nat \<Rightarrow> web_server \<Rightarrow> (err_t \<times> web_server) option" where
  "send_response lw i status content_type body body_length w = do {
     client \<leftarrow> array_at (ws_clients w) i;
     tx \<leftarrow> format_text response_format
       [LInt status, LStr (response_reason status), LStr content_type, LNum body_length];
     header \<leftarrow> vsnprintf_at (wc_response_header client) 0 WEB_RESPONSE_HEADER_SIZE tx;
     let w = w\<lparr>ws_clients := (ws_clients w)[i := client\<lparr>wc_response_header := header\<rparr>]\<rparr>;
     if length tx \<ge> WEB_RESPONSE_HEADER_SIZE then close_client lw i w
     else do {
       pcb \<leftarrow> wc_pcb client;
       (ok, w) \<leftarrow> tcp_write lw pcb header (length tx) w;
       if \<not> ok then close_client lw i w
       else do {
         (ok, w) \<leftarrow> tcp_write lw pcb body body_length w;
         if \<not> ok then close_client lw i w
         else close_client lw i (tcp_call (Tcp_Output pcb) w)
       }
     }
   }"

definition respond_json :: "lwip_tcp \<Rightarrow> nat \<Rightarrow> int \<Rightarrow> string \<Rightarrow> web_server \<Rightarrow> (err_t \<times> web_server) option" where
  "respond_json lw i status json w =
     send_response lw i status ''application/json; charset=utf-8'' json (length json) w"

text \<open>The two JSON texts of the server, \<open>{"error":"..."}\<close> and \<open>{"accepted":true}\<close>.\<close>

definition error_json :: "string \<Rightarrow> string" where
  "error_json what = ''{'' @ key ''error'' @ [QUOTE] @ what @ [QUOTE] @ ''}''"

definition accepted_json :: string where
  "accepted_json = ''{'' @ key ''accepted'' @ ''true}''"

section \<open>Requests\<close>

definition c_isspace :: "char \<Rightarrow> bool" where
  "c_isspace c \<longleftrightarrow> c = CHR '' '' \<or> (9 \<le> (of_char c :: nat) \<and> (of_char c :: nat) \<le> 13)"

text \<open>A \<open>%<n>s\<close> of \<open>sscanf\<close>: blanks are skipped, at most \<open>n\<close> other characters are taken.\<close>

definition scan_word :: "nat \<Rightarrow> string \<Rightarrow> string \<times> string" where
  "scan_word n cs =
     (let cs = dropWhile c_isspace cs;
          word = takeWhile (\<lambda>c. \<not> c_isspace c) (take n cs)
      in (word, drop (length word) cs))"

text \<open>\<open>sscanf(request, "%7s %127s", method, target)\<close>, when it assigns both.\<close>

definition scan_request :: "string \<Rightarrow> (string \<times> string) option" where
  "scan_request cs =
     (let (verb, rest) = scan_word 7 cs;
          (target, _) = scan_word 127 rest
      in if verb = [] \<or> target = [] then None else Some (verb, target))"

definition handle_status :: "lwip_tcp \<Rightarrow> string \<Rightarrow> nat \<Rightarrow> web_server \<Rightarrow> (err_t \<times> web_server) option" where
  "handle_status lw version i w = do {
     let snapshot = bluetooth_control_get_snapshot version (ws_app w);
     (ok, json, len) \<leftarrow> control_json_write_snapshot (Some snapshot) (Some (ws_status_json w)) CONTROL_JSON_MAX_SNAPSHOT_SIZE True;
     json \<leftarrow> json;
     let w = w\<lparr>ws_status_json := json\<rparr>;
     if \<not> ok then respond_json lw i 503 (error_json ''status too large'') w
     else do {
       len \<leftarrow> len;
       send_response lw i 200 ''application/json; charset=utf-8'' json len w
     }
   }"

text \<open>The request that a POST to the target makes, if the target is known.\<close>

definition request_of_target :: "string \<Rightarrow> bluetooth_control_request option option" where
  "request_of_target target =
     (let request = (\<lambda>action. zero_request\<lparr>rq_action := action\<rparr>);
          others =
            (if target = ''/api/disconnect'' then Some (request BLUETOOTH_CONTROL_DISCONNECT)
             else if target = ''/api/reconnect'' then Some (request BLUETOOTH_CONTROL_RECONNECT)
             else if target = ''/api/forget'' then Some (request BLUETOOTH_CONTROL_FORGET)
             else None)
      in if target = ''/api/scan'' then Some (Some (request BLUETOOTH_CONTROL_SCAN))
         else if take 21 target = ''/api/connect?address='' then do {
           address \<leftarrow> parse_address (drop 21 (target @ replicate (128 - length target) NUL));
           case address of
             Some address \<Rightarrow> Some (Some ((request BLUETOOTH_CONTROL_CONNECT)\<lparr>rq_address := address\<rparr>))
           | None \<Rightarrow> Some others
         }
         else Some others)"

definition handle_request ::
    "lwip_tcp \<Rightarrow> string \<Rightarrow> string \<Rightarrow> nat \<Rightarrow> web_server \<Rightarrow> (err_t \<times> web_server) option" where
  "handle_request lw version html i w = do {
     client \<leftarrow> array_at (ws_clients w) i;
     case scan_request (c_string (wc_request client)) of
       None \<Rightarrow> respond_json lw i 400 (error_json ''invalid request'') w
     | Some (verb, target) \<Rightarrow>
         if verb = ''GET'' \<and> target = ''/api/status'' then handle_status lw version i w
         else if verb = ''GET'' \<and> (target = ''/'' \<or> target = ''/index.html'')
         then send_response lw i 200 ''text/html; charset=utf-8'' html (length html) w
         else if verb \<noteq> ''POST'' then respond_json lw i 405 (error_json ''method not allowed'') w
         else do {
           request \<leftarrow> request_of_target target;
           case request of
             None \<Rightarrow> respond_json lw i 404 (error_json ''unknown endpoint'') w
           | Some request \<Rightarrow>
               (let (ok, a) = bluetooth_control_submit request (ws_app w);
                    w = w\<lparr>ws_app := a\<rparr>
                in if \<not> ok then respond_json lw i 503 (error_json ''control queue full'') w
                   else respond_json lw i 202 accepted_json w)
         }
   }"

text \<open>
  \<open>received\<close> is \<open>None\<close> for a null packet buffer, else its total length and what \<open>pbuf_copy_partial\<close>
  delivers for the space available.
\<close>

definition store_received ::
    "nat \<Rightarrow> nat \<Rightarrow> (nat \<Rightarrow> char list) \<Rightarrow> web_server \<Rightarrow> (nat \<times> nat \<times> string \<times> web_server) option" where
  "store_received i tot_len copy w = do {
     client \<leftarrow> array_at (ws_clients w) i;
     pcb \<leftarrow> wc_pcb client;
     let w = tcp_call (Tcp_Recved pcb tot_len) w;
     let available = WEB_REQUEST_SIZE - 1 - wc_request_length client;
     let copied = copy available;
     request \<leftarrow> bytes_put (wc_request client) (wc_request_length client) copied;
     let len = wc_request_length client + length copied;
     request \<leftarrow> array_put request len NUL;
     Some (available, length copied, c_string request,
       w\<lparr>ws_clients := (ws_clients w)[i := client\<lparr>wc_request := request, wc_request_length := len\<rparr>]\<rparr>)
   }"

definition receive_request ::
    "lwip_tcp \<Rightarrow> string \<Rightarrow> string \<Rightarrow> nat \<Rightarrow> (nat \<times> (nat \<Rightarrow> char list)) option \<Rightarrow> err_t \<Rightarrow> web_server \<Rightarrow>
     (err_t \<times> web_server) option" where
  "receive_request lw version html i received error w =
     (case received of
        None \<Rightarrow> close_client lw i w
      | Some (tot_len, copy) \<Rightarrow>
          if error \<noteq> ERR_OK then close_client lw i w
          else do {
            (available, copied, request, w) \<leftarrow> store_received i tot_len copy w;
            if sublist (CRLF @ CRLF) request then handle_request lw version html i w
            else if available = copied then respond_json lw i 400 (error_json ''request too large'') w
            else Some (ERR_OK, w)
          })"

fun accept_loop :: "nat \<Rightarrow> nat \<Rightarrow> nat \<Rightarrow> web_server \<Rightarrow> (err_t \<times> web_server) option" where
  "accept_loop pcb i 0 w = Some (ERR_ABRT, tcp_call (Tcp_Abort pcb) w)"
| "accept_loop pcb i (Suc n) w = do {
     client \<leftarrow> array_at (ws_clients w) i;
     if \<not> wc_used client then
       (let w = w\<lparr>ws_clients := (ws_clients w)[i := client\<lparr>wc_used := True, wc_pcb := Some pcb\<rparr>]\<rparr>;
            w = tcp_call (Tcp_Arg pcb (Some i)) w;
            w = tcp_call (Tcp_Recv pcb True) w;
            w = tcp_call (Tcp_Err pcb True) w;
            w = tcp_call (Tcp_Poll pcb (Some 2)) w
        in Some (ERR_OK, w))
     else accept_loop pcb (i + 1) n w
   }"

definition accept_client :: "nat \<Rightarrow> err_t \<Rightarrow> web_server \<Rightarrow> (err_t \<times> web_server) option" where
  "accept_client pcb error w =
     (if error \<noteq> ERR_OK then Some (error, w) else accept_loop pcb 0 WEB_MAX_CLIENTS w)"

section \<open>Start and task\<close>

text \<open>The answers of \<open>udp_new\<close>, \<open>tcp_new_ip_type\<close>, \<open>tcp_bind\<close> and \<open>tcp_listen_with_backlog\<close> are arguments.\<close>

definition web_config_init :: "bool \<Rightarrow> bool \<Rightarrow> bool \<Rightarrow> bool \<Rightarrow> web_server \<Rightarrow> bool \<times> web_server" where
  "web_config_init udp_created created bound listening w =
     (let w = w\<lparr>ws_dhcp := dhcp_server_init udp_created [192, 168, 4, 1] [255, 255, 255, 0] (ws_dhcp w)\<rparr>
      in if \<not> created \<or> \<not> bound
         then (False, w\<lparr>ws_log := ws_log w @ [(''[WEB] HTTP listener setup failed'', [])]\<rparr>)
         else if \<not> listening
         then (False, w\<lparr>ws_log := ws_log w @ [(''[WEB] HTTP listen failed'', [])]\<rparr>)
         else (True, w\<lparr>ws_listening := True,
                 ws_log := ws_log w @ [(''[WEB] AP SSID=%s password=%s URL=http://192.168.4.1/'',
                   [LStr WEB_AP_SSID, LStr WEB_AP_PASSWORD])]\<rparr>))"

definition web_config_task :: "bool \<Rightarrow> web_server \<Rightarrow> web_server" where
  "web_config_task connected w =
     (let w = (if connected \<and> \<not> ws_cdc_was_connected w
               then w\<lparr>ws_log := ws_log w @
                      [(''[WEB] AP SSID=%s URL=http://192.168.4.1/ DHCP discovers=%lu requests=%lu acks=%lu'',
                        [LStr WEB_AP_SSID, LNum (unat (ds_discover_count (ws_dhcp w))),
                         LNum (unat (ds_request_count (ws_dhcp w))), LNum (unat (ds_ack_count (ws_dhcp w)))])]\<rparr>
               else w)
      in w\<lparr>ws_cdc_was_connected := connected\<rparr>)"

section \<open>Invariant\<close>

definition wc_wf :: "web_client \<Rightarrow> bool" where
  "wc_wf c \<longleftrightarrow> length (wc_request c) = WEB_REQUEST_SIZE \<and>
     length (wc_response_header c) = WEB_RESPONSE_HEADER_SIZE \<and>
     wc_request_length c < WEB_REQUEST_SIZE \<and> wc_age_polls c < 5 \<and>
     (wc_used c \<longleftrightarrow> wc_pcb c \<noteq> None) \<and> (\<not> wc_used c \<longrightarrow> c = zero_client)"

definition clients_wf :: "web_client list \<Rightarrow> bool" where
  "clients_wf cs \<longleftrightarrow> length cs = WEB_MAX_CLIENTS \<and> (\<forall>c\<in>set cs. wc_wf c)"

definition ws_wf :: "web_server \<Rightarrow> bool" where
  "ws_wf w \<longleftrightarrow> clients_wf (ws_clients w) \<and>
     length (ws_status_json w) = CONTROL_JSON_MAX_SNAPSHOT_SIZE \<and> dm_wf (device_manager (ws_app w))"

text \<open>Addresses are six bytes long in C by their type.\<close>

definition addresses_ok :: "bt_app \<Rightarrow> bool" where
  "addresses_ok a \<longleftrightarrow> length (selected_device_addr a) = 6 \<and>
     (\<forall>d\<in>set (dm_used (device_manager a)). length (dev_address d) = 6)"

lemma zero_client_wf [simp]: "wc_wf zero_client"
  by (simp add: wc_wf_def zero_client_def WEB_REQUEST_SIZE_def)

lemma snapshot_wf:
  assumes "dm_wf (device_manager a)" and "addresses_ok a"
  shows "sn_wf (bluetooth_control_get_snapshot version a)"
proof -
  let ?m = "device_manager a"
  have n: "min (dm_count ?m) 16 = dm_count ?m" "dm_count ?m \<le> 16" "length (dm_devices ?m) = 16"
    using assms(1) by (simp_all add: dm_wf_def DEVICE_MANAGER_MAX_DEVICES_def)
  have z: "cd_wf zero_control_device" by (simp add: cd_wf_def zero_control_device_def)
  have "cd_wf (control_device d)" if "d \<in> set (take (dm_count ?m) (dm_devices ?m))" for d
    using assms that by (simp add: cd_wf_def control_device_def addresses_ok_def dm_used_def)
  with z n show ?thesis
    using assms(2) by (auto simp: sn_wf_def bluetooth_control_get_snapshot_def Let_def addresses_ok_def)
qed

lemma clients_wfD:
  assumes "clients_wf cs" and "i < WEB_MAX_CLIENTS"
  shows "array_at cs i = Some (cs ! i)" "wc_wf (cs ! i)" "i < length cs"
  using assms by (simp_all add: clients_wf_def)

lemma clients_wf_update: "clients_wf cs \<Longrightarrow> wc_wf c \<Longrightarrow> clients_wf (cs[i := c])"
  by (auto simp: clients_wf_def dest!: subsetD [OF set_update_subset_insert])

section \<open>Closing and answering\<close>

text \<open>lwIP accepts every call.\<close>

definition lw_ok :: "lwip_tcp \<Rightarrow> bool" where
  "lw_ok lw \<longleftrightarrow> (\<forall>cs. lw_write lw cs \<and> lw_close lw cs)"

definition close_calls :: "nat \<Rightarrow> tcp_call list" where
  "close_calls pcb = [Tcp_Arg pcb None, Tcp_Recv pcb False, Tcp_Err pcb False, Tcp_Poll pcb None, Tcp_Close pcb]"

lemma close_client_spec:
  assumes "i < length (ws_clients w)" and "wc_pcb (ws_clients w ! i) = Some pcb"
  shows "\<exists>r cs. close_client lw i w =
      Some (r, w\<lparr>ws_clients := (ws_clients w)[i := zero_client], ws_calls := ws_calls w @ close_calls pcb @ cs\<rparr>) \<and>
    (lw_ok lw \<longrightarrow> r = ERR_OK \<and> cs = []) \<and> (r = ERR_OK \<and> cs = [] \<or> r = ERR_ABRT \<and> cs = [Tcp_Abort pcb])"
  using assms by (auto simp: close_client_def tcp_call_def close_calls_def lw_ok_def Let_def)

definition header_text :: "int \<Rightarrow> string \<Rightarrow> nat \<Rightarrow> string" where
  "header_text status content_type n =
     ''HTTP/1.1 '' @ decimal_int status @ '' '' @ response_reason status @ CRLF @
     ''Content-Type: '' @ content_type @ CRLF @ ''Content-Length: '' @ decimal n @ CRLF @
     ''Cache-Control: no-store'' @ CRLF @ ''Connection: close'' @ CRLF @ CRLF"

lemma response_format_text:
  "format_text response_format [LInt status, LStr (response_reason status), LStr content_type, LNum n] =
    Some (header_text status content_type n)"
  by (simp add: response_format_def header_text_def)

lemma length_header_le:
  assumes "0 \<le> status" and "status < 1000" and "length content_type \<le> 31" and "n < 65536"
  shows "length (header_text status content_type n) \<le> 157"
proof -
  have "length (decimal_int status) \<le> 3"
    using assms(1,2) length_digits_le [of 10 "nat status" 3 lower_digit] by (simp add: decimal_int_def)
  moreover have "length (decimal n) \<le> 5" using assms(4) by (intro length_digits_le) simp_all
  moreover have "length (response_reason status) \<le> 19" by (simp add: response_reason_def)
  ultimately show ?thesis using assms(3) by (simp add: header_text_def)
qed

definition response_calls :: "nat \<Rightarrow> string \<Rightarrow> string \<Rightarrow> tcp_call list" where
  "response_calls pcb header body = [Tcp_Write pcb header, Tcp_Write pcb body, Tcp_Output pcb] @ close_calls pcb"

text \<open>However lwIP answers, the response is tried once and the slot is free afterwards.\<close>

lemma send_response_spec:
  assumes w: "clients_wf (ws_clients w)" and i: "i < WEB_MAX_CLIENTS" and pcb: "wc_pcb (ws_clients w ! i) = Some pcb"
    and n: "n \<le> length body" "n < 65536" and st: "0 \<le> status" "status < 1000" and ct: "length content_type \<le> 31"
  shows "\<exists>r cs. send_response lw i status content_type body n w =
      Some (r, w\<lparr>ws_clients := (ws_clients w)[i := zero_client], ws_calls := ws_calls w @ cs\<rparr>) \<and>
    (lw_ok lw \<longrightarrow> r = ERR_OK \<and> cs = response_calls pcb (header_text status content_type n) (take n body))"
proof -
  let ?c = "ws_clients w ! i" and ?tx = "header_text status content_type n"
  note wf = clients_wfD [OF w i]
  have tx: "length ?tx \<le> 157" using length_header_le [OF st ct n(2)] .
  let ?h = "?tx @ NUL # drop (Suc (length ?tx)) (wc_response_header ?c)"
  have h: "vsnprintf_at (wc_response_header ?c) 0 WEB_RESPONSE_HEADER_SIZE ?tx = Some ?h"
    using tx wf(2) by (simp add: vsnprintf_at_def bytes_put_def wc_wf_def WEB_RESPONSE_HEADER_SIZE_def)
  have s1: "slice_at ?h 0 (length ?tx) = Some ?tx" "to_u16 (length ?tx) = length ?tx"
    using tx by (simp_all add: slice_at_def)
  have s2: "slice_at body 0 n = Some (take n body)" "to_u16 n = n" using n by simp_all
  have big: "\<not> WEB_RESPONSE_HEADER_SIZE \<le> length ?tx" using tx by (simp add: WEB_RESPONSE_HEADER_SIZE_def)
  let ?w = "w\<lparr>ws_clients := (ws_clients w)[i := ?c\<lparr>wc_response_header := ?h\<rparr>]\<rparr>"
  let ?c1 = "[Tcp_Write pcb ?tx]" and ?c2 = "[Tcp_Write pcb ?tx, Tcp_Write pcb (take n body)]"
  have eq: "send_response lw i status content_type body n w =
      (if \<not> lw_write lw (ws_calls w @ ?c1) then close_client lw i (?w\<lparr>ws_calls := ws_calls w @ ?c1\<rparr>)
       else if \<not> lw_write lw (ws_calls w @ ?c2) then close_client lw i (?w\<lparr>ws_calls := ws_calls w @ ?c2\<rparr>)
       else close_client lw i (?w\<lparr>ws_calls := ws_calls w @ ?c2 @ [Tcp_Output pcb]\<rparr>))"
    by (simp add: send_response_def wf(1) response_format_text h tcp_write_def s1 s2 pcb tcp_call_def big)
  have cl: "\<exists>r cs'. close_client lw i (?w\<lparr>ws_calls := ws_calls w @ cs\<rparr>) =
      Some (r, w\<lparr>ws_clients := (ws_clients w)[i := zero_client], ws_calls := ws_calls w @ cs @ close_calls pcb @ cs'\<rparr>) \<and>
      (lw_ok lw \<longrightarrow> r = ERR_OK \<and> cs' = [])" for cs
    using close_client_spec [of i "?w\<lparr>ws_calls := ws_calls w @ cs\<rparr>" pcb lw] wf(3) pcb by auto
  show ?thesis
  proof (cases "lw_write lw (ws_calls w @ ?c1) \<and> lw_write lw (ws_calls w @ ?c2)")
    case True
    with cl [of "?c2 @ [Tcp_Output pcb]"] show ?thesis
      unfolding eq response_calls_def by auto
  next
    case False
    then have "\<not> lw_ok lw" by (auto simp: lw_ok_def)
    moreover from False eq consider
      "send_response lw i status content_type body n w = close_client lw i (?w\<lparr>ws_calls := ws_calls w @ ?c1\<rparr>)"
    | "send_response lw i status content_type body n w = close_client lw i (?w\<lparr>ws_calls := ws_calls w @ ?c2\<rparr>)"
      by (auto split: if_splits)
    ultimately show ?thesis using cl [of ?c1] cl [of ?c2] by cases metis+
  qed
qed

section \<open>Targets\<close>

lemma hex_value_eq: "hex_value c = Control_Command.hex_value c"
proof -
  have "(of_char c :: int) = int (char_code c)" by (simp only: of_nat_of_char)
  then show ?thesis unfolding hex_value_def hex_value_code char_code_tolower Let_def by auto
qed

lemma take_rounds: "take (3 * Suc k + 2) (c0 # c1 # c2 # r) = c0 # c1 # c2 # take (3 * k + 2) r"
  "drop (3 * Suc k + 2) (c0 # c1 # c2 # r) = drop (3 * k + 2) r"
proof -
  have n: "3 * Suc k + 2 = Suc (Suc (Suc (3 * k + 2)))" by simp
  show "take (3 * Suc k + 2) (c0 # c1 # c2 # r) = c0 # c1 # c2 # take (3 * k + 2) r"
    "drop (3 * Suc k + 2) (c0 # c1 # c2 # r) = drop (3 * k + 2) r"
    unfolding n by simp_all
qed

lemma parse_address_rounds_iff:
  "3 * k + 3 \<le> length tx \<Longrightarrow>
   parse_address_rounds (Suc k) tx acc = Some (Some (out, rest)) \<longleftrightarrow>
     (\<exists>b. length b = Suc k \<and> out = acc @ b \<and> map c_tolower (take (3 * k + 2) tx) = address_text lower_digit b \<and>
       rest = drop (3 * k + 2) tx)"
proof (induction k arbitrary: tx acc)
  case 0
  then obtain c0 c1 c2 r where tx: "tx = c0 # c1 # c2 # r"
    by (auto simp: numeral_eq_Suc Suc_le_length_iff)
  let ?x = "word_of_int (push_bit 4 (Control_Command.hex_value c0) OR Control_Command.hex_value c1) :: u8"
  have "parse_address_rounds (Suc 0) tx acc = Some (Some (out, rest)) \<longleftrightarrow>
      0 \<le> Control_Command.hex_value c0 \<and> 0 \<le> Control_Command.hex_value c1 \<and> out = acc @ [?x] \<and> rest = c2 # r"
    by (auto simp: tx hex_value_eq Let_def)
  also have "\<dots> \<longleftrightarrow> (\<exists>b. out = acc @ [b] \<and> map c_tolower [c0, c1] = byte_text lower_digit b \<and> rest = c2 # r)"
    using byte_text_iff [of c0 c1] by auto
  also have "\<dots> \<longleftrightarrow> (\<exists>b. length b = Suc 0 \<and> out = acc @ b \<and> map c_tolower [c0, c1] = address_text lower_digit b \<and> rest = c2 # r)"
    by (auto simp: length_Suc_conv)
  finally show ?case by (simp add: tx)
next
  case (Suc k)
  then obtain c0 c1 c2 r where tx: "tx = c0 # c1 # c2 # r" "3 * k + 3 \<le> length r"
    by (auto simp: numeral_eq_Suc Suc_le_length_iff)
  let ?x = "word_of_int (push_bit 4 (Control_Command.hex_value c0) OR Control_Command.hex_value c1) :: u8"
  have "parse_address_rounds (Suc (Suc k)) tx acc = Some (Some (out, rest)) \<longleftrightarrow>
      0 \<le> Control_Command.hex_value c0 \<and> 0 \<le> Control_Command.hex_value c1 \<and> c2 = CHR '':'' \<and>
      parse_address_rounds (Suc k) r (acc @ [?x]) = Some (Some (out, rest))"
    using tx by (auto simp: hex_value_eq Let_def simp del: parse_address_rounds.simps(2)
        simp add: parse_address_rounds.simps(2) [of "Suc k"])
  also have "\<dots> \<longleftrightarrow> (\<exists>x b. map c_tolower [c0, c1] = byte_text lower_digit x \<and> c2 = CHR '':'' \<and>
      length b = Suc k \<and> out = acc @ x # b \<and> map c_tolower (take (3 * k + 2) r) = address_text lower_digit b \<and>
      rest = drop (3 * k + 2) r)"
    unfolding Suc.IH [OF tx(2)] byte_text_iff by auto
  also have "\<dots> \<longleftrightarrow> (\<exists>b. length b = Suc (Suc k) \<and> out = acc @ b \<and>
      map c_tolower (take (3 * Suc k + 2) tx) = address_text lower_digit b \<and> rest = drop (3 * Suc k + 2) tx)"
    unfolding tx(1) take_rounds by (auto simp: length_Suc_conv byte_text_def)
  finally show ?case .
qed

lemma parse_address_rounds_total: "3 * n \<le> length tx \<Longrightarrow> parse_address_rounds n tx acc \<noteq> None"
proof (induction n arbitrary: tx acc)
  case (Suc n)
  then obtain c0 c1 c2 r where tx: "tx = c0 # c1 # c2 # r" "3 * n \<le> length r"
    by (auto simp: numeral_eq_Suc Suc_le_length_iff)
  with Suc.IH [OF tx(2)] show ?case by (auto simp: Let_def)
qed simp

lemma web_parse_address_iff:
  assumes "18 \<le> length tx"
  shows "parse_address tx = Some (Some b) \<longleftrightarrow> length b = 6 \<and>
    map c_tolower (take 17 tx) = address_text lower_digit b \<and> tx ! 17 \<in> {CHR '' '', NUL, CHR ''&''}"
    and "parse_address tx \<noteq> None"
proof -
  have at: "array_at (drop 17 tx) 0 = Some (tx ! 17)" using assms by simp
  have r: "parse_address_rounds 6 tx [] = Some (Some (out, rest)) \<longleftrightarrow>
      length out = 6 \<and> map c_tolower (take 17 tx) = address_text lower_digit out \<and> rest = drop 17 tx" for out rest
    using parse_address_rounds_iff [of 5 tx "[]" out rest] assms by (auto simp: eval_nat_numeral)
  have t: "parse_address_rounds 6 tx [] \<noteq> None" using parse_address_rounds_total [of 6 tx "[]"] assms by simp
  have "(parse_address tx = Some (Some b) \<longleftrightarrow> length b = 6 \<and>
      map c_tolower (take 17 tx) = address_text lower_digit b \<and> tx ! 17 \<in> {CHR '' '', NUL, CHR ''&''}) \<and>
    parse_address tx \<noteq> None"
  proof (cases "parse_address_rounds 6 tx []")
    case None
    with t show ?thesis by simp
  next
    case (Some q)
    show ?thesis
    proof (cases q)
      case None
      with Some r [of b "drop 17 tx"] show ?thesis by (auto simp: parse_address_def)
    next
      case (Some p)
      obtain out rest where p: "p = (out, rest)" by force
      with Some \<open>parse_address_rounds 6 tx [] = Some q\<close>
      have q: "parse_address_rounds 6 tx [] = Some (Some (out, rest))" by simp
      then have o: "length out = 6" "map c_tolower (take 17 tx) = address_text lower_digit out" "rest = drop 17 tx"
        using r by simp_all
      have "b = out" if "length b = 6" "map c_tolower (take 17 tx) = address_text lower_digit b"
        using q that r [of b "drop 17 tx"] by simp
      with q o at show ?thesis by (auto simp: parse_address_def)
    qed
  qed
  then show "parse_address tx = Some (Some b) \<longleftrightarrow> length b = 6 \<and>
      map c_tolower (take 17 tx) = address_text lower_digit b \<and> tx ! 17 \<in> {CHR '' '', NUL, CHR ''&''}"
    and "parse_address tx \<noteq> None" by blast+
qed

text \<open>What a target asks for: the specification of the endpoints.\<close>

definition connect_prefix :: string where "connect_prefix = ''/api/connect?address=''"

definition target_asks :: "string \<Rightarrow> bluetooth_control_request \<Rightarrow> bool" where
  "target_asks target rq \<longleftrightarrow>
     target = ''/api/scan'' \<and> rq = zero_request\<lparr>rq_action := BLUETOOTH_CONTROL_SCAN\<rparr> \<or>
     target = ''/api/disconnect'' \<and> rq = zero_request\<lparr>rq_action := BLUETOOTH_CONTROL_DISCONNECT\<rparr> \<or>
     target = ''/api/reconnect'' \<and> rq = zero_request\<lparr>rq_action := BLUETOOTH_CONTROL_RECONNECT\<rparr> \<or>
     target = ''/api/forget'' \<and> rq = zero_request\<lparr>rq_action := BLUETOOTH_CONTROL_FORGET\<rparr> \<or>
     (\<exists>hex b rest. target = connect_prefix @ hex @ rest \<and> length b = 6 \<and> map c_tolower hex = address_text lower_digit b \<and>
        (rest = [] \<or> hd rest = CHR ''&'') \<and>
        rq = zero_request\<lparr>rq_action := BLUETOOTH_CONTROL_CONNECT, rq_address := b\<rparr>)"

lemma scan_word_props:
  assumes "scan_word n cs = (word, rest)"
  shows "length word \<le> n" "\<forall>c\<in>set word. \<not> c_isspace c" "set word \<subseteq> set cs" "set rest \<subseteq> set cs"
proof -
  from assms have w: "word = takeWhile (\<lambda>c. \<not> c_isspace c) (take n (dropWhile c_isspace cs))"
    "rest = drop (length word) (dropWhile c_isspace cs)" by (auto simp: scan_word_def Let_def)
  show "length word \<le> n"
    unfolding w(1) using length_takeWhile_le [of "\<lambda>c. \<not> c_isspace c" "take n (dropWhile c_isspace cs)"] by simp
  show "\<forall>c\<in>set word. \<not> c_isspace c" unfolding w(1) by (auto dest: set_takeWhileD)
  show "set word \<subseteq> set cs" unfolding w(1)
    by (auto dest!: set_takeWhileD in_set_takeD set_dropWhileD)
  show "set rest \<subseteq> set cs" unfolding w(2) by (auto dest!: in_set_dropD set_dropWhileD)
qed

text \<open>A target as \<open>sscanf\<close> delivers it.\<close>

definition scanned_target :: "string \<Rightarrow> bool" where
  "scanned_target target \<longleftrightarrow> length target \<le> 127 \<and> NUL \<notin> set target \<and> CHR '' '' \<notin> set target"

lemma scan_request_target: "scan_request (c_string cs) = Some (verb, target) \<Longrightarrow> scanned_target target"
proof -
  assume a: "scan_request (c_string cs) = Some (verb, target)"
  obtain verb' rest where s: "scan_word 7 (c_string cs) = (verb', rest)" by force
  obtain target' rest' where t: "scan_word 127 rest = (target', rest')" by force
  from a s t have eq: "target' = target" by (simp add: scan_request_def split: if_splits)
  have "set target \<subseteq> set (c_string cs)" using scan_word_props(3) [OF t] scan_word_props(4) [OF s] eq by blast
  then have "NUL \<notin> set target" using NUL_notin_c_string [of cs] by blast
  moreover have "CHR '' '' \<notin> set target"
    using scan_word_props(2) [OF t] eq by (metis c_isspace_def)
  ultimately show ?thesis using scan_word_props(1) [OF t] eq by (simp add: scanned_target_def)
qed

lemma lower_digit_not_NUL: "n < 16 \<Longrightarrow> lower_digit n \<noteq> NUL"
  by (simp add: char_code_eq_iff char_code_lower_digit)

lemma NUL_notin_address_text: "NUL \<notin> set (address_text lower_digit b)"
proof (induction lower_digit b rule: address_text.induct)
  case (2 b)
  have "unat b div 16 < 16" using unsigned_less [of b, where 'a = nat] by simp
  then show ?case using lower_digit_not_NUL [symmetric] by (auto simp: byte_text_def)
next
  case (3 b b' bs)
  have "unat b div 16 < 16" using unsigned_less [of b, where 'a = nat] by simp
  with 3 show ?case using lower_digit_not_NUL [symmetric] by (auto simp: byte_text_def)
qed simp

lemma connect_text_iff:
  assumes "NUL \<notin> set u" and "CHR '' '' \<notin> set u" and "18 \<le> length u + n"
  shows "length b = 6 \<and> map c_tolower (take 17 (u @ replicate n NUL)) = address_text lower_digit b \<and>
      (u @ replicate n NUL) ! 17 \<in> {CHR '' '', NUL, CHR ''&''} \<longleftrightarrow>
    (\<exists>hex rest. u = hex @ rest \<and> length b = 6 \<and> map c_tolower hex = address_text lower_digit b \<and>
      (rest = [] \<or> hd rest = CHR ''&''))"
  (is "?l \<longleftrightarrow> ?r")
proof
  assume l: ?l
  then have b: "length b = 6" "length (address_text lower_digit b) = 17"
    using length_address_text [of b lower_digit] by (cases b; simp)+
  have "17 \<le> length u"
  proof (rule ccontr)
    assume "\<not> 17 \<le> length u"
    with assms(3) have "take 17 (u @ replicate n NUL) = u @ NUL # replicate (16 - length u) NUL"
      by (simp flip: replicate_Suc)
    with l have "c_tolower NUL \<in> set (address_text lower_digit b)"
      by (metis in_set_conv_decomp list.set_intros(1) image_eqI list.set_map)
    then show False using NUL_notin_address_text [of b] by (simp add: c_tolower_def)
  qed
  moreover from this have "u = take 17 u @ drop 17 u" by simp
  moreover have "drop 17 u = [] \<or> hd (drop 17 u) = CHR ''&''"
  proof (cases "length u = 17")
    case False
    with \<open>17 \<le> length u\<close> have "u ! 17 \<in> set u" "(u @ replicate n NUL) ! 17 = u ! 17" "hd (drop 17 u) = u ! 17"
      by (simp_all add: nth_append hd_drop_conv_nth)
    with l assms(1,2) show ?thesis by auto
  qed simp
  ultimately show ?r using l b by (intro exI [of _ "take 17 u"] exI [of _ "drop 17 u"]) simp
next
  assume ?r
  then obtain hex rest where r: "u = hex @ rest" "length b = 6" "map c_tolower hex = address_text lower_digit b"
    "rest = [] \<or> hd rest = CHR ''&''" by blast
  have "length (map c_tolower hex) = 17"
    using r(2) length_address_text [of b lower_digit] unfolding r(3) by (cases b) simp_all
  then have "length hex = 17" by simp
  with r assms(3) show ?l by (cases rest) (auto simp: nth_append)
qed

lemma request_of_target_iff:
  assumes "scanned_target target"
  shows "request_of_target target = Some (Some rq) \<longleftrightarrow> target_asks target rq" and "request_of_target target \<noteq> None"
proof -
  have "(request_of_target target = Some (Some rq) \<longleftrightarrow> target_asks target rq) \<and> request_of_target target \<noteq> None"
  proof (cases "take 21 target = ''/api/connect?address=''")
    case False
    then have "\<nexists>u. target = connect_prefix @ u" by (auto simp: connect_prefix_def)
    with False show ?thesis
      by (auto simp: request_of_target_def target_asks_def Let_def)
  next
    case True
    define u where "u = drop 21 target"
    have t: "target = connect_prefix @ u"
      using append_take_drop_id [of 21 target] True by (simp add: u_def connect_prefix_def)
    have l: "length target = 21 + length u" by (simp add: t connect_prefix_def)
    define n where "n = 128 - length target"
    let ?tx = "u @ replicate n NUL"
    have tx: "drop 21 (target @ replicate (128 - length target) NUL) = ?tx"
      using l by (simp add: u_def n_def)
    have u: "NUL \<notin> set u" "CHR '' '' \<notin> set u" "18 \<le> length u + n" "18 \<le> length ?tx"
      using assms l by (auto simp: scanned_target_def t n_def)
    have ne: "target \<noteq> ''/api/scan''" "target \<noteq> ''/api/disconnect''" "target \<noteq> ''/api/reconnect''" "target \<noteq> ''/api/forget''"
      by (simp_all add: t connect_prefix_def)
    have "target_asks target rq \<longleftrightarrow> (\<exists>b. (\<exists>hex rest. u = hex @ rest \<and> length b = 6 \<and>
        map c_tolower hex = address_text lower_digit b \<and> (rest = [] \<or> hd rest = CHR ''&'')) \<and>
        rq = zero_request\<lparr>rq_action := BLUETOOTH_CONTROL_CONNECT, rq_address := b\<rparr>)"
      using ne unfolding target_asks_def t same_append_eq by blast
    then have "target_asks target rq \<longleftrightarrow> (\<exists>b. (length b = 6 \<and> map c_tolower (take 17 ?tx) = address_text lower_digit b \<and>
        ?tx ! 17 \<in> {CHR '' '', NUL, CHR ''&''}) \<and> rq = zero_request\<lparr>rq_action := BLUETOOTH_CONTROL_CONNECT, rq_address := b\<rparr>)"
      unfolding connect_text_iff [OF u(1-3)] .
    then have "target_asks target rq \<longleftrightarrow> (\<exists>b. parse_address ?tx = Some (Some b) \<and>
        rq = zero_request\<lparr>rq_action := BLUETOOTH_CONTROL_CONNECT, rq_address := b\<rparr>)"
      unfolding web_parse_address_iff(1) [OF u(4)] .
    moreover obtain q where q: "parse_address ?tx = Some q" using web_parse_address_iff(2) [OF u(4)] by blast
    moreover have "request_of_target target = do {
         address \<leftarrow> parse_address ?tx;
         case address of
           Some address \<Rightarrow> Some (Some (zero_request\<lparr>rq_action := BLUETOOTH_CONTROL_CONNECT, rq_address := address\<rparr>))
         | None \<Rightarrow> Some None
       }"
      unfolding request_of_target_def Let_def tx using True ne by (simp cong: option.case_cong)
    ultimately show ?thesis by (cases q) auto
  qed
  then show "request_of_target target = Some (Some rq) \<longleftrightarrow> target_asks target rq" "request_of_target target \<noteq> None" by blast+
qed

section \<open>Requests and answers\<close>

definition json_type :: string where "json_type = ''application/json; charset=utf-8''"

text \<open>What the server answers to a request: status, content type, body, and what happens to the application.\<close>

definition web_answer :: "string \<Rightarrow> string \<Rightarrow> string \<Rightarrow> bt_app \<Rightarrow> int \<times> string \<times> string \<times> bt_app" where
  "web_answer version html request a =
     (case scan_request request of
        None \<Rightarrow> (400, json_type, error_json ''invalid request'', a)
      | Some (verb, target) \<Rightarrow>
          if verb = ''GET'' \<and> target = ''/api/status''
          then (200, json_type, json_text (snapshot_json (bluetooth_control_get_snapshot version a)), a)
          else if verb = ''GET'' \<and> target \<in> {''/'', ''/index.html''}
          then (200, ''text/html; charset=utf-8'', html, a)
          else if verb \<noteq> ''POST'' then (405, json_type, error_json ''method not allowed'', a)
          else case request_of_target target of
                 Some (Some rq) \<Rightarrow>
                   (let (ok, a) = bluetooth_control_submit rq a
                    in if ok then (202, json_type, accepted_json, a)
                       else (503, json_type, error_json ''control queue full'', a))
               | _ \<Rightarrow> (404, json_type, error_json ''unknown endpoint'', a))"

text \<open>The client was answered with that: one response, and its slot is free.\<close>

definition answered ::
    "lwip_tcp \<Rightarrow> nat \<Rightarrow> nat \<Rightarrow> web_server \<Rightarrow> int \<times> string \<times> string \<times> bt_app \<Rightarrow> (err_t \<times> web_server) option \<Rightarrow> bool" where
  "answered lw i pcb w ans res \<longleftrightarrow>
     (case ans of (status, content_type, body, a) \<Rightarrow>
        \<exists>r cs json. res = Some (r, w\<lparr>ws_app := a, ws_status_json := json,
            ws_clients := (ws_clients w)[i := zero_client], ws_calls := ws_calls w @ cs\<rparr>) \<and>
          length json = length (ws_status_json w) \<and>
          (lw_ok lw \<longrightarrow> r = ERR_OK \<and> cs = response_calls pcb (header_text status content_type (length body)) body))"

lemma answeredI:
  assumes w: "clients_wf (ws_clients w)" and i: "i < WEB_MAX_CLIENTS" and pcb: "wc_pcb (ws_clients w ! i) = Some pcb"
    and n: "n < 65536" "n \<le> length buf" and st: "0 \<le> status" "status < 1000" and ct: "length content_type \<le> 31"
    and j: "length json = length (ws_status_json w)"
  shows "answered lw i pcb w (status, content_type, take n buf, a)
    (send_response lw i status content_type buf n (w\<lparr>ws_app := a, ws_status_json := json\<rparr>))"
proof -
  from send_response_spec [of "w\<lparr>ws_app := a, ws_status_json := json\<rparr>" i pcb n buf status content_type lw] assms
  obtain r cs where "send_response lw i status content_type buf n (w\<lparr>ws_app := a, ws_status_json := json\<rparr>) =
      Some (r, w\<lparr>ws_app := a, ws_status_json := json, ws_clients := (ws_clients w)[i := zero_client], ws_calls := ws_calls w @ cs\<rparr>)"
    "lw_ok lw \<longrightarrow> r = ERR_OK \<and> cs = response_calls pcb (header_text status content_type n) (take n buf)" by auto
  then show ?thesis
    unfolding answered_def prod.case using j n
    by (intro exI [of _ r] exI [of _ cs] exI [of _ json]) (simp add: min_absorb2)
qed

lemma answered_same:
  assumes w: "clients_wf (ws_clients w)" and i: "i < WEB_MAX_CLIENTS" and pcb: "wc_pcb (ws_clients w ! i) = Some pcb"
    and n: "length buf < 65536" and st: "0 \<le> status" "status < 1000" and ct: "length content_type \<le> 31"
  shows "answered lw i pcb w (status, content_type, buf, a)
    (send_response lw i status content_type buf (length buf) (w\<lparr>ws_app := a\<rparr>))"
  using answeredI [OF w i pcb n order_refl st ct refl, of lw a] by simp

lemma answered_json:
  assumes w: "clients_wf (ws_clients w)" and i: "i < WEB_MAX_CLIENTS" and pcb: "wc_pcb (ws_clients w ! i) = Some pcb"
    and n: "length buf < 65536" and st: "0 \<le> status" "status < 1000"
  shows "answered lw i pcb w (status, json_type, buf, a) (respond_json lw i status buf (w\<lparr>ws_app := a\<rparr>))"
  using answered_same [OF w i pcb n st, of json_type lw a] by (simp add: respond_json_def json_type_def)

lemma handle_status_answered:
  assumes "ws_wf w" and "addresses_ok (ws_app w)" and i: "i < WEB_MAX_CLIENTS" and pcb: "wc_pcb (ws_clients w ! i) = Some pcb"
  shows "answered lw i pcb w
    (200, json_type, json_text (snapshot_json (bluetooth_control_get_snapshot version (ws_app w))), ws_app w)
    (handle_status lw version i w)"
proof -
  let ?s = "bluetooth_control_get_snapshot version (ws_app w)"
  have w: "clients_wf (ws_clients w)" "length (ws_status_json w) = CONTROL_JSON_MAX_SNAPSHOT_SIZE"
    "dm_wf (device_manager (ws_app w))" using assms(1) by (simp_all add: ws_wf_def)
  have s: "sn_wf ?s" using snapshot_wf [OF w(3) assms(2)] .
  have pos: "0 < CONTROL_JSON_MAX_SNAPSHOT_SIZE" by (simp add: CONTROL_JSON_MAX_SNAPSHOT_SIZE_def)
  from append_snapshot_result [OF s w(2) pos] length_snapshot_le [OF s] obtain b where
    b: "control_json_write_snapshot (Some ?s) (Some (ws_status_json w)) CONTROL_JSON_MAX_SNAPSHOT_SIZE True =
      Some (True, Some b, Some (length (json_text (snapshot_json ?s))))"
      "length b = length (ws_status_json w)" "take (length (json_text (snapshot_json ?s))) b = json_text (snapshot_json ?s)"
    using w(2) pos
    by (auto simp: control_json_write_snapshot_def holds_def SNAPSHOT_TEXT_MAX_def CONTROL_JSON_MAX_SNAPSHOT_SIZE_def split: if_splits)
  have n: "length (json_text (snapshot_json ?s)) < 65536" "length (json_text (snapshot_json ?s)) \<le> length b"
    using length_snapshot_le [OF s] b(2) w(2) by (simp_all add: SNAPSHOT_TEXT_MAX_def CONTROL_JSON_MAX_SNAPSHOT_SIZE_def)
  from answeredI [OF w(1) i pcb n _ _ _ b(2), of 200 json_type lw "ws_app w"] b show ?thesis
    by (simp add: handle_status_def json_type_def)
qed

lemma length_error_json: "length (error_json what) = length what + 12"
  by (simp add: error_json_def)

lemma handle_request_answered:
  assumes w: "ws_wf w" and "addresses_ok (ws_app w)" and i: "i < WEB_MAX_CLIENTS"
    and pcb: "wc_pcb (ws_clients w ! i) = Some pcb" and html: "length html < 65536"
  shows "answered lw i pcb w (web_answer version html (c_string (wc_request (ws_clients w ! i))) (ws_app w))
    (handle_request lw version html i w)"
proof -
  let ?rq = "c_string (wc_request (ws_clients w ! i))"
  have cw: "clients_wf (ws_clients w)" using w by (simp add: ws_wf_def)
  note at = clients_wfD(1) [OF cw i]
  have err: "answered lw i pcb w (st, json_type, error_json what, a) (respond_json lw i st (error_json what) (w\<lparr>ws_app := a\<rparr>))"
    if "length what < 100" "0 \<le> st" "st < 1000" for st what a
    by (rule answered_json [OF cw i pcb _ that(2,3)]) (use that(1) in \<open>simp add: length_error_json\<close>)
  note err0 = err [of _ _ "ws_app w", simplified]
  have acc: "answered lw i pcb w (202, json_type, accepted_json, a) (respond_json lw i 202 accepted_json (w\<lparr>ws_app := a\<rparr>))" for a
    by (rule answered_json [OF cw i pcb]) (simp_all add: accepted_json_def)
  have page: "answered lw i pcb w (200, ''text/html; charset=utf-8'', html, ws_app w)
      (send_response lw i 200 ''text/html; charset=utf-8'' html (length html) w)"
    using answered_same [OF cw i pcb html, of 200 "''text/html; charset=utf-8''" lw "ws_app w"] by simp
  note status = handle_status_answered [OF w assms(2) i pcb]
  show ?thesis
  proof (cases "scan_request ?rq")
    case None
    with at err0 show ?thesis by (simp add: handle_request_def web_answer_def)
  next
    case (Some p)
    obtain verb target where p: "p = (verb, target)" by force
    with Some have s: "scan_request ?rq = Some (verb, target)" by simp
    consider (status) "verb = ''GET''" "target = ''/api/status''"
      | (page) "verb = ''GET''" "target \<in> {''/'', ''/index.html''}"
      | (other) "verb \<noteq> ''POST''" "\<not> (verb = ''GET'' \<and> target \<in> {''/api/status'', ''/'', ''/index.html''})"
      | (post) "verb = ''POST''" by blast
    then show ?thesis
    proof cases
      case status
      with s at \<open>\<And>lw version. answered lw i pcb w _ (handle_status lw version i w)\<close> show ?thesis
        by (simp add: handle_request_def web_answer_def)
    next
      case page
      with s at \<open>answered lw i pcb w _ (send_response lw i 200 _ html _ w)\<close> show ?thesis
        by (auto simp: handle_request_def web_answer_def)
    next
      case other
      with s at err0 show ?thesis by (auto simp: handle_request_def web_answer_def)
    next
      case post
      obtain q where q: "request_of_target target = Some q"
        using request_of_target_iff(2) [OF scan_request_target [OF s]] by blast
      show ?thesis
      proof (cases q)
        case None
        with post s at q err0 show ?thesis by (simp add: handle_request_def web_answer_def)
      next
        case (Some rq)
        obtain ok a where a: "bluetooth_control_submit rq (ws_app w) = (ok, a)" by force
        with post s at q Some err [of _ _ a] acc [of a] show ?thesis
          by (simp add: handle_request_def web_answer_def)
      qed
    qed
  qed
qed

text \<open>The text received so far, as the string functions see it.\<close>

definition request_text :: "web_client \<Rightarrow> char list \<Rightarrow> string" where
  "request_text client copied = c_string (take (wc_request_length client) (wc_request client) @ copied @ [NUL])"

lemma c_string_cut: "c_string (xs @ NUL # ys) = c_string (xs @ [NUL])"
  by (induction xs) (auto simp: c_string_def)

definition received_client :: "web_client \<Rightarrow> char list \<Rightarrow> web_client" where
  "received_client client copied =
     client\<lparr>wc_request := take (wc_request_length client) (wc_request client) @ copied @ NUL #
          drop (wc_request_length client + length copied + 1) (wc_request client),
        wc_request_length := wc_request_length client + length copied\<rparr>"

lemma receive_request_spec:
  fixes w :: web_server and i pcb tot_len :: nat and copied :: "char list"
  assumes w: "ws_wf w" and ad: "addresses_ok (ws_app w)" and i: "i < WEB_MAX_CLIENTS"
    and pcb: "wc_pcb (ws_clients w ! i) = Some pcb" and html: "length html < 65536"
    and copied: "copied = copy (WEB_REQUEST_SIZE - 1 - wc_request_length (ws_clients w ! i))"
    and fits: "length copied \<le> WEB_REQUEST_SIZE - 1 - wc_request_length (ws_clients w ! i)"
  defines "w1 \<equiv> w\<lparr>ws_calls := ws_calls w @ [Tcp_Recved pcb tot_len],
    ws_clients := (ws_clients w)[i := received_client (ws_clients w ! i) copied]\<rparr>"
  shows "ws_wf w1" and
    "if sublist (CRLF @ CRLF) (request_text (ws_clients w ! i) copied)
     then answered lw i pcb w1 (web_answer version html (request_text (ws_clients w ! i) copied) (ws_app w))
       (receive_request lw version html i (Some (tot_len, copy)) ERR_OK w)
     else if length copied = WEB_REQUEST_SIZE - 1 - wc_request_length (ws_clients w ! i)
     then answered lw i pcb w1 (400, json_type, error_json ''request too large'', ws_app w)
       (receive_request lw version html i (Some (tot_len, copy)) ERR_OK w)
     else receive_request lw version html i (Some (tot_len, copy)) ERR_OK w = Some (ERR_OK, w1)"
proof -
  let ?c = "ws_clients w ! i" and ?r = "receive_request lw version html i (Some (tot_len, copy)) ERR_OK w"
  have cw: "clients_wf (ws_clients w)" using w by (simp add: ws_wf_def)
  note at = clients_wfD [OF cw i]
  have c: "length (wc_request ?c) = WEB_REQUEST_SIZE" "wc_request_length ?c < WEB_REQUEST_SIZE"
    using at(2) by (simp_all add: wc_wf_def)
  then have len: "wc_request_length ?c + length copied < WEB_REQUEST_SIZE" using fits by linarith
  let ?b1 = "take (wc_request_length ?c) (wc_request ?c) @ copied @ drop (wc_request_length ?c + length copied) (wc_request ?c)"
  have b1: "bytes_put (wc_request ?c) (wc_request_length ?c) copied = Some ?b1"
    using len c(1) by (simp add: bytes_put_def)
  have b2: "array_put ?b1 (wc_request_length ?c + length copied) NUL = Some (wc_request (received_client ?c copied))"
    using array_put_append [of "wc_request_length ?c + length copied" "take (wc_request_length ?c) (wc_request ?c) @ copied"
        "drop (wc_request_length ?c + length copied) (wc_request ?c)" NUL] len c
    by (simp add: received_client_def)
  have cs: "c_string (wc_request (received_client ?c copied)) = request_text ?c copied"
    using c_string_cut [of "take (wc_request_length ?c) (wc_request ?c) @ copied"]
    by (simp add: received_client_def request_text_def)
  have rc: "wc_wf (received_client ?c copied)" "wc_pcb (received_client ?c copied) = Some pcb"
    using at(2) pcb len by (auto simp: wc_wf_def received_client_def)
  have w1: "ws_wf w1" using w clients_wf_update [OF cw rc(1)] by (simp add: ws_wf_def w1_def)
  then show "ws_wf w1" .
  have w1i: "ws_clients w1 ! i = received_client ?c copied" "ws_app w1 = ws_app w"
    using at(3) by (simp_all add: w1_def)
  have upd: "?c\<lparr>wc_request := wc_request (received_client ?c copied), wc_request_length := wc_request_length ?c + length copied\<rparr> =
      received_client ?c copied" by (simp add: received_client_def)
  have "store_received i tot_len copy w =
      Some (WEB_REQUEST_SIZE - 1 - wc_request_length ?c, length copied, request_text ?c copied, w1)"
    by (simp add: store_received_def at(1) pcb tcp_call_def Let_def copied [symmetric, simplified] b1 b2 upd cs w1_def)
  then have eq: "?r = (if sublist (CRLF @ CRLF) (request_text ?c copied) then handle_request lw version html i w1
      else if WEB_REQUEST_SIZE - 1 - wc_request_length ?c = length copied
      then respond_json lw i 400 (error_json ''request too large'') w1 else Some (ERR_OK, w1))"
    by (simp add: receive_request_def)
  have handle: "answered lw i pcb w1 (web_answer version html (request_text ?c copied) (ws_app w)) (handle_request lw version html i w1)"
    using handle_request_answered [OF w1 _ i _ html, of pcb lw version] ad rc(2) unfolding w1i cs by simp
  have big: "answered lw i pcb w1 (400, json_type, error_json ''request too large'', ws_app w)
      (respond_json lw i 400 (error_json ''request too large'') w1)"
    using answered_json [of w1 i pcb "error_json ''request too large''" 400 lw "ws_app w"] w1 i rc(2)
    by (simp add: ws_wf_def w1i length_error_json) (simp add: w1_def)
  show "if sublist (CRLF @ CRLF) (request_text ?c copied)
     then answered lw i pcb w1 (web_answer version html (request_text ?c copied) (ws_app w)) ?r
     else if length copied = WEB_REQUEST_SIZE - 1 - wc_request_length ?c
     then answered lw i pcb w1 (400, json_type, error_json ''request too large'', ws_app w) ?r
     else ?r = Some (ERR_OK, w1)"
    unfolding eq using handle big by simp
qed

section \<open>Connections\<close>

definition accept_calls :: "nat \<Rightarrow> nat \<Rightarrow> tcp_call list" where
  "accept_calls pcb i = [Tcp_Arg pcb (Some i), Tcp_Recv pcb True, Tcp_Err pcb True, Tcp_Poll pcb (Some 2)]"

lemma accept_client_spec:
  assumes "ws_wf w"
  shows "accept_client pcb ERR_OK w =
    (case find (\<lambda>i. \<not> wc_used (ws_clients w ! i)) [0..<WEB_MAX_CLIENTS] of
       None \<Rightarrow> Some (ERR_ABRT, w\<lparr>ws_calls := ws_calls w @ [Tcp_Abort pcb]\<rparr>)
     | Some i \<Rightarrow> Some (ERR_OK, w\<lparr>ws_clients := (ws_clients w)[i := zero_client\<lparr>wc_used := True, wc_pcb := Some pcb\<rparr>],
                       ws_calls := ws_calls w @ accept_calls pcb i\<rparr>))"
proof -
  have cw: "clients_wf (ws_clients w)" using assms by (simp add: ws_wf_def)
  have n: "WEB_MAX_CLIENTS = Suc (Suc 0)" by (simp add: WEB_MAX_CLIENTS_def)
  have z: "\<not> wc_used (ws_clients w ! i) \<Longrightarrow> ws_clients w ! i = zero_client" if "i < WEB_MAX_CLIENTS" for i
    using clients_wfD(2) [OF cw that] by (simp add: wc_wf_def)
  have at: "array_at (ws_clients w) 0 = Some (ws_clients w ! 0)" "array_at (ws_clients w) (Suc 0) = Some (ws_clients w ! Suc 0)"
    using clients_wfD(1) [OF cw] by (simp_all add: n)
  show ?thesis
    using z [of 0] z [of "Suc 0"]
    by (cases "wc_used (ws_clients w ! 0)"; cases "wc_used (ws_clients w ! Suc 0)")
      (simp_all add: accept_client_def n at tcp_call_def accept_calls_def)
qed

lemma wc_wf_accepted: "wc_wf (zero_client\<lparr>wc_used := True, wc_pcb := Some pcb\<rparr>)"
  by (simp add: wc_wf_def zero_client_def WEB_REQUEST_SIZE_def)

lemma poll_client_spec:
  assumes w: "ws_wf w" and i: "i < WEB_MAX_CLIENTS" and pcb: "wc_pcb (ws_clients w ! i) = Some pcb"
  shows "if wc_age_polls (ws_clients w ! i) = 4
    then \<exists>r cs. poll_client lw (Some i) w =
        Some (r, w\<lparr>ws_clients := (ws_clients w)[i := zero_client], ws_calls := ws_calls w @ close_calls pcb @ cs\<rparr>) \<and>
        (lw_ok lw \<longrightarrow> r = ERR_OK \<and> cs = [])
    else poll_client lw (Some i) w = Some (ERR_OK, w\<lparr>ws_clients :=
        (ws_clients w)[i := (ws_clients w ! i)\<lparr>wc_age_polls := wc_age_polls (ws_clients w ! i) + 1\<rparr>]\<rparr>) \<and>
      wc_wf ((ws_clients w ! i)\<lparr>wc_age_polls := wc_age_polls (ws_clients w ! i) + 1\<rparr>)"
proof -
  let ?c = "ws_clients w ! i"
  have cw: "clients_wf (ws_clients w)" using w by (simp add: ws_wf_def)
  note at = clients_wfD [OF cw i]
  have lt: "unat (wc_age_polls ?c) < 5" using at(2) by (simp add: wc_wf_def word_less_nat_alt)
  have s: "unat (wc_age_polls ?c + 1) = unat (wc_age_polls ?c) + 1" using lt by (simp add: unat_word_ariths)
  let ?w = "w\<lparr>ws_clients := (ws_clients w)[i := ?c\<lparr>wc_age_polls := wc_age_polls ?c + 1\<rparr>]\<rparr>"
  show ?thesis
  proof (cases "wc_age_polls ?c = 4")
    case True
    then have "5 \<le> wc_age_polls ?c + 1" by simp
    with close_client_spec [of i ?w pcb lw] True at pcb show ?thesis
      by (auto simp: poll_client_def)
  next
    case False
    then have "unat (wc_age_polls ?c) \<noteq> 4" by (simp add: word_unat_eq_iff)
    then have "wc_age_polls ?c + 1 < 5" "\<not> 5 \<le> wc_age_polls ?c + 1"
      using lt s by (simp_all add: word_less_nat_alt word_le_nat_alt)
    moreover have "wc_wf (?c\<lparr>wc_age_polls := wc_age_polls ?c + 1\<rparr>)"
      using at(2) pcb calculation by (auto simp: wc_wf_def)
    ultimately show ?thesis using at False by (simp add: poll_client_def Let_def)
  qed
qed

section \<open>Events\<close>

datatype web_event =
    Web_Accept nat err_t
  | Web_Receive nat "(nat \<times> (nat \<Rightarrow> char list)) option" err_t
  | Web_Poll "nat option"
  | Web_Error "nat option"
  | Web_Task bool
  | Web_Dhcp dhcp_packet

definition web_apply :: "lwip_tcp \<Rightarrow> string \<Rightarrow> string \<Rightarrow> web_event \<Rightarrow> web_server \<Rightarrow> web_server option" where
  "web_apply lw version html e w =
     (case e of
        Web_Accept pcb error \<Rightarrow> map_option snd (accept_client pcb error w)
      | Web_Receive i received error \<Rightarrow> map_option snd (receive_request lw version html i received error w)
      | Web_Poll arg \<Rightarrow> map_option snd (poll_client lw arg w)
      | Web_Error arg \<Rightarrow> client_error arg w
      | Web_Task connected \<Rightarrow> Some (web_config_task connected w)
      | Web_Dhcp p \<Rightarrow> map_option (\<lambda>(d, lines, _). w\<lparr>ws_dhcp := d, ws_log := ws_log w @ lines\<rparr>)
          (dhcp_server_process (pk_ticks p) (pk_allocated p) (pk_err p) (pk_tot_len p) (pk_copied p) (ws_dhcp w)))"

text \<open>What lwIP promises: a callback comes for a client that is connected, and \<open>pbuf_copy_partial\<close>
  delivers at most the bytes asked for.\<close>

definition lwip_delivers :: "web_server \<Rightarrow> web_event \<Rightarrow> bool" where
  "lwip_delivers w e \<longleftrightarrow>
     (case e of
        Web_Receive i received error \<Rightarrow> i < WEB_MAX_CLIENTS \<and> wc_used (ws_clients w ! i) \<and>
          (\<forall>tot_len copy. received = Some (tot_len, copy) \<longrightarrow> (\<forall>n. length (copy n) \<le> n))
      | Web_Poll (Some i) \<Rightarrow> i < WEB_MAX_CLIENTS \<and> wc_used (ws_clients w ! i)
      | Web_Error (Some i) \<Rightarrow> i < WEB_MAX_CLIENTS \<and> wc_used (ws_clients w ! i)
      | Web_Dhcp p \<Rightarrow> length (pk_copied p) \<le> 548
      | _ \<Rightarrow> True)"

definition ws_ok :: "string \<Rightarrow> web_server \<Rightarrow> bool" where
  "ws_ok html w \<longleftrightarrow> ws_wf w \<and> addresses_ok (ws_app w) \<and> ds_wf (ws_dhcp w) \<and> length html < 65536"

lemma ws_ok_clients:
  "ws_ok html w \<Longrightarrow> clients_wf cs \<Longrightarrow> ws_ok html (w\<lparr>ws_clients := cs, ws_calls := tc\<rparr>)"
  "ws_ok html w \<Longrightarrow> clients_wf cs \<Longrightarrow> ws_ok html (w\<lparr>ws_clients := cs\<rparr>)"
  "ws_ok html w \<Longrightarrow> ws_ok html (w\<lparr>ws_calls := tc\<rparr>)"
  by (simp_all add: ws_ok_def ws_wf_def)

lemma submit_keeps:
  assumes "bluetooth_control_submit rq a = (ok, a')"
  shows "device_manager a' = device_manager a" "selected_device_addr a' = selected_device_addr a"
  using assms by (auto simp: bluetooth_control_submit_def split: prod.splits)

lemma web_answer_keeps:
  assumes "web_answer version html request a = (status, content_type, body, a')"
  shows "device_manager a' = device_manager a \<and> selected_device_addr a' = selected_device_addr a"
  using assms submit_keeps by (auto simp: web_answer_def Let_def split: option.splits if_splits prod.splits)

lemma answered_ok:
  assumes "answered lw i pcb w (status, content_type, body, a) res" and "ws_ok html w"
    and "device_manager a = device_manager (ws_app w)" and "selected_device_addr a = selected_device_addr (ws_app w)"
  shows "\<exists>r w'. res = Some (r, w') \<and> ws_ok html w'"
  using assms clients_wf_update [OF _ zero_client_wf, of "ws_clients w" i]
  by (auto simp: answered_def ws_ok_def ws_wf_def addresses_ok_def)

lemma answered_web_ok:
  assumes "answered lw i pcb w (web_answer version html request (ws_app w)) res" and "ws_ok html w"
  shows "\<exists>r w'. res = Some (r, w') \<and> ws_ok html w'"
proof -
  obtain status content_type body a where a: "web_answer version html request (ws_app w) = (status, content_type, body, a)"
    by (cases "web_answer version html request (ws_app w)") auto
  from answered_ok [OF assms(1) [unfolded a] assms(2)] web_answer_keeps [OF a] show ?thesis by blast
qed

lemma web_apply_ok:
  assumes ok: "ws_ok html w" and g: "lwip_delivers w e"
  shows "\<exists>w'. web_apply lw version html e w = Some w' \<and> ws_ok html w'"
proof -
  have w: "ws_wf w" "addresses_ok (ws_app w)" "ds_wf (ws_dhcp w)" "length html < 65536" "clients_wf (ws_clients w)"
    using ok by (simp_all add: ws_ok_def ws_wf_def)
  have used: "\<exists>pcb. wc_pcb (ws_clients w ! i) = Some pcb" if "i < WEB_MAX_CLIENTS" "wc_used (ws_clients w ! i)" for i
    using clients_wfD(2) [OF w(5) that(1)] that(2) by (auto simp: wc_wf_def)
  note upd = ws_ok_clients(1,2) [OF ok clients_wf_update [OF w(5)]]
  have close: "\<exists>r w'. close_client lw i w = Some (r, w') \<and> ws_ok html w'"
    if "i < WEB_MAX_CLIENTS" "wc_used (ws_clients w ! i)" for i
    using used [OF that] clients_wfD(3) [OF w(5) that(1)] close_client_spec [of i w _ lw] upd(1) [OF zero_client_wf]
    by blast
  show ?thesis
  proof (cases e)
    case (Web_Accept pcb error)
    show ?thesis
    proof (cases "error = ERR_OK")
      case True
      with Web_Accept accept_client_spec [OF w(1), of pcb] upd(1) [OF wc_wf_accepted] ws_ok_clients(3) [OF ok] show ?thesis
        by (auto simp: web_apply_def split: option.splits)
    next
      case False
      with Web_Accept ok show ?thesis by (simp add: web_apply_def accept_client_def)
    qed
  next
    case (Web_Receive i received error)
    then have i: "i < WEB_MAX_CLIENTS" "wc_used (ws_clients w ! i)"
      and cp: "\<And>tot_len copy n. received = Some (tot_len, copy) \<Longrightarrow> length (copy n) \<le> n"
      using g by (auto simp: lwip_delivers_def)
    show ?thesis
    proof (cases "received = None \<or> error \<noteq> ERR_OK")
      case True
      then have "receive_request lw version html i received error w = close_client lw i w"
        by (auto simp: receive_request_def split: option.splits)
      with close [OF i] Web_Receive show ?thesis by (auto simp: web_apply_def)
    next
      case False
      then obtain tot_len copy where r: "received = Some (tot_len, copy)" "error = ERR_OK" by auto
      from used [OF i] obtain pcb where pcb: "wc_pcb (ws_clients w ! i) = Some pcb" ..
      let ?cp = "copy (WEB_REQUEST_SIZE - 1 - wc_request_length (ws_clients w ! i))"
      note spec = receive_request_spec [where copy = copy and copied = ?cp and tot_len = tot_len,
          OF w(1,2) i(1) pcb w(4) refl cp [OF r(1)]]
      let ?w1 = "w\<lparr>ws_calls := ws_calls w @ [Tcp_Recved pcb tot_len],
        ws_clients := (ws_clients w)[i := received_client (ws_clients w ! i) ?cp]\<rparr>"
      have w1: "ws_ok html ?w1" "ws_app ?w1 = ws_app w" using ok spec(1) by (simp_all add: ws_ok_def)
      consider "answered lw i pcb ?w1 (web_answer version html (request_text (ws_clients w ! i) ?cp) (ws_app ?w1))
          (receive_request lw version html i received error w)"
        | "answered lw i pcb ?w1 (400, json_type, error_json ''request too large'', ws_app ?w1)
          (receive_request lw version html i received error w)"
        | "receive_request lw version html i received error w = Some (ERR_OK, ?w1)"
        using spec(2) [where lw = lw and version = version] unfolding r w1(2) by (auto split: if_splits)
      then have "\<exists>x w'. receive_request lw version html i received error w = Some (x, w') \<and> ws_ok html w'"
      proof cases
        case 1
        from answered_web_ok [OF 1 w1(1)] show ?thesis .
      next
        case 2
        from answered_ok [OF 2 w1(1) refl refl] show ?thesis .
      next
        case 3
        with w1 show ?thesis by blast
      qed
      with Web_Receive show ?thesis by (auto simp: web_apply_def)
    qed
  next
    case (Web_Poll arg)
    show ?thesis
    proof (cases arg)
      case None
      with Web_Poll ok show ?thesis by (simp add: web_apply_def poll_client_def)
    next
      case (Some i)
      with Web_Poll g have i: "i < WEB_MAX_CLIENTS" "wc_used (ws_clients w ! i)" by (simp_all add: lwip_delivers_def)
      from used [OF i] obtain pcb where pcb: "wc_pcb (ws_clients w ! i) = Some pcb" ..
      from poll_client_spec [OF w(1) i(1) pcb, of lw] upd(1) [OF zero_client_wf] upd(2) Web_Poll Some show ?thesis
        by (auto simp: web_apply_def split: if_splits)
    qed
  next
    case (Web_Error arg)
    show ?thesis
    proof (cases arg)
      case None
      with Web_Error ok show ?thesis by (simp add: web_apply_def client_error_def)
    next
      case (Some i)
      with Web_Error g have "i < length (ws_clients w)" using clients_wfD(3) [OF w(5)] by (simp add: lwip_delivers_def)
      with Web_Error Some upd(2) [OF zero_client_wf] show ?thesis by (simp add: web_apply_def client_error_def)
    qed
  next
    case (Web_Task connected)
    with ok show ?thesis by (simp add: web_apply_def web_config_task_def ws_ok_def ws_wf_def Let_def)
  next
    case (Web_Dhcp p)
    with g w(3) dhcp_receive_ok [of "ws_dhcp w" p] ok show ?thesis
      by (auto simp: web_apply_def lwip_delivers_def ws_ok_def ws_wf_def dhcp_receive_def)
  qed
qed

interpretation web_events: event_system "web_apply lw version html" lwip_delivers "ws_ok html" for lw version html
  by unfold_locales (rule web_apply_ok)

section \<open>Properties\<close>

text \<open>The state before \<open>web_config_init\<close>.\<close>

definition web_boot :: "bt_app \<Rightarrow> web_server" where
  "web_boot a =
     \<lparr>ws_clients = replicate WEB_MAX_CLIENTS zero_client, ws_listening = False,
      ws_dhcp = \<lparr>ds_ip = replicate 4 0, ds_nm = replicate 4 0,
        ds_lease = replicate DHCPS_MAX_IP \<lparr>lease_mac = replicate MAC_LEN 0, lease_expiry = 0\<rparr>, ds_udp = False,
        ds_discover_count = 0, ds_request_count = 0, ds_ack_count = 0\<rparr>,
      ws_status_json = replicate CONTROL_JSON_MAX_SNAPSHOT_SIZE NUL, ws_cdc_was_connected = False,
      ws_calls = [], ws_app = a, ws_log = []\<rparr>"

lemma web_init_ok:
  assumes "dm_wf (device_manager a)" and "addresses_ok a" and "length html < 65536"
  shows "ws_ok html (snd (web_config_init udp_created created bound listening (web_boot a)))"
proof -
  have "ds_wf (dhcp_server_init udp_created [192, 168, 4, 1] [255, 255, 255, 0] d)" for d
    by (rule ds_wf_init) simp_all
  then show ?thesis
    using assms
    by (auto simp: web_config_init_def web_boot_def ws_ok_def ws_wf_def clients_wf_def Let_def)
qed

section \<open>An example\<close>

definition demo_lwip :: lwip_tcp where
  "demo_lwip = \<lparr>lw_write = \<lambda>_. True, lw_close = \<lambda>_. True\<rparr>"

text \<open>The server with one client connected.\<close>

definition demo_web :: web_server where
  "demo_web = (snd (web_config_init True True True True (web_boot bt_app_boot)))
     \<lparr>ws_clients := (replicate WEB_MAX_CLIENTS zero_client)[0 := zero_client\<lparr>wc_used := True, wc_pcb := Some 7\<rparr>]\<rparr>"

definition demo_post :: string where
  "demo_post = ''POST /api/scan HTTP/1.1'' @ CRLF @ CRLF"

lemma boot_addresses: "addresses_ok bt_app_boot" "dm_wf (device_manager bt_app_boot)"
  by (simp_all add: addresses_ok_def bt_app_boot_def) (simp add: device_manager_init_def dm_used_def)

lemma demo_lwip_ok: "lw_ok demo_lwip"
  by (simp add: lw_ok_def demo_lwip_def)

lemma demo_web_ok: "ws_ok ''<html>'' demo_web"
proof -
  have "clients_wf (replicate WEB_MAX_CLIENTS zero_client)" by (simp add: clients_wf_def)
  from ws_ok_clients(2) [OF web_init_ok [OF boot_addresses(2,1)] clients_wf_update [OF this wc_wf_accepted]] show ?thesis
    by (simp add: demo_web_def)
qed

lemma demo_web_client:
  "ws_clients demo_web ! 0 = zero_client\<lparr>wc_used := True, wc_pcb := Some 7\<rparr>" "ws_app demo_web = bt_app_boot"
  "0 < WEB_MAX_CLIENTS"
  by (simp_all add: demo_web_def web_config_init_def web_boot_def WEB_MAX_CLIENTS_def Let_def)

lemma demo_request_text: "request_text (zero_client\<lparr>wc_used := True, wc_pcb := Some 7\<rparr>) demo_post = demo_post"
  by (simp add: request_text_def zero_client_def demo_post_def c_string_def)

lemma demo_scan: "scan_request demo_post = Some (''POST'', ''/api/scan'')"
  by (simp add: scan_request_def scan_word_def demo_post_def c_isspace_def)

text \<open>
  The web server never leaves the bounds of an object: after \<open>web_config_init\<close>, whatever its
  outcome, every sequence of connections, received data, polls, errors, task calls and DHCP packets that
  lwIP delivers is handled to the end, however \<open>tcp_write\<close> and \<open>tcp_close\<close> answer, and keeps the two client
  slots well-formed - a free slot is all zero, a used one has a connection and room for the terminator.
\<close>

theorem web_server_memory_safe:
  assumes "dm_wf (device_manager a)" and "addresses_ok a" and "length html < 65536"
    and "allowed_run (web_apply lw version html) lwip_delivers es
      (snd (web_config_init udp_created created bound listening (web_boot a)))"
  shows "\<exists>w. run_events (web_apply lw version html) es
      (snd (web_config_init udp_created created bound listening (web_boot a))) = Some w \<and> ws_wf w \<and> ds_wf (ws_dhcp w)"
  using web_events.run_progress [OF web_init_ok [OF assms(1-3)] assms(4)] by (auto simp: ws_ok_def)

theorem web_server_memory_safe_witness:
  "\<exists>w. run_events (web_apply demo_lwip ''1.0'' ''<html>'')
      [Web_Accept 7 ERR_OK, Web_Task True, Web_Poll None, Web_Accept 8 (- 1)]
      (snd (web_config_init True True True True (web_boot bt_app_boot))) = Some w \<and> ws_wf w \<and> ds_wf (ws_dhcp w)"
  by (rule web_server_memory_safe [OF boot_addresses(2,1)]) (auto simp: lwip_delivers_def split: option.splits)


lemma demo_answer: "\<exists>a. web_answer ''1.0'' ''<html>'' demo_post bt_app_boot = (202, json_type, accepted_json, a)"
  by (simp add: web_answer_def demo_scan request_of_target_def bluetooth_control_submit_def bt_app_boot_def
      control_request_queue_push_def control_request_queue_init_def CONTROL_REQUEST_QUEUE_CAPACITY_def Let_def)




text \<open>The send buffer that \<open>lwipopts.h\<close> configures.\<close>

definition TCP_SND_BUF :: nat where "TCP_SND_BUF = 8 * 1460"



lemma polls_free_slot:
  assumes "ws_ok html w" and "i < WEB_MAX_CLIENTS" and "wc_pcb (ws_clients w ! i) = Some pcb"
    and "unat (wc_age_polls (ws_clients w ! i)) + k = 4"
  shows "\<exists>w'. run_events (web_apply lw version html) (replicate (Suc k) (Web_Poll (Some i))) w = Some w' \<and>
    ws_clients w' ! i = zero_client"
  using assms
proof (induction k arbitrary: w)
  case 0
  then have w: "ws_wf w" "i < length (ws_clients w)"
    using clients_wfD(3) by (auto simp: ws_ok_def ws_wf_def)
  have "wc_age_polls (ws_clients w ! i) = 4" using "0.prems"(4) by (simp add: word_unat_eq_iff)
  with poll_client_spec [OF w(1) "0.prems"(2,3), of lw] w(2) show ?case by (auto simp: web_apply_def)
next
  case (Suc k)
  let ?c = "ws_clients w ! i"
  let ?c' = "?c\<lparr>wc_age_polls := wc_age_polls ?c + 1\<rparr>" and ?w = "w\<lparr>ws_clients := (ws_clients w)[i := ?c\<lparr>wc_age_polls := wc_age_polls ?c + 1\<rparr>]\<rparr>"
  have w: "ws_wf w" "i < length (ws_clients w)" "clients_wf (ws_clients w)"
    using Suc.prems(1,2) clients_wfD(3) by (auto simp: ws_ok_def ws_wf_def)
  have "unat (wc_age_polls ?c) \<noteq> 4" "unat (wc_age_polls ?c) < 4" using Suc.prems(4) by simp_all
  then have "wc_age_polls ?c \<noteq> 4" "unat (wc_age_polls ?c + 1) = unat (wc_age_polls ?c) + 1"
    by (auto simp: unat_word_ariths)
  with poll_client_spec [OF w(1) Suc.prems(2,3), of lw] have
    p: "poll_client lw (Some i) w = Some (ERR_OK, ?w)" "wc_wf ?c'" by simp_all
  have "ws_ok html ?w" using ws_ok_clients(2) [OF Suc.prems(1) clients_wf_update [OF w(3) p(2)]] .
  from Suc.IH [OF this Suc.prems(2)] Suc.prems(3,4) w(2) \<open>unat (wc_age_polls ?c + 1) = _\<close>
  show ?case by (simp add: web_apply_def p(1))
qed

text \<open>
  C21. A client cannot hold a slot without sending a request: whatever its age, the polls of lwIP - five
  at most - free the slot, also when the connection cannot be closed in an orderly way.
\<close>

theorem web_slow_client_dropped:
  assumes "ws_ok html w" and "i < WEB_MAX_CLIENTS" and "wc_used (ws_clients w ! i)"
  shows "\<exists>n w'. n \<le> 5 \<and> run_events (web_apply lw version html) (replicate n (Web_Poll (Some i))) w = Some w' \<and>
    ws_clients w' ! i = zero_client"
proof -
  have "wc_wf (ws_clients w ! i)" using assms(1,2) clients_wfD(2) by (auto simp: ws_ok_def ws_wf_def)
  then obtain pcb where "wc_pcb (ws_clients w ! i) = Some pcb" "unat (wc_age_polls (ws_clients w ! i)) \<le> 4"
    using assms(3) by (auto simp: wc_wf_def word_less_nat_alt)
  with polls_free_slot [OF assms(1,2), of pcb "4 - unat (wc_age_polls (ws_clients w ! i))" lw version] show ?thesis
    by (intro exI [of _ "Suc (4 - unat (wc_age_polls (ws_clients w ! i)))"]) simp
qed

theorem web_slow_client_dropped_witness:
  "\<exists>n w'. n \<le> 5 \<and> run_events (web_apply demo_lwip ''1.0'' ''<html>'') (replicate n (Web_Poll (Some 0))) demo_web = Some w' \<and>
     ws_clients w' ! 0 = zero_client"
  by (rule web_slow_client_dropped [OF demo_web_ok]) (simp_all add: demo_web_client WEB_MAX_CLIENTS_def)

end
