(* ===== verification/Web_Frames.thy ===== *)
theory Web_Frames
  imports Log_Messages Address_Types Web_Config
begin

text \<open>
  What the web server leaves alone: of the Bluetooth application only the request queue changes, by one
  submission at most, and what is printed fits its format.
\<close>

section \<open>The application behind the web server\<close>

definition app_ok :: "bt_app \<Rightarrow> bool" where
  "app_ok a \<longleftrightarrow> app_wf a \<and> typed a \<and> formats_ok a"

lemma app_ok_submit:
  assumes "app_ok a" and "length (rq_address r) = 6"
  shows "app_ok (snd (bluetooth_control_submit r a))"
  using assms submit_ok [of a r] by (auto simp: app_ok_def)

lemma app_ok_apply:
  assumes "bt_apply env e a = Some a'" and "app_ok a" and "event_typed e"
  shows "app_ok a'"
  using assms bt_apply_ok [of a env e] typed_apply [OF assms(1)] formats_apply [OF assms(1)]
  by (auto simp: app_ok_def)

lemma typed_addresses: "typed a \<Longrightarrow> addresses_ok a"
  by (auto simp: typed_def addresses_ok_def devices_typed_def dm_used_def dest: in_set_takeD)

lemma ws_ok_app: "ws_ok html w \<Longrightarrow> app_ok a \<Longrightarrow> ws_ok html (w\<lparr>ws_app := a\<rparr>)"
  by (simp add: ws_ok_def ws_wf_def app_ok_def typed_addresses app_wfD(1))

section \<open>Frames\<close>

lemma close_client_frame:
  "close_client lw i w = Some (r, w') \<Longrightarrow> ws_app w' = ws_app w \<and> ws_log w' = ws_log w"
  by (auto simp: close_client_def tcp_call_def Let_def split: Option.bind_splits option.splits if_splits)

lemma tcp_write_frame:
  "tcp_write lw pcb buf n w = Some (ok, w') \<Longrightarrow> ws_app w' = ws_app w \<and> ws_log w' = ws_log w"
  by (auto simp: tcp_write_def tcp_call_def split: Option.bind_splits)

lemma send_response_frame:
  "send_response lw i st ct body n w = Some (r, w') \<Longrightarrow> ws_app w' = ws_app w \<and> ws_log w' = ws_log w"
  by (auto simp: send_response_def tcp_call_def Let_def dest!: close_client_frame tcp_write_frame
    split: Option.bind_splits if_splits)

lemma respond_json_frame:
  "respond_json lw i st json w = Some (r, w') \<Longrightarrow> ws_app w' = ws_app w \<and> ws_log w' = ws_log w"
  by (simp add: respond_json_def send_response_frame)

lemma handle_status_frame:
  "handle_status lw version i w = Some (r, w') \<Longrightarrow> ws_app w' = ws_app w \<and> ws_log w' = ws_log w"
  by (auto simp: handle_status_def Let_def dest!: respond_json_frame send_response_frame
    split: Option.bind_splits if_splits)

lemma address_rounds_length:
  "parse_address_rounds n tx acc = Some (Some (ad, rest)) \<Longrightarrow> length ad = length acc + n"
  by (induction n tx acc rule: parse_address_rounds.induct)
    (auto simp: Let_def split: if_splits Option.bind_splits)

lemma web_address_length: "Web_Config.parse_address tx = Some (Some ad) \<Longrightarrow> length ad = 6"
  by (auto simp: Web_Config.parse_address_def dest!: address_rounds_length
    split: Option.bind_splits option.splits if_splits)

lemma request_of_target_address:
  assumes "request_of_target target = Some (Some rq)"
  shows "length (rq_address rq) = 6"
  using assms
  by (auto simp: request_of_target_def zero_request_def Let_def dest: web_address_length
    split: if_splits Option.bind_splits option.splits)

text \<open>One submission at most.\<close>

definition submitted :: "bt_app \<Rightarrow> bt_app \<Rightarrow> bool" where
  "submitted a a' \<longleftrightarrow> a' = a \<or> (\<exists>rq. length (rq_address rq) = 6 \<and> a' = snd (bluetooth_control_submit rq a))"

lemma handle_request_frame:
  assumes "handle_request lw version html i w = Some (r, w')"
  shows "submitted (ws_app w) (ws_app w') \<and> ws_log w' = ws_log w"
proof -
  have "submitted (ws_app w) a" if "bluetooth_control_submit rq (ws_app w) = (ok, a)"
    "request_of_target target = Some (Some rq)" for rq ok a target
    using that request_of_target_address [OF that(2)] by (auto simp: submitted_def intro!: exI [of _ rq])
  moreover have "submitted (ws_app w) (ws_app w)" by (simp add: submitted_def)
  ultimately show ?thesis using assms
    by (auto simp: handle_request_def Let_def
      dest!: respond_json_frame send_response_frame handle_status_frame
      split: Option.bind_splits option.splits if_splits prod.splits)
qed

lemma receive_request_frame:
  assumes "receive_request lw version html i received error w = Some (r, w')"
  shows "submitted (ws_app w) (ws_app w') \<and> ws_log w' = ws_log w"
proof -
  have store: "ws_app v = ws_app w \<and> ws_log v = ws_log w" if "store_received i n copy w = Some (x, y, z, v)" for n copy x y z v
    using that by (auto simp: store_received_def tcp_call_def Let_def split: Option.bind_splits)
  have "submitted (ws_app w) (ws_app w)" by (simp add: submitted_def)
  then show ?thesis using assms
    by (auto simp: receive_request_def dest!: store respond_json_frame close_client_frame handle_request_frame
      split: Option.bind_splits option.splits if_splits)
qed

lemma accept_loop_frame:
  "accept_loop pcb i n w = Some (r, w') \<Longrightarrow> ws_app w' = ws_app w \<and> ws_log w' = ws_log w"
  by (induction n arbitrary: i) (auto simp: tcp_call_def Let_def split: Option.bind_splits if_splits)

section \<open>Messages\<close>

lemma printable_offer:
  assumes "length ip = 4"
  shows "printable_line (''[WEB] DHCP DISCOVER offer=%u.%u.%u.%u'', map (\<lambda>b. LNum (unat b)) (ip :: u8 list))"
proof -
  from assms obtain a b c d where "ip = [a, b, c, d]" by (auto simp: numeral_eq_Suc length_Suc_conv)
  then show ?thesis by simp
qed

lemma printable_ack:
  assumes "length mac = 6" and "length ip = 4"
  shows "printable_line
    (''[WEB] DHCP ACK MAC=%02x:%02x:%02x:%02x:%02x:%02x IP=%u.%u.%u.%u host='' @ [CHR 0x22] @ ''%s'' @ [CHR 0x22],
     map (\<lambda>b. LNum (unat b)) (mac @ ip :: u8 list) @ [LStr host])"
proof -
  from assms obtain a b c d e f where "mac = [a, b, c, d, e, f]" by (auto simp: numeral_eq_Suc length_Suc_conv)
  moreover from assms obtain g h i j where "ip = [g, h, i, j]" by (auto simp: numeral_eq_Suc length_Suc_conv)
  ultimately show ?thesis by simp
qed

lemma printable_discover:
  assumes "dhcp_discover ticks d m = Some (d', Some (m', opt, lines))" and "msg_wf m"
  shows "\<forall>l\<in>set lines. printable_line l"
  using assms
  by (auto simp: dhcp_discover_def msg_wf_def array_put_eq_Some Let_def simp del: printable_simp
    intro!: printable_offer split: Option.bind_splits if_splits)

lemma printable_request:
  assumes "dhcp_request now d m n = Some (d', Some (m', opt, lines))" and "msg_wf m"
  shows "\<forall>l\<in>set lines. printable_line l"
  using assms printable_ack
  by (auto simp: dhcp_request_def msg_wf_def array_put_eq_Some MAC_LEN_def Let_def simp del: printable_simp map_append
    split: Option.bind_splits option.splits if_splits)

lemma printable_answer:
  assumes "dhcp_answer ticks allocated err d m n t = Some (d', lines, sent)" and "msg_wf m"
  shows "\<forall>l\<in>set lines. printable_line l"
  using assms printable_discover [OF _ assms(2)] printable_request [OF _ assms(2)]
  by (auto simp: dhcp_answer_def simp del: printable_simp split: Option.bind_splits option.splits if_splits)

lemma printable_dhcp:
  assumes "dhcp_server_process ticks allocated err tot_len copied d = Some (d', lines, sent)" and "ds_wf d" and "length copied \<le> 548"
  shows "\<forall>l\<in>set lines. printable_line l"
proof (rule dhcp_server_process_step [OF assms(2,3), of ticks allocated err tot_len])
  fix t
  assume "dhcp_server_process ticks allocated err tot_len copied d =
    dhcp_answer ticks allocated err d (received_msg d copied) (length copied - OPTIONS_OFFSET - 4) t"
  with assms(1) printable_answer [OF _ received_msg_wf [OF assms(2,3)]] show ?thesis by simp
qed (use assms(1) in simp)

lemma web_apply_frame:
  assumes "web_apply lw version html e w = Some w'" and "ds_wf (ws_dhcp w)" and "lwip_delivers w e"
  shows "submitted (ws_app w) (ws_app w') \<and> (\<exists>lines. ws_log w' = ws_log w @ lines \<and> (\<forall>l\<in>set lines. printable_line l))"
proof -
  have self: "submitted (ws_app w) (ws_app w)" by (simp add: submitted_def)
  show ?thesis
  proof (cases e)
    case (Web_Task connected)
    with assms(1) self show ?thesis
      by (auto simp: web_apply_def web_config_task_def WEB_AP_SSID_def Let_def split: if_splits)
  next
    case (Web_Dhcp p)
    with assms self printable_dhcp show ?thesis
      by (auto simp: web_apply_def lwip_delivers_def simp del: printable_simp)
  qed (use assms self in \<open>auto simp: web_apply_def poll_client_def client_error_def accept_client_def Let_def
      dest!: accept_loop_frame receive_request_frame close_client_frame split: option.splits Option.bind_splits if_splits\<close>)
qed

end
