(* ===== verification/Usb_Serial.thy ===== *)
theory Usb_Serial
  imports Printf "HOL-Library.Sublist"
begin

text \<open>
  \<open>src/usb/usb_serial.c\<close>: the log of the USB serial port, a ring of 8192 bytes that every component
  prints into and the main loop drains. TinyUSB is a parameter: \<open>connected\<close> is the answer of
  \<open>tud_cdc_connected\<close>, and a \<open>tinyusb_cdc\<close> gives, for each call in turn, the answers of
  \<open>tud_cdc_write_available\<close> and \<open>tud_cdc_write\<close>. The sixteen-bit counters are numbers below 65536.
\<close>

section \<open>Data and operations\<close>

definition USB_SERIAL_LOG_BUFFER_SIZE :: nat where
  "USB_SERIAL_LOG_BUFFER_SIZE = 8192"

record usb_log =
  log_buffer :: "u8 list"
  log_head :: nat
  log_count :: nat
  log_overflowed :: bool

definition usb_log_boot :: usb_log where
  "usb_log_boot =
     \<lparr>log_buffer = replicate USB_SERIAL_LOG_BUFFER_SIZE 0, log_head = 0, log_count = 0, log_overflowed = False\<rparr>"

record tinyusb_cdc =
  cdc_available :: "nat \<Rightarrow> nat"
  cdc_write :: "nat \<Rightarrow> u8 list \<Rightarrow> nat"

definition byte_of_char :: "char \<Rightarrow> u8" where
  "byte_of_char c = of_nat (of_char c)"

text \<open>The loop that copies \<open>n\<close> characters of the message from position \<open>i\<close> on.\<close>

fun log_append :: "char list \<Rightarrow> nat \<Rightarrow> nat \<Rightarrow> usb_log \<Rightarrow> usb_log option" where
  "log_append message i 0 u = Some u"
| "log_append message i (Suc n) u = do {
     let tl_ix = to_u16 ((log_head u + log_count u) mod USB_SERIAL_LOG_BUFFER_SIZE);
     c \<leftarrow> array_at message i;
     buf \<leftarrow> array_put (log_buffer u) tl_ix (byte_of_char c);
     log_append message (i + 1) n (u\<lparr>log_buffer := buf, log_count := to_u16 (log_count u + 1)\<rparr>)
   }"

definition usb_serial_printf :: "bool \<Rightarrow> string \<Rightarrow> log_arg list \<Rightarrow> usb_log \<Rightarrow> usb_log option" where
  "usb_serial_printf connected format args u =
     (if \<not> connected then Some u
      else do {
        tx \<leftarrow> format_text format args;
        message \<leftarrow> vsnprintf_at (replicate 128 NUL) 0 128 tx;
        if length tx = 0 then Some u
        else
          let n = (if length tx \<ge> 128 then 128 - 1 else length tx)
          in if to_u16 n > USB_SERIAL_LOG_BUFFER_SIZE - log_count u
             then Some (u\<lparr>log_overflowed := True\<rparr>)
             else log_append message 0 n u
      })"

text \<open>The bytes that can be handed over at once.\<close>

definition log_contiguous :: "nat \<Rightarrow> usb_log \<Rightarrow> nat" where
  "log_contiguous available u =
     (let contiguous = USB_SERIAL_LOG_BUFFER_SIZE - log_head u;
          contiguous = (if contiguous > log_count u then log_count u else contiguous)
      in if contiguous > available then available else contiguous)"

text \<open>The loop of \<open>usb_serial_task\<close> from its \<open>k\<close>-th round on, with the bytes handed to TinyUSB so far.\<close>

partial_function (option) serial_drain ::
    "tinyusb_cdc \<Rightarrow> nat \<Rightarrow> usb_log \<Rightarrow> u8 list \<Rightarrow> (usb_log \<times> u8 list) option" where
  "serial_drain cdc k u out =
     (if log_count u \<noteq> 0 \<and> cdc_available cdc (2 * k) \<noteq> 0 then
        (case slice_at (log_buffer u) (log_head u) (log_contiguous (cdc_available cdc (2 * k + 1)) u) of
           None \<Rightarrow> None
         | Some bytes \<Rightarrow>
             (let written = cdc_write cdc k bytes
              in if written = 0 then Some (u, out)
                 else serial_drain cdc (k + 1)
                   (u\<lparr>log_head := to_u16 ((log_head u + written) mod USB_SERIAL_LOG_BUFFER_SIZE),
                      log_count := to_u16 (log_count u + 65536 - to_u16 written)\<rparr>)
                   (out @ take written bytes)))
      else Some (u, out))"

definition overflow_notice :: string where
  "overflow_notice = ''[USB] CDC log queue overflow; messages dropped'' @ [CHR 0x0d, CHR 0x0a]"

definition usb_serial_task :: "bool \<Rightarrow> tinyusb_cdc \<Rightarrow> usb_log \<Rightarrow> (usb_log \<times> u8 list) option" where
  "usb_serial_task connected cdc u =
     (if \<not> connected then Some (u, [])
      else do {
        (u, out) \<leftarrow> serial_drain cdc 0 u [];
        if log_overflowed u \<and> log_count u < USB_SERIAL_LOG_BUFFER_SIZE - 48 then do {
          u \<leftarrow> usb_serial_printf connected overflow_notice [] (u\<lparr>log_overflowed := False\<rparr>);
          Some (u, out)
        }
        else Some (u, out)
      })"

text \<open>The number of bytes read and the bytes; \<open>received\<close> is what \<open>tud_cdc_read\<close> puts into the buffer.\<close>

definition usb_serial_read :: "bool \<Rightarrow> nat \<Rightarrow> (nat \<Rightarrow> u8 list) \<Rightarrow> nat \<times> u8 list" where
  "usb_serial_read connected sz received =
     (if \<not> connected \<or> sz = 0 then (0, []) else (length (received sz), received sz))"

lemma ring_contents_pop_many:
  assumes "k \<le> n" and "h + k \<le> length slots"
  shows "ring_contents slots h n =
    take k (drop h slots) @ ring_contents slots ((h + k) mod length slots) (n - k)"
proof (rule nth_equalityI)
  fix i
  assume "i < length (ring_contents slots h n)"
  with assms show "ring_contents slots h n ! i =
      (take k (drop h slots) @ ring_contents slots ((h + k) mod length slots) (n - k)) ! i"
    by (auto simp: ring_contents_def nth_append mod_simps)
qed (use assms in simp)

section \<open>The log as a queue of bytes\<close>

definition sl_wf :: "usb_log \<Rightarrow> bool" where
  "sl_wf u \<longleftrightarrow> length (log_buffer u) = USB_SERIAL_LOG_BUFFER_SIZE \<and>
     log_head u < USB_SERIAL_LOG_BUFFER_SIZE \<and> log_count u \<le> USB_SERIAL_LOG_BUFFER_SIZE"

definition log_contents :: "usb_log \<Rightarrow> u8 list" where
  "log_contents u = ring_contents (log_buffer u) (log_head u) (log_count u)"

lemma length_log_contents [simp]: "length (log_contents u) = log_count u"
  by (simp add: log_contents_def)

lemma log_append_spec:
  assumes "sl_wf u" and "log_count u + n \<le> USB_SERIAL_LOG_BUFFER_SIZE" and "i + n \<le> length message"
  shows "\<exists>u'. log_append message i n u = Some u' \<and> sl_wf u' \<and> log_overflowed u' = log_overflowed u \<and>
    log_contents u' = log_contents u @ map byte_of_char (take n (drop i message))"
  using assms
proof (induction n arbitrary: i u)
  case (Suc n)
  let ?S = USB_SERIAL_LOG_BUFFER_SIZE
  let ?t = "(log_head u + log_count u) mod ?S"
  let ?u = "u\<lparr>log_buffer := (log_buffer u)[?t := byte_of_char (message ! i)], log_count := Suc (log_count u)\<rparr>"
  have S: "?S = 8192" by (simp add: USB_SERIAL_LOG_BUFFER_SIZE_def)
  then have t: "?t < ?S" by simp
  have lt: "to_u16 ?t = ?t" "to_u16 (log_count u + 1) = log_count u + 1"
    using t Suc.prems(2) unfolding S by (simp_all del: mod_less_divisor)
  have step: "log_append message i (Suc n) u = log_append message (i + 1) n ?u"
    using Suc.prems t lt by (simp add: sl_wf_def)
  have wf: "sl_wf ?u" using Suc.prems by (simp add: sl_wf_def)
  have c: "log_contents ?u = log_contents u @ [byte_of_char (message ! i)]"
    using Suc.prems ring_contents_push [of "log_count u" "log_buffer u" "log_head u"]
    by (simp add: log_contents_def sl_wf_def)
  have tk: "take (Suc n) (drop i message) = message ! i # take n (drop (i + 1) message)"
    using Suc.prems(3) by (simp add: Cons_nth_drop_Suc [symmetric])
  from Suc.IH [OF wf, of "i + 1"] Suc.prems(2,3) show ?case
    unfolding step tk by (auto simp: c)
qed simp

text \<open>What a message becomes: at most 127 of its bytes.\<close>

definition log_message :: "string \<Rightarrow> u8 list" where
  "log_message tx = map byte_of_char (take 127 tx)"

lemma vsnprintf_at_0:
  assumes "0 < n" and "n \<le> length buf"
  shows "\<exists>buf'. vsnprintf_at buf 0 n tx = Some buf' \<and> length buf' = length buf \<and>
    take (min (n - 1) (length tx)) buf' = take (n - 1) tx"
  using assms by (auto simp: vsnprintf_at_def bytes_put_def min_def)

lemma usb_serial_printf_spec:
  assumes u: "sl_wf u" and f: "format_text format args = Some tx"
  shows "\<exists>u'. usb_serial_printf True format args u = Some u' \<and> sl_wf u' \<and>
    (if length (log_message tx) \<le> USB_SERIAL_LOG_BUFFER_SIZE - log_count u
     then log_contents u' = log_contents u @ log_message tx \<and> log_overflowed u' = log_overflowed u
     else u' = u\<lparr>log_overflowed := True\<rparr>)"
proof -
  let ?S = USB_SERIAL_LOG_BUFFER_SIZE and ?n = "if length tx \<ge> 128 then 128 - 1 else length tx"
  from vsnprintf_at_0 [of 128 "replicate 128 NUL" tx] obtain m where
    m: "vsnprintf_at (replicate 128 NUL) 0 128 tx = Some m" "length m = 128" "take (min 127 (length tx)) m = take 127 tx"
    by auto
  have n: "to_u16 ?n = ?n" "length (log_message tx) = ?n" by (auto simp: log_message_def)
  have tk: "take ?n m = take 127 tx" using m(3) by (auto simp: min_def split: if_splits)
  show ?thesis
  proof (cases "tx = []")
    case True
    with u f m show ?thesis by (simp add: usb_serial_printf_def log_message_def)
  next
    case ne: False
    show ?thesis
    proof (cases "?n > ?S - log_count u")
      case True
      with u f m(1) n ne show ?thesis by (auto simp: usb_serial_printf_def sl_wf_def Let_def)
    next
      case False
      with u have "log_count u + ?n \<le> ?S" by (auto simp: sl_wf_def)
      moreover have "0 + ?n \<le> length m" using m(2) by simp
      ultimately obtain u' where
        "log_append m 0 ?n u = Some u'" "sl_wf u'" "log_overflowed u' = log_overflowed u"
        "log_contents u' = log_contents u @ log_message tx"
        using log_append_spec [OF u, of ?n 0 m] tk unfolding log_message_def drop_0 by metis
      with f m(1) n ne False show ?thesis by (auto simp: usb_serial_printf_def Let_def)
    qed
  qed
qed

section \<open>Draining\<close>

text \<open>The contract of TinyUSB's CDC interface: a write takes at most the bytes it is given.\<close>

definition cdc_contract :: "tinyusb_cdc \<Rightarrow> bool" where
  "cdc_contract cdc \<longleftrightarrow> (\<forall>k bytes. cdc_write cdc k bytes \<le> length bytes)"

lemma serial_drain_spec:
  assumes "cdc_contract cdc" and "sl_wf u"
  shows "\<exists>u' sent. serial_drain cdc k u out = Some (u', out @ sent) \<and> sl_wf u' \<and>
    sent @ log_contents u' = log_contents u \<and> log_overflowed u' = log_overflowed u"
  using assms(2)
proof (induction "log_count u" arbitrary: u k out rule: less_induct)
  case less
  let ?S = USB_SERIAL_LOG_BUFFER_SIZE
  define c where "c = min (min (?S - log_head u) (log_count u)) (cdc_available cdc (2 * k + 1))"
  define bytes where "bytes = take c (drop (log_head u) (log_buffer u))"
  define w where "w = cdc_write cdc k bytes"
  let ?u = "u\<lparr>log_head := (log_head u + w) mod ?S, log_count := log_count u - w\<rparr>"
  have S: "?S = 8192" by (simp add: USB_SERIAL_LOG_BUFFER_SIZE_def)
  have b: "length bytes = c" "log_head u + c \<le> ?S" "c \<le> log_count u"
    using less.prems by (auto simp: bytes_def c_def sl_wf_def)
  have w: "w \<le> c" using assms(1) b(1) by (auto simp: w_def cdc_contract_def)
  have lt: "to_u16 ((log_head u + w) mod ?S) = (log_head u + w) mod ?S"
    "to_u16 (log_count u + 65536 - to_u16 w) = log_count u - w"
  proof -
    show "to_u16 ((log_head u + w) mod ?S) = (log_head u + w) mod ?S" by (simp add: S to_u16_def)
    have "to_u16 w = w" "log_count u - w < 65536" using w b less.prems by (auto simp: S sl_wf_def)
    moreover have "log_count u + 65536 - w = log_count u - w + 65536" using w b by simp
    ultimately show "to_u16 (log_count u + 65536 - to_u16 w) = log_count u - w" by (simp only: to_u16_def mod_add_self2 mod_less)
  qed
  have eq: "serial_drain cdc k u out =
      (if log_count u \<noteq> 0 \<and> cdc_available cdc (2 * k) \<noteq> 0
       then if w = 0 then Some (u, out) else serial_drain cdc (k + 1) ?u (out @ take w bytes)
       else Some (u, out))"
  proof -
    have "log_contiguous (cdc_available cdc (2 * k + 1)) u = c"
      by (auto simp: c_def log_contiguous_def Let_def)
    moreover have "slice_at (log_buffer u) (log_head u) c = Some bytes"
      using b less.prems by (simp add: bytes_def sl_wf_def)
    ultimately show ?thesis
      by (subst serial_drain.simps) (simp add: Let_def lt flip: w_def)
  qed
  show ?case
  proof (cases "log_count u \<noteq> 0 \<and> cdc_available cdc (2 * k) \<noteq> 0 \<and> w \<noteq> 0")
    case False
    then have "serial_drain cdc k u out = Some (u, out)" by (auto simp: eq)
    with less.prems show ?thesis by (intro exI [of _ u] exI [of _ "[]"]) simp
  next
    case True
    have wf: "sl_wf ?u" using less.prems w b by (auto simp: sl_wf_def S)
    have "take w bytes @ log_contents ?u = log_contents u"
      using ring_contents_pop_many [of w "log_count u" "log_head u" "log_buffer u"] w b less.prems
      by (simp add: log_contents_def bytes_def sl_wf_def min_def)
    moreover from less.hyps [of ?u, OF _ wf, of "k + 1" "out @ take w bytes"] True w b obtain u' sent where
      "serial_drain cdc (k + 1) ?u (out @ take w bytes) = Some (u', (out @ take w bytes) @ sent)"
      "sl_wf u'" "sent @ log_contents u' = log_contents ?u" "log_overflowed u' = log_overflowed u" by auto
    ultimately show ?thesis using True by (intro exI [of _ u'] exI [of _ "take w bytes @ sent"]) (simp add: eq)
  qed
qed

section \<open>The log over time\<close>

datatype serial_op = Serial_Print bool string "log_arg list" | Serial_Task bool tinyusb_cdc

text \<open>The ring after the operations and the bytes handed to TinyUSB.\<close>

fun serial_run :: "serial_op list \<Rightarrow> usb_log \<Rightarrow> (usb_log \<times> u8 list) option" where
  "serial_run [] u = Some (u, [])"
| "serial_run (Serial_Print connected format args # ops) u = do {
     u \<leftarrow> usb_serial_printf connected format args u;
     serial_run ops u
   }"
| "serial_run (Serial_Task connected cdc # ops) u = do {
     (u, sent) \<leftarrow> usb_serial_task connected cdc u;
     (u, rest) \<leftarrow> serial_run ops u;
     Some (u, sent @ rest)
   }"

text \<open>The messages that are offered to the ring: one per print, and the notice of the task.\<close>

fun serial_messages :: "serial_op list \<Rightarrow> u8 list list" where
  "serial_messages [] = []"
| "serial_messages (Serial_Print connected format args # ops) =
     (case format_text format args of None \<Rightarrow> [] | Some tx \<Rightarrow> [log_message tx]) @ serial_messages ops"
| "serial_messages (Serial_Task connected cdc # ops) = log_message overflow_notice # serial_messages ops"

fun serial_op_ok :: "serial_op \<Rightarrow> bool" where
  "serial_op_ok (Serial_Print connected format args) \<longleftrightarrow> format_text format args \<noteq> None"
| "serial_op_ok (Serial_Task connected cdc) \<longleftrightarrow> cdc_contract cdc"

lemma notice_format: "format_text overflow_notice [] = Some overflow_notice"
  by (simp add: overflow_notice_def)

lemma notice_length: "length overflow_notice = 48"
  by (simp add: overflow_notice_def)

lemma usb_serial_task_spec:
  assumes u: "sl_wf u" and c: "cdc_contract cdc"
  shows "\<exists>u' sent notice. usb_serial_task True cdc u = Some (u', sent) \<and> sl_wf u' \<and>
    sent @ log_contents u' = log_contents u @ notice \<and>
    (if notice = [] then log_overflowed u' = log_overflowed u \<and> (log_overflowed u \<longrightarrow> USB_SERIAL_LOG_BUFFER_SIZE - 48 \<le> log_count u')
     else notice = log_message overflow_notice \<and> log_overflowed u \<and> \<not> log_overflowed u')"
proof -
  from serial_drain_spec [OF c u, of 0 "[]"] obtain v sent where
    v: "serial_drain cdc 0 u [] = Some (v, sent)" "sl_wf v" "sent @ log_contents v = log_contents u"
      "log_overflowed v = log_overflowed u" by auto
  show ?thesis
  proof (cases "log_overflowed v \<and> log_count v < USB_SERIAL_LOG_BUFFER_SIZE - 48")
    case False
    with v show ?thesis
      by (intro exI [of _ v] exI [of _ sent] exI [of _ "[]"]) (auto simp: usb_serial_task_def)
  next
    case True
    let ?v = "v\<lparr>log_overflowed := False\<rparr>"
    have "sl_wf ?v" using v(2) by (simp add: sl_wf_def)
    moreover have "length (log_message overflow_notice) \<le> USB_SERIAL_LOG_BUFFER_SIZE - log_count ?v"
      using True by (auto simp: log_message_def notice_length USB_SERIAL_LOG_BUFFER_SIZE_def)
    ultimately obtain u' where
      "usb_serial_printf True overflow_notice [] ?v = Some u'" "sl_wf u'"
      "log_contents u' = log_contents v @ log_message overflow_notice" "\<not> log_overflowed u'"
      using usb_serial_printf_spec [OF _ notice_format, of ?v] by (auto simp: log_contents_def)
    moreover have "log_message overflow_notice \<noteq> []"
      using notice_length by (auto simp: log_message_def)
    ultimately show ?thesis
      using v(1,2,4) True append_assoc [of sent "log_contents v" "log_message overflow_notice", unfolded v(3)]
      by (intro exI [of _ u'] exI [of _ sent] exI [of _ "log_message overflow_notice"])
        (simp add: usb_serial_task_def)
  qed
qed

text \<open>
  The serial log is a stream of whole messages: every run of prints and drains returns, and what
  was handed to TinyUSB, followed by what is still waiting, is what was waiting before followed by a
  subsequence of the messages printed - each cut to at most 127 bytes, but entire and in order.
\<close>

lemma serial_run_stream:
  assumes "sl_wf u" and "\<forall>op\<in>set ops. serial_op_ok op"
  shows "\<exists>u' sent ms. serial_run ops u = Some (u', sent) \<and> sl_wf u' \<and>
    sent @ log_contents u' = log_contents u @ concat ms \<and> subseq ms (serial_messages ops)"
  using assms
proof (induction ops arbitrary: u rule: serial_messages.induct)
  case 1
  then show ?case by (intro exI [of _ u] exI [of _ "[]"]) simp
next
  case (2 connected format args ops)
  from 2(3) obtain tx where f: "format_text format args = Some tx" by auto
  show ?case
  proof (cases connected)
    case False
    with 2 f show ?thesis by (simp add: usb_serial_printf_def) (blast intro: list_emb_Cons)
  next
    case True
    define ms0 where "ms0 = (if length (log_message tx) \<le> USB_SERIAL_LOG_BUFFER_SIZE - log_count u then [log_message tx] else [])"
    from usb_serial_printf_spec [OF 2(2) f] obtain v where
      v: "usb_serial_printf True format args u = Some v" "sl_wf v" "log_contents v = log_contents u @ concat ms0"
      by (auto split: if_splits simp: log_contents_def ms0_def)
    have sub: "subseq ms0 [log_message tx]" by (simp add: ms0_def)
    from 2(1) [OF v(2)] 2(3) obtain u' sent ms where
      "serial_run ops v = Some (u', sent)" "sl_wf u'" "sent @ log_contents u' = log_contents v @ concat ms"
      "subseq ms (serial_messages ops)" by auto
    with v f True list_emb_append_mono [OF sub, of ms "serial_messages ops"] show ?thesis
      by (intro exI [of _ u'] exI [of _ sent] exI [of _ "ms0 @ ms"]) simp
  qed
next
  case (3 connected cdc ops)
  show ?case
  proof (cases connected)
    case False
    with 3 show ?thesis by (simp add: usb_serial_task_def) (blast intro: list_emb_Cons)
  next
    case True
    from 3(3) have "cdc_contract cdc" by simp
    from usb_serial_task_spec [OF 3(2) this] obtain v s0 notice where
      v: "usb_serial_task True cdc u = Some (v, s0)" "sl_wf v" "s0 @ log_contents v = log_contents u @ notice"
        "notice = [] \<or> notice = log_message overflow_notice" by (auto split: if_splits)
    from 3(1) [OF v(2)] 3(3) obtain u' sent ms where
      r: "serial_run ops v = Some (u', sent)" "sl_wf u'" "sent @ log_contents u' = log_contents v @ concat ms"
      "subseq ms (serial_messages ops)" by auto
    define ms0 where "ms0 = (if notice = [] then [] else [log_message overflow_notice])"
    have m: "concat ms0 = notice" "subseq ms0 [log_message overflow_notice]" using v(4) by (auto simp: ms0_def)
    have "(s0 @ sent) @ log_contents u' = log_contents u @ concat (ms0 @ ms)"
      using v(3) r(3) m(1) by (metis append_assoc concat_append)
    moreover have "subseq (ms0 @ ms) (serial_messages (Serial_Task connected cdc # ops))"
      using list_emb_append_mono [OF m(2) r(4)] by simp
    ultimately show ?thesis
      using v r True by (intro exI [of _ u'] exI [of _ "s0 @ sent"] exI [of _ "ms0 @ ms"]) simp
  qed
qed

text \<open>
  Nothing is lost silently: a message that does not fit is dropped whole and leaves its mark, and
  the first drain that leaves room for it puts the notice into the log, complete, and removes the mark.
\<close>

theorem serial_overflow_reported:
  assumes "sl_wf u" and "format_text format args = Some tx"
    and "length (log_message tx) > USB_SERIAL_LOG_BUFFER_SIZE - log_count u" and "cdc_contract cdc"
  shows "usb_serial_printf True format args u = Some (u\<lparr>log_overflowed := True\<rparr>) \<and>
    (\<exists>u' sent. usb_serial_task True cdc (u\<lparr>log_overflowed := True\<rparr>) = Some (u', sent) \<and>
      (if log_overflowed u' then sent @ log_contents u' = log_contents u \<and> USB_SERIAL_LOG_BUFFER_SIZE - 48 \<le> log_count u'
       else sent @ log_contents u' = log_contents u @ map byte_of_char overflow_notice))"
proof -
  have c: "log_contents (u\<lparr>log_overflowed := True\<rparr>) = log_contents u" by (simp add: log_contents_def)
  have w: "sl_wf (u\<lparr>log_overflowed := True\<rparr>)" using assms(1) by (simp add: sl_wf_def)
  from usb_serial_task_spec [OF w assms(4)] obtain u' sent notice where
    "usb_serial_task True cdc (u\<lparr>log_overflowed := True\<rparr>) = Some (u', sent)"
    "sent @ log_contents u' = log_contents u @ notice"
    "if notice = [] then log_overflowed u' \<and> USB_SERIAL_LOG_BUFFER_SIZE - 48 \<le> log_count u'
     else notice = log_message overflow_notice \<and> \<not> log_overflowed u'" by (auto simp: c)
  moreover have "log_message overflow_notice = map byte_of_char overflow_notice"
    using notice_length by (simp add: log_message_def)
  ultimately show ?thesis
    using usb_serial_printf_spec [OF assms(1,2)] assms(3) by (auto split: if_splits)
qed

theorem serial_overflow_reported_witness:
  "usb_serial_printf True ''%s'' [LStr ''full''] (usb_log_boot\<lparr>log_count := 8190\<rparr>) =
     Some (usb_log_boot\<lparr>log_count := 8190, log_overflowed := True\<rparr>)"
proof -
  have "sl_wf (usb_log_boot\<lparr>log_count := 8190\<rparr>)"
    by (simp add: sl_wf_def usb_log_boot_def USB_SERIAL_LOG_BUFFER_SIZE_def)
  from serial_overflow_reported [OF this, of "''%s''" "[LStr ''full'']" "''full''"
      "\<lparr>cdc_available = \<lambda>_. 64, cdc_write = \<lambda>_ bs. length bs\<rparr>"]
  show ?thesis by (simp add: log_message_def USB_SERIAL_LOG_BUFFER_SIZE_def cdc_contract_def)
qed

end
