(* ===== verification/Firmware.thy ===== *)
theory Firmware
  imports Web_Frames Usb_Serial
begin

text \<open>
  \<open>src/main.c\<close> and the rest of \<open>src/usb/hid_keyboard.c\<close>: the firmware as a whole. Its state is the web
  server - with the Bluetooth application behind it and the USB keyboard behind that - and the serial
  log that all of them print into. The main loop is cooperative: the callbacks of TinyUSB, BTstack and
  lwIP run to completion inside its polls. \<open>connected\<close> is the answer of \<open>tud_cdc_connected\<close> during a
  step. What a component printed in a step is the new part of its list of messages; the serial log
  takes it in that order.
\<close>

section \<open>State\<close>

text \<open>
  \<open>fw_ops\<close> is the trace of prints and drains, \<open>fw_sent\<close> the bytes handed to the serial port and
  \<open>fw_reports\<close> the reports the host took.
\<close>

record firmware =
  fw_web :: web_server
  fw_serial :: usb_log
  fw_ops :: "serial_op list"
  fw_sent :: "u8 list"
  fw_reports :: "keyboard_report list"

abbreviation fw_app :: "firmware \<Rightarrow> bt_app" where
  "fw_app fw \<equiv> ws_app (fw_web fw)"

definition firmware_boot :: firmware where
  "firmware_boot = \<lparr>fw_web = web_boot bt_app_boot, fw_serial = usb_log_boot, fw_ops = [], fw_sent = [], fw_reports = []\<rparr>"

definition set_app :: "bt_app \<Rightarrow> firmware \<Rightarrow> firmware" where
  "set_app a fw = fw\<lparr>fw_web := (fw_web fw)\<lparr>ws_app := a\<rparr>\<rparr>"

section \<open>Printing\<close>

fun print_lines :: "bool \<Rightarrow> log_line list \<Rightarrow> usb_log \<Rightarrow> usb_log option" where
  "print_lines connected [] u = Some u"
| "print_lines connected ((fmt, args) # lines) u = do {
     u \<leftarrow> Usb_Serial.usb_serial_printf connected (fmt @ line_end) args u;
     print_lines connected lines u
   }"

definition print_op :: "bool \<Rightarrow> log_line \<Rightarrow> serial_op" where
  "print_op connected l = Serial_Print connected (fst l @ line_end) (snd l)"

definition fw_print :: "bool \<Rightarrow> log_line list \<Rightarrow> firmware \<Rightarrow> firmware option" where
  "fw_print connected lines fw = do {
     u \<leftarrow> print_lines connected lines (fw_serial fw);
     Some (fw\<lparr>fw_serial := u, fw_ops := fw_ops fw @ map (print_op connected) lines\<rparr>)
   }"

section \<open>Steps\<close>

definition fw_bluetooth :: "btstack \<Rightarrow> bool \<Rightarrow> bt_event \<Rightarrow> firmware \<Rightarrow> firmware option" where
  "fw_bluetooth env connected e fw = do {
     a \<leftarrow> bt_apply env e (fw_app fw);
     fw_print connected (drop (length (app_log (fw_app fw))) (app_log a)) (set_app a fw)
   }"

definition fw_http ::
    "lwip_tcp \<Rightarrow> string \<Rightarrow> string \<Rightarrow> bool \<Rightarrow> web_event \<Rightarrow> firmware \<Rightarrow> firmware option" where
  "fw_http lw version html connected e fw = do {
     w \<leftarrow> web_apply lw version html e (fw_web fw);
     fw_print connected (drop (length (ws_log (fw_web fw))) (ws_log w)) (fw\<lparr>fw_web := w\<rparr>)
   }"

text \<open>\<open>tud_hid_set_report_cb\<close>: an output report of the host.\<close>

definition fw_set_report :: "bool \<Rightarrow> bool \<Rightarrow> u8 list option \<Rightarrow> nat \<Rightarrow> firmware \<Rightarrow> firmware option" where
  "fw_set_report connected output_report buffer bufsize fw = do {
     (leds, lines) \<leftarrow> tud_hid_set_report_cb output_report buffer bufsize;
     fw \<leftarrow> fw_print connected lines fw;
     Some (case leds of
             None \<Rightarrow> fw
           | Some b \<Rightarrow> set_app (bluetooth_set_keyboard_leds b (fw_app fw)) fw)
   }"

text \<open>\<open>hid_keyboard_task\<close> without the demo; \<open>tud_task\<close> is the callbacks that come before.\<close>

definition hid_keyboard_task ::
    "bool \<Rightarrow> tinyusb_cdc \<Rightarrow> bool \<Rightarrow> (keyboard_report \<Rightarrow> bool) \<Rightarrow> firmware \<Rightarrow> firmware option" where
  "hid_keyboard_task connected cdc ready accepts fw = do {
     (u, sent) \<leftarrow> usb_serial_task connected cdc (fw_serial fw);
     let fw = fw\<lparr>fw_serial := u, fw_ops := fw_ops fw @ [Serial_Task connected cdc], fw_sent := fw_sent fw @ sent\<rparr>;
     let (report, k, lines) = hid_keyboard_task_send ready accepts (keyboard (fw_app fw));
     let fw = fw\<lparr>fw_reports := fw_reports fw @ (case report of None \<Rightarrow> [] | Some r \<Rightarrow> [r])\<rparr>;
     fw_print connected lines (set_app ((fw_app fw)\<lparr>keyboard := k\<rparr>) fw)
   }"

datatype fw_event =
    Fw_Bluetooth bt_event
  | Fw_Http web_event
  | Fw_Set_Report bool "u8 list option" nat
  | Fw_Keyboard tinyusb_cdc bool "keyboard_report \<Rightarrow> bool"

text \<open>The libraries and constants the firmware is built with.\<close>

record fw_env =
  fe_btstack :: btstack
  fe_lwip :: lwip_tcp
  fe_version :: string
  fe_html :: string

definition fw_step :: "fw_env \<Rightarrow> bool \<times> fw_event \<Rightarrow> firmware \<Rightarrow> firmware option" where
  "fw_step env ce fw =
     (case ce of (connected, e) \<Rightarrow>
        (case e of
           Fw_Bluetooth e \<Rightarrow> fw_bluetooth (fe_btstack env) connected e fw
         | Fw_Http e \<Rightarrow> fw_http (fe_lwip env) (fe_version env) (fe_html env) connected e fw
         | Fw_Set_Report output_report buffer bufsize \<Rightarrow> fw_set_report connected output_report buffer bufsize fw
         | Fw_Keyboard cdc ready accepts \<Rightarrow> hid_keyboard_task connected cdc ready accepts fw))"

section \<open>Start and main loop\<close>

text \<open>\<open>main\<close> before its loop: \<open>Inl\<close> is its return value when TinyUSB does not start.\<close>

record boot_answers =
  ba_usb :: bool
  ba_udp :: bool
  ba_tcp :: bool
  ba_bound :: bool
  ba_listening :: bool

definition main_init :: "fw_env \<Rightarrow> boot_answers \<Rightarrow> bool \<Rightarrow> (int + firmware) option" where
  "main_init env ba connected =
     (if \<not> ba_usb ba then Some (Inl 1)
      else do {
        let a = bluetooth_init (fe_btstack env) bt_app_boot;
        fw \<leftarrow> fw_print connected (app_log a) (set_app a firmware_boot);
        let (_, w) = web_config_init (ba_udp ba) (ba_tcp ba) (ba_bound ba) (ba_listening ba) (fw_web fw);
        fw \<leftarrow> fw_print connected (ws_log w) (fw\<lparr>fw_web := w\<rparr>);
        Some (Inr fw)
      })"

text \<open>
  One round of the loop of \<open>main\<close>: \<open>hid_keyboard_task\<close>, whose \<open>tud_task\<close> delivers output reports,
  \<open>bluetooth_task\<close>, whose poll delivers the events of BTstack and lwIP, and \<open>web_config_task\<close>. The
  loop is run for a number of rounds.
\<close>

record loop_inputs =
  li_connected :: bool
  li_reports :: "(bool \<times> bool \<times> u8 list option \<times> nat) list"
  li_cdc :: tinyusb_cdc
  li_ready :: bool
  li_accepts :: "keyboard_report \<Rightarrow> bool"
  li_polled :: "(bt_event + web_event) list"
  li_input :: "u8 list"

definition main_loop_events :: "fw_env \<Rightarrow> loop_inputs \<Rightarrow> (bool \<times> fw_event) list" where
  "main_loop_events env li =
     map (\<lambda>(connected, output_report, buffer, n). (connected, Fw_Set_Report output_report buffer n)) (li_reports li) @
     map (Pair (li_connected li))
       ([Fw_Keyboard (li_cdc li) (li_ready li) (li_accepts li)] @
        map (\<lambda>e. case e of Inl b \<Rightarrow> Fw_Bluetooth b | Inr w \<Rightarrow> Fw_Http w) (li_polled li) @
        [Fw_Bluetooth (Task (fe_version env) (li_input li) (li_connected li)), Fw_Http (Web_Task (li_connected li))])"

fun main_loop :: "fw_env \<Rightarrow> loop_inputs list \<Rightarrow> firmware \<Rightarrow> firmware option" where
  "main_loop env [] fw = Some fw"
| "main_loop env (li # lis) fw = do {
     fw \<leftarrow> run_events (fw_step env) (main_loop_events env li) fw;
     main_loop env lis fw
   }"

section \<open>The serial log\<close>

lemma serial_run_append:
  "serial_run (ops @ ops') u = do {
     (u, sent) \<leftarrow> serial_run ops u;
     (u, sent') \<leftarrow> serial_run ops' u;
     Some (u, sent @ sent')
   }"
proof (induction ops arbitrary: u)
  case (Cons op ops)
  then show ?case by (cases op) (auto split: Option.bind_split option.split)
qed (simp split: Option.bind_split)

definition serial_ok :: "firmware \<Rightarrow> bool" where
  "serial_ok fw \<longleftrightarrow> serial_run (fw_ops fw) usb_log_boot = Some (fw_serial fw, fw_sent fw) \<and>
     (\<forall>op\<in>set (fw_ops fw). serial_op_ok op) \<and> sl_wf (fw_serial fw)"

lemma print_lines_ok:
  assumes "\<forall>l\<in>set lines. printable_line l" and "sl_wf u"
  shows "\<exists>u'. print_lines connected lines u = Some u' \<and> sl_wf u' \<and>
    serial_run (map (print_op connected) lines) u = Some (u', []) \<and>
    (\<forall>op\<in>set (map (print_op connected) lines). serial_op_ok op)"
  using assms
proof (induction lines arbitrary: u)
  case (Cons l lines)
  obtain fmt args where l: "l = (fmt, args)" by (cases l)
  from Cons.prems(1) l obtain tx where tx: "format_text (fmt @ line_end) args = Some tx"
    by (auto simp: printable_line_def printed_text_def simp del: printable_simp)
  obtain v where v: "Usb_Serial.usb_serial_printf connected (fmt @ line_end) args u = Some v" "sl_wf v"
  proof (cases connected)
    case True
    with usb_serial_printf_spec [OF Cons.prems(2) tx] that show thesis by auto
  next
    case False
    with that Cons.prems(2) show thesis by (simp add: usb_serial_printf_def)
  qed
  from Cons.IH [OF _ v(2)] Cons.prems(1) v(1) l tx show ?case by (auto simp: print_op_def simp del: printable_simp)
qed simp

lemma fw_print_ok:
  assumes "\<forall>l\<in>set lines. printable_line l" and "serial_ok fw"
  shows "\<exists>u. fw_print connected lines fw =
      Some (fw\<lparr>fw_serial := u, fw_ops := fw_ops fw @ map (print_op connected) lines\<rparr>) \<and>
    serial_ok (fw\<lparr>fw_serial := u, fw_ops := fw_ops fw @ map (print_op connected) lines\<rparr>)"
proof -
  have "sl_wf (fw_serial fw)" using assms(2) by (simp add: serial_ok_def)
  from print_lines_ok [OF assms(1) this, of connected] assms(2) show ?thesis
    by (auto simp: fw_print_def serial_ok_def serial_run_append)
qed

section \<open>The invariant\<close>

definition fw_ok :: "fw_env \<Rightarrow> firmware \<Rightarrow> bool" where
  "fw_ok env fw \<longleftrightarrow> env_typed (fe_btstack env) \<and> ws_ok (fe_html env) (fw_web fw) \<and> app_ok (fw_app fw) \<and> serial_ok fw"

text \<open>What the libraries promise: addresses have six bytes, lwIP delivers what it should, TinyUSB's
  buffers are as long as it says and its serial port takes at most what it is given.\<close>

definition fw_delivers :: "firmware \<Rightarrow> bool \<times> fw_event \<Rightarrow> bool" where
  "fw_delivers fw ce =
     (case snd ce of
        Fw_Bluetooth e \<Rightarrow> event_typed e
      | Fw_Http e \<Rightarrow> lwip_delivers (fw_web fw) e
      | Fw_Set_Report output_report buffer n \<Rightarrow> (\<forall>b. buffer = Some b \<longrightarrow> n \<le> length b)
      | Fw_Keyboard cdc ready accepts \<Rightarrow> cdc_contract cdc)"

lemma fw_print_fw_ok:
  assumes "\<forall>l\<in>set lines. printable_line l" and "fw_ok env fw"
  shows "\<exists>fw'. fw_print connected lines fw = Some fw' \<and> fw_ok env fw' \<and> fw_web fw' = fw_web fw \<and>
    fw_reports fw' = fw_reports fw"
  using fw_print_ok [OF assms(1), of fw connected] assms(2) by (auto simp: fw_ok_def)

lemma fw_ok_app: "fw_ok env fw \<Longrightarrow> app_ok a \<Longrightarrow> fw_ok env (set_app a fw)"
  by (simp add: fw_ok_def set_app_def ws_ok_app serial_ok_def)

text \<open>A message list is only extended.\<close>

lemma formats_new: "formats_ok a \<Longrightarrow> \<forall>l\<in>set (drop n (app_log a)). printable_line l"
  by (auto simp: formats_ok_def dest: in_set_dropD simp del: printable_simp)

lemma fw_bluetooth_ok:
  assumes ok: "fw_ok env fw" and e: "event_typed e"
  shows "\<exists>fw'. fw_bluetooth (fe_btstack env) connected e fw = Some fw' \<and> fw_ok env fw'"
proof -
  have app: "app_ok (fw_app fw)" using ok by (simp add: fw_ok_def)
  then obtain a where a: "bt_apply (fe_btstack env) e (fw_app fw) = Some a"
    using bt_apply_ok [of "fw_app fw" "fe_btstack env" e] by (auto simp: app_ok_def)
  from app_ok_apply [OF a app e] have a': "app_ok a" .
  then have "\<forall>l\<in>set (drop n (app_log a)). printable_line l" for n
    unfolding app_ok_def by (blast dest: formats_new)
  from fw_print_fw_ok [OF this fw_ok_app [OF ok a']] a show ?thesis
    by (auto simp: fw_bluetooth_def simp del: printable_simp)
qed

lemma submitted_ok: "submitted a a' \<Longrightarrow> app_ok a \<Longrightarrow> app_ok a'"
  by (auto simp: submitted_def intro: app_ok_submit)

lemma fw_http_ok:
  assumes ok: "fw_ok env fw" and e: "lwip_delivers (fw_web fw) e"
  shows "\<exists>fw'. fw_http (fe_lwip env) (fe_version env) (fe_html env) connected e fw = Some fw' \<and> fw_ok env fw'"
proof -
  have w: "ws_ok (fe_html env) (fw_web fw)" "app_ok (fw_app fw)" "ds_wf (ws_dhcp (fw_web fw))"
    using ok by (simp_all add: fw_ok_def ws_ok_def)
  from web_apply_ok [OF w(1) e, of "fe_lwip env" "fe_version env"] obtain v where
    v: "web_apply (fe_lwip env) (fe_version env) (fe_html env) e (fw_web fw) = Some v" "ws_ok (fe_html env) v" by blast
  from web_apply_frame [OF v(1) w(3) e] obtain lines where
    l: "submitted (fw_app fw) (ws_app v)" "ws_log v = ws_log (fw_web fw) @ lines" "\<forall>l\<in>set lines. printable_line l" by blast
  have "fw_ok env (fw\<lparr>fw_web := v\<rparr>)"
    using ok v(2) submitted_ok [OF l(1) w(2)] by (simp add: fw_ok_def serial_ok_def)
  from fw_print_fw_ok [OF l(3) this, of connected] v(1) l(2) show ?thesis by (auto simp: fw_http_def)
qed

lemma set_report_lines:
  assumes "\<forall>b. buffer = Some b \<longrightarrow> n \<le> length b"
  shows "\<exists>leds lines. tud_hid_set_report_cb out buffer n = Some (leds, lines) \<and> (\<forall>l\<in>set lines. printable_line l)"
proof (cases "\<exists>b. buffer = Some b \<and> out \<and> 1 \<le> n")
  case True
  with assms obtain x xs where "buffer = Some (x # xs)" "out" "1 \<le> n" by (metis One_nat_def Suc_le_length_iff le_trans)
  then show ?thesis by (simp add: tud_hid_set_report_cb_def Let_def)
next
  case False
  then show ?thesis by (auto simp: tud_hid_set_report_cb_def split: option.split)
qed

lemma fw_set_report_ok:
  assumes ok: "fw_ok env fw" and n: "\<forall>b. buffer = Some b \<longrightarrow> n \<le> length b"
  shows "\<exists>fw'. fw_set_report connected out buffer n fw = Some fw' \<and> fw_ok env fw'"
proof -
  obtain leds lines where r: "tud_hid_set_report_cb out buffer n = Some (leds, lines)" "\<forall>l\<in>set lines. printable_line l"
    using n set_report_lines [of buffer n out] by blast
  from fw_print_fw_ok [OF r(2) ok, of connected] obtain fw' where
    f: "fw_print connected lines fw = Some fw'" "fw_ok env fw'" by blast
  have "app_ok (bluetooth_set_keyboard_leds b (fw_app fw'))" for b
    using f(2) app_wf_set_leds [of "fw_app fw'" b]
    by (simp add: fw_ok_def app_ok_def) (simp add: bluetooth_set_keyboard_leds_def typed_def)
  from fw_ok_app [OF f(2) this] r(1) f show ?thesis by (auto simp: fw_set_report_def split: option.split)
qed

lemma printable_tx:
  assumes "length ks = 6"
  shows "printable_line (''[USB] TX mod=%02x keys=%02x,%02x,%02x,%02x,%02x,%02x'',
    LNum n # map (\<lambda>k. LNum (unat k)) (ks :: u8 list))"
proof -
  from assms obtain a b c d e f where "ks = [a, b, c, d, e, f]" by (auto simp: numeral_eq_Suc length_Suc_conv)
  then show ?thesis by simp
qed

lemma task_send_lines:
  assumes "hid_keyboard_task_send ready accepts k = (report, k', lines)" and "kq_wf k" and "reports_wf k"
  shows "(\<forall>l\<in>set lines. printable_line l) \<and> reports_wf k'"
proof -
  have "length (kr_keycodes (report_queue k ! report_queue_head k)) = 6"
    using assms(2,3) by (simp add: kq_wf_def reports_wf_def)
  from printable_tx [OF this] assms(1,3) show ?thesis
    by (auto simp: hid_keyboard_task_send_def reports_wf_def Let_def simp del: printable_simp split: if_splits)
qed

lemma usb_serial_task_ok:
  assumes "serial_ok fw" and "cdc_contract cdc"
  shows "\<exists>u sent. usb_serial_task connected cdc (fw_serial fw) = Some (u, sent) \<and>
    serial_ok (fw\<lparr>fw_serial := u, fw_ops := fw_ops fw @ [Serial_Task connected cdc], fw_sent := fw_sent fw @ sent\<rparr>)"
proof -
  have "\<exists>u sent. usb_serial_task connected cdc (fw_serial fw) = Some (u, sent) \<and> sl_wf u"
    using assms usb_serial_task_spec [of "fw_serial fw" cdc]
    by (cases connected) (auto simp: serial_ok_def usb_serial_task_def)
  with assms show ?thesis by (auto simp: serial_ok_def serial_run_append)
qed

lemma hid_keyboard_task_ok:
  assumes ok: "fw_ok env fw" and c: "cdc_contract cdc"
  shows "\<exists>fw'. hid_keyboard_task connected cdc ready accepts fw = Some fw' \<and> fw_ok env fw'"
proof -
  have "serial_ok fw" and app: "app_wf (fw_app fw)" "typed (fw_app fw)" "formats_ok (fw_app fw)"
    using ok by (simp_all add: fw_ok_def app_ok_def)
  from usb_serial_task_ok [OF this(1) c, of connected] obtain u sent where
    u: "usb_serial_task connected cdc (fw_serial fw) = Some (u, sent)"
      "serial_ok (fw\<lparr>fw_serial := u, fw_ops := fw_ops fw @ [Serial_Task connected cdc], fw_sent := fw_sent fw @ sent\<rparr>)"
    by blast
  obtain report k lines where s: "hid_keyboard_task_send ready accepts (keyboard (fw_app fw)) = (report, k, lines)"
    by (cases "hid_keyboard_task_send ready accepts (keyboard (fw_app fw))")
  note lines = task_send_lines [OF s app_wfD(3) [OF app(1)] formats_reports [OF app(3)]]
  have "kq_wf k" using task_send_contents [OF app_wfD(3) [OF app(1)] s] by simp
  with app lines have a: "app_ok ((fw_app fw)\<lparr>keyboard := k\<rparr>)"
    by (auto simp: app_ok_def app_wf_def formats_ok_def simp del: printable_simp)
  let ?fw = "fw\<lparr>fw_serial := u, fw_ops := fw_ops fw @ [Serial_Task connected cdc], fw_sent := fw_sent fw @ sent,
    fw_reports := fw_reports fw @ (case report of None \<Rightarrow> [] | Some r \<Rightarrow> [r])\<rparr>"
  have "fw_ok env ?fw" using ok u(2) by (simp add: fw_ok_def serial_ok_def)
  from fw_print_fw_ok [OF conjunct1 [OF lines] fw_ok_app [OF this a], of connected] u(1) s show ?thesis
    by (auto simp: hid_keyboard_task_def Let_def)
qed

lemma fw_step_ok:
  assumes "fw_ok env fw" and "fw_delivers fw ce"
  shows "\<exists>fw'. fw_step env ce fw = Some fw' \<and> fw_ok env fw'"
  using assms
  by (cases ce; cases "snd ce")
    (auto simp: fw_step_def fw_delivers_def
      intro!: fw_bluetooth_ok fw_http_ok fw_set_report_ok hid_keyboard_task_ok)

interpretation fw_events: event_system "fw_step env" fw_delivers "fw_ok env" for env
  by unfold_locales (rule fw_step_ok)

lemma boot_web: "(web_boot bt_app_boot)\<lparr>ws_app := a\<rparr> = web_boot a"
  by (simp add: web_boot_def)

lemma web_init_frame:
  assumes "web_config_init udp tcp bound listening w = (ok, w')"
  shows "ws_app w' = ws_app w \<and> (\<exists>lines. ws_log w' = ws_log w @ lines \<and> (\<forall>l\<in>set lines. printable_line l))"
  using assms by (auto simp: web_config_init_def Let_def split: if_splits)

lemma keyboard_init [simp]: "keyboard (bluetooth_init env a) = keyboard a"
  by (simp add: bluetooth_init_def load_selected_device_def Let_def split: prod.split)

lemma main_init_ok:
  assumes "env_typed (fe_btstack env)" and "length (fe_html env) < 65536" and "ba_usb ba"
  shows "\<exists>fw. main_init env ba connected = Some (Inr fw) \<and> fw_ok env fw \<and> fw_reports fw = [] \<and>
    keyboard (fw_app fw) = usb_keyboard_boot"
proof -
  define a where "a = bluetooth_init (fe_btstack env) bt_app_boot"
  have a: "app_ok a"
    using typed_init [OF assms(1)] formats_init app_wf_init [OF app_wf_boot] by (simp add: app_ok_def a_def)
  then have log: "\<forall>l\<in>set (app_log a). printable_line l" by (simp add: app_ok_def formats_ok_def del: printable_simp)
  have boot: "serial_ok (set_app a firmware_boot)"
    by (simp add: serial_ok_def set_app_def firmware_boot_def sl_wf_def usb_log_boot_def USB_SERIAL_LOG_BUFFER_SIZE_def)
  define fw0 where "fw0 = set_app a firmware_boot"
  have fw0: "fw_web fw0 = web_boot a" "fw_reports fw0 = []" by (simp_all add: fw0_def set_app_def firmware_boot_def boot_web)
  from fw_print_ok [OF log boot, of connected, folded fw0_def] fw0 obtain fw1 where
    fw1: "fw_print connected (app_log a) fw0 = Some fw1" "serial_ok fw1" "fw_web fw1 = web_boot a" "fw_reports fw1 = []"
    by force
  obtain ok w where w: "web_config_init (ba_udp ba) (ba_tcp ba) (ba_bound ba) (ba_listening ba) (fw_web fw1) = (ok, w)"
    by (cases "web_config_init (ba_udp ba) (ba_tcp ba) (ba_bound ba) (ba_listening ba) (fw_web fw1)")
  from a have "dm_wf (device_manager a)" "addresses_ok a" by (simp_all add: app_ok_def app_wfD(1) typed_addresses)
  from web_init_ok [OF this assms(2), of "ba_udp ba" "ba_tcp ba" "ba_bound ba" "ba_listening ba"] w
  have ws: "ws_ok (fe_html env) w" by (simp add: fw1(3))
  from web_init_frame [OF w] have f: "ws_app w = a" "\<forall>l\<in>set (ws_log w). printable_line l"
    by (auto simp: fw1(3) web_boot_def simp del: printable_simp)
  have "fw_ok env (fw1\<lparr>fw_web := w\<rparr>)"
    using assms(1) ws f(1) a fw1(2) by (simp add: fw_ok_def serial_ok_def)
  moreover have "keyboard a = usb_keyboard_boot" by (simp add: a_def bt_app_boot_def)
  ultimately show ?thesis
    using fw_print_fw_ok [OF f(2), of env "fw1\<lparr>fw_web := w\<rparr>" connected] fw1(1,4) w assms(3) f(1)
    by (auto simp: main_init_def a_def fw0_def Let_def)
qed

end
