(* ===== verification/Key_Forwarding.thy ===== *)
theory Key_Forwarding
  imports Bluetooth_Session
begin

unbundle bit_operations_syntax

text \<open>
  Where the reports in the USB queue come from, and how a link ends: disconnection events, connection
  completions that nobody waits for, and cancelled connection attempts.
\<close>

section \<open>Where USB reports come from\<close>

definition released :: "usb_keyboard \<Rightarrow> usb_keyboard" where
  "released k = fst (keyboard_release_all k)"

definition kept :: "usb_keyboard \<Rightarrow> usb_keyboard set" where
  "kept k = {k, released k}"

lemma released_twice [simp]: "released (released k) = released k"
  by (simp add: released_def keyboard_release_all_def keyboard_release_def keyboard_send_report_def Let_def
    KEYBOARD_REPORT_QUEUE_SIZE_def)

lemma keyboard_of_release [simp]: "keyboard (release_usb_keyboard a) = released (keyboard a)"
  by (simp add: release_usb_keyboard_def keyboard_action_def released_def split: prod.split)

lemma keyboard_of_error [simp]: "keyboard (disconnect_acl_after_error st e a) = released (keyboard a)"
  by (simp add: disconnect_acl_after_error_def Let_def)

lemma kept_member [simp]: "k \<in> kept k" "released k \<in> kept k"
  by (simp_all add: kept_def)

lemma kept_open [simp]:
  assumes "keyboard b = k"
  shows "keyboard (open_control_channel env b) \<in> kept k" and "keyboard (open_interrupt_channel env b) \<in> kept k"
    and "keyboard (start_sdp_discovery env b) \<in> kept k"
  using assms by (auto simp: open_control_channel_def open_interrupt_channel_def start_sdp_discovery_def
    bt_status_call_def kept_def Let_def split: option.split)

lemma kept_sdp_complete: "keyboard (handle_sdp_complete env status a) \<in> kept (keyboard a)"
  by (auto simp: handle_sdp_complete_def Let_def split: option.split)

lemma kept_sdp_event:
  "handle_sdp_client_query_result env e a = Some a' \<Longrightarrow> keyboard a' \<in> kept (keyboard a)"
  by (cases e) (auto simp: handle_sdp_client_query_result_def handle_sdp_attribute_def Let_def
    intro: kept_sdp_complete split: Option.bind_splits option.splits)

lemma kept_hci_event:
  assumes "handle_hci_event env e a = Some a'"
  shows "keyboard a' \<in> kept (keyboard a)"
proof -
  have "keyboard (on_stack_state env w a) \<in> kept (keyboard a)"
    "keyboard (on_inquiry_complete env a) \<in> kept (keyboard a)"
    "keyboard (on_pin_code_request env ad a) \<in> kept (keyboard a)"
    "keyboard (on_link_key_request env ad a) \<in> kept (keyboard a)" for w ad
    by (auto simp: on_stack_state_def on_inquiry_complete_def on_pin_code_request_def on_link_key_request_def
      get_link_key_def bt_status_call_def Let_def split: option.split prod.split)
  moreover have "keyboard (on_inquiry_result env ad h r c n a) \<in> kept (keyboard a)" for ad h r c n
    by (auto simp: on_inquiry_result_def get_link_key_def Let_def split: option.split prod.split)
  moreover have "keyboard (on_connection_complete s h ad a) \<in> kept (keyboard a)" for s h ad
    by (auto simp: on_connection_complete_def Let_def split: option.split)
  moreover have "keyboard (on_channel_opened env s p l r a) \<in> kept (keyboard a)" for s p l r
    by (auto simp: on_channel_opened_def bt_status_call_def Let_def split: option.split)
  moreover have "keyboard (on_can_send_now env c a) \<in> kept (keyboard a)" for c
    by (auto simp: on_can_send_now_def bt_status_call_def Let_def kept_def split: prod.split)
  moreover have "keyboard (on_channel_closed c a) \<in> kept (keyboard a)" for c
    by (simp add: on_channel_closed_def Let_def kept_def split: prod.split)
  moreover have "keyboard (on_security_level env h s l a) \<in> kept (keyboard a)"
    "keyboard (on_authentication_complete h s a) \<in> kept (keyboard a)"
    "keyboard (on_encryption_change env h s en a) \<in> kept (keyboard a)" for h s l en
    by (auto simp: on_security_level_def on_authentication_complete_def on_encryption_change_def Let_def)
  moreover have "keyboard (on_disconnection_complete h s a) \<in> kept (keyboard a)" for h s
    by (simp add: on_disconnection_complete_def handle_disconnected_state_def Let_def kept_def)
  moreover have "on_link_key_notification env ad p a = Some a' \<Longrightarrow> keyboard a' \<in> kept (keyboard a)" for ad p
    by (auto simp: on_link_key_notification_def get_link_key_def Let_def 
      split: if_splits Option.bind_splits option.splits prod.splits)
  ultimately show ?thesis
    using assms by (cases e) (auto simp: handle_hci_event_def)
qed

lemma keyboard_execute [simp]: "keyboard (execute_control_request env r a) = keyboard a"
proof -
  have "keyboard (execute_connect env ad a) = keyboard a" for ad
    by (simp add: execute_connect_def store_selected_device_def Let_def split: option.split)
  then show ?thesis
    by (cases "rq_action r") (auto simp: execute_control_request_def execute_scan_def execute_disconnect_def
      execute_reconnect_def execute_forget_def Let_def split: option.split)
qed

lemma keyboard_run_requests: "run_control_requests env fuel a = Some a' \<Longrightarrow> keyboard a' = keyboard a"
proof (induction fuel arbitrary: a)
  case 0
  then show ?case by (simp add: run_control_requests.simps split: option.splits prod.splits)
next
  case (Suc fuel)
  show ?case
  proof (cases "control_request_queue_pop (control_requests a)")
    case None
    with Suc.prems show ?thesis by (simp add: run_control_requests.simps)
  next
    case (Some p)
    obtain r q where p: "p = (r, q)" by (cases p)
    from Suc.IH [of "execute_control_request env r (a\<lparr>control_requests := q\<rparr>)"] Suc.prems Some p
    show ?thesis by (simp add: run_control_requests.simps [of env "Suc fuel"])
  qed
qed

lemma keyboard_console_char: "console_char a ch = Some a' \<Longrightarrow> keyboard a' = keyboard a"
  by (auto simp: console_char_def submit_parsed_command_def bluetooth_control_submit_def Let_def
    split: if_splits Option.bind_splits option.splits prod.splits)

lemma keyboard_console: "console_input cs a = Some a' \<Longrightarrow> keyboard a' = keyboard a"
  by (induction cs arbitrary: a) (auto split: Option.bind_splits dest: keyboard_console_char)

lemma keyboard_task: "bluetooth_task env v i c a = Some a' \<Longrightarrow> keyboard a' = keyboard a"
  by (auto simp: bluetooth_task_def log_startup_def Let_def split: Option.bind_splits
    dest!: keyboard_console keyboard_run_requests)

lemma keyboard_of_report [simp]:
  "keyboard (keyboard_action (keyboard_send_report m ks) a) = fst (keyboard_send_report m ks (keyboard a))"
  by (simp add: keyboard_action_def split: prod.split)

lemma kept_control_data: "handle_control_data env p a = Some a' \<Longrightarrow> keyboard a' \<in> kept (keyboard a)"
  by (auto simp: handle_control_data_def Let_def split: if_splits Option.bind_splits)

lemma keyboard_hid_data:
  assumes "handle_hid_data_packet env channel packet a = Some a'"
  shows "keyboard a' \<in> kept (keyboard a) \<or>
    channel = hc_interrupt_cid (hid_channels a) \<and> hc_interrupt_open (hid_channels a) \<and>
    (\<exists>r. hid_boot_keyboard_parse_input (Some packet) (length packet) zero_boot_report = Some (HID_BOOT_PARSE_OK, r) \<and>
      keyboard a' = fst (keyboard_send_report (br_modifier r) (br_keycodes r) (keyboard a)))"
  using assms
  by (auto simp: handle_hid_data_packet_def dest: kept_control_data
    split: if_splits Option.bind_splits hid_boot_parse_result.splits)

lemma bt_run_allowed:
  "bt_run env a \<Longrightarrow> allowed_run (bt_apply env) stack_contract es a \<Longrightarrow>
   run_events (bt_apply env) es a = Some a' \<Longrightarrow> bt_run env a'"
  by (induction es arbitrary: a) (auto split: Option.bind_splits intro: bt_run.step)

lemma apply_keyboard:
  assumes "coherent a" and "bt_apply env e a = Some a'"
  shows "keyboard a' \<in> kept (keyboard a) \<or>
    (\<exists>packet r. e = Packet (L2CAP_DATA_PACKET (hc_interrupt_cid (hid_channels a)) packet) \<and>
      current_state a = STATE_HID_CONNECTED \<and>
      hid_boot_keyboard_parse_input (Some packet) (length packet) zero_boot_report = Some (HID_BOOT_PARSE_OK, r) \<and>
      keyboard a' = fst (keyboard_send_report (br_modifier r) (br_keycodes r) (keyboard a)))"
proof (cases e)
  case (Packet p)
  with assms keyboard_hid_data [of env _ _ a a'] kept_hci_event [of env _ a a'] show ?thesis
    by (cases p) (auto simp: bt_apply_def hci_event_handler_def coherent_def channels_match_def)
next
  case (Sdp ev)
  with assms show ?thesis by (auto simp: bt_apply_def dest: kept_sdp_event)
next
  case (Task v i c)
  with assms show ?thesis by (auto simp: bt_apply_def dest: keyboard_task)
qed (use assms in \<open>auto simp: bt_apply_def inquiry_timer_handler_def pairing_pin_timeout_def
  bluetooth_control_submit_def bluetooth_set_keyboard_leds_def Let_def split: prod.splits\<close>)

section \<open>The end of a link\<close>

text \<open>The links that are closed by the application, in order.\<close>

definition links_closed :: "bt_app \<Rightarrow> u16 list" where
  "links_closed a = List.map_filter (\<lambda>c. case c of gap_disconnect h \<Rightarrow> Some h | _ \<Rightarrow> None) (calls a)"

lemma links_closed_call [simp]:
  "links_closed (bt_call c a) = links_closed a @ (case c of gap_disconnect h \<Rightarrow> [h] | _ \<Rightarrow> [])"
  by (simp add: links_closed_def bt_call_def map_filter_def split: bt_call.split)

lemma links_closed_cong: "calls a = calls b \<Longrightarrow> links_closed a = links_closed b"
  by (simp add: links_closed_def)

lemma links_closed_frame [simp]:
  "links_closed (usb_serial_printf fmt args a) = links_closed a"
  "links_closed (release_usb_keyboard a) = links_closed a"
  "links_closed (reset_hid_channels a) = links_closed a"
  "links_closed (a\<lparr>device_manager := dm\<rparr>) = links_closed a"
  "links_closed (a\<lparr>acl_handle := h\<rparr>) = links_closed a"
  "links_closed (a\<lparr>current_state := s\<rparr>) = links_closed a"
  "links_closed (a\<lparr>inquiry_timer_armed := v\<rparr>) = links_closed a"
  "links_closed (a\<lparr>connecting_device_valid := v\<rparr>) = links_closed a"
  "links_closed (a\<lparr>connection_cancel_requested := v\<rparr>) = links_closed a"
  by (rule links_closed_cong, simp)+

lemma links_closed_pin [simp]: "links_closed (clear_pairing_pin a) = links_closed a"
  by (simp add: clear_pairing_pin_def Let_def) (simp add: links_closed_def bt_call_def map_filter_def)

lemma links_closed_transition [simp]: "links_closed (transition_to_state s a) = links_closed a"
  by (simp add: transition_to_state_def Let_def)

lemma links_closed_timer [simp]: "links_closed (start_idle_timer a) = links_closed a"
  by (simp add: start_idle_timer_def Let_def)

lemma disconnection_state:
  assumes "app_wf a"
  shows "\<exists>a'. bt_apply env (Packet (HCI_EVENT_PACKET (HCI_EVENT_DISCONNECTION_COMPLETE h r))) a = Some a' \<and>
    current_state a' = STATE_IDLE \<and> acl_handle a' = HCI_CON_HANDLE_INVALID \<and>
    hid_channels a' = hid_channels_reset_connection (hid_channels a) \<and>
    keyboard a' = released (keyboard a) \<and>
    device_manager a' = device_manager_clear_connections (device_manager a) \<and>
    inquiry_timer_armed a' = (inquiry_timer_armed a \<or> auto_connect_enabled a \<and> selected_device_valid a) \<and>
    links_closed a' = links_closed a"
proof -
  have timer: "inquiry_timer_armed (start_idle_timer b) =
      (inquiry_timer_armed b \<or> auto_connect_enabled b \<and> selected_device_valid b)" for b
    by (simp add: start_idle_timer_def Let_def)
  show ?thesis
    by (simp add: bt_apply_def hci_event_handler_def handle_hci_event_def on_disconnection_complete_def
      handle_disconnected_state_def timer Let_def) (simp add: reset_hid_channels_def)
qed

lemma released_contents: "kq_wf k \<Longrightarrow> kq_contents (released k) = [zero_report]"
  unfolding released_def by (rule release_all_contents)

lemma stale_connection:
  assumes "app_wf a" and "current_state a \<noteq> STATE_CONNECTING"
  shows "\<exists>a'. bt_apply env (Packet (HCI_EVENT_PACKET (HCI_EVENT_CONNECTION_COMPLETE 0 h ad))) a = Some a' \<and>
    app_wf a' \<and> links_closed a' = links_closed a @ [h] \<and> current_state a' = current_state a \<and>
    acl_handle a' = acl_handle a"
proof -
  obtain a' where a': "bt_apply env (Packet (HCI_EVENT_PACKET (HCI_EVENT_CONNECTION_COMPLETE 0 h ad))) a = Some a'"
    and w: "app_wf a'" using bt_apply_ok [OF assms(1)] by blast
  with assms(2) show ?thesis
    by (auto simp: bt_apply_def hci_event_handler_def handle_hci_event_def on_connection_complete_def
      ERROR_CODE_SUCCESS_def Let_def)
qed

lemma map_used_not_connected:
  assumes "dm_wf m" and "d \<in> set (dm_used (device_manager_clear_connections m))"
  shows "\<not> dev_connected d"
  using assms by (auto simp: device_manager_clear_connections_def map_used_def dm_used_def dm_wf_def)

section \<open>Properties\<close>

text \<open>
  Nothing is typed that the keyboard did not send: in every state of a run in which BTstack
  delivers events as it is relied upon for, an event leaves the USB report queue alone, or replaces
  it by the release of all keys, or appends the fields of a valid boot report that arrived on the open
  interrupt channel of a completed connection.
\<close>

theorem usb_reports_come_from_keyboard:
  assumes "bt_run env a" and "bt_apply env e a = Some a'"
  shows "keyboard a' = keyboard a \<or> keyboard a' = fst (keyboard_release_all (keyboard a)) \<or>
    (\<exists>packet r. e = Packet (L2CAP_DATA_PACKET (hc_interrupt_cid (hid_channels a)) packet) \<and>
      current_state a = STATE_HID_CONNECTED \<and>
      hid_boot_keyboard_parse_input (Some packet) (length packet) zero_boot_report = Some (HID_BOOT_PARSE_OK, r) \<and>
      keyboard a' = fst (keyboard_send_report (br_modifier r) (br_keycodes r) (keyboard a)))"
proof -
  have "coherent a" using bt_run_healthy [OF assms(1)] by (simp add: healthy_def)
  from apply_keyboard [OF this assms(2)] show ?thesis by (auto simp: kept_def released_def)
qed

lemma demo_bt_run: "bt_run demo_btstack (demo_state n)"
  by (rule bt_run_allowed [OF bt_run.init allowed_run_take [OF demo_contract] demo_run])

theorem usb_reports_come_from_keyboard_witness:
  "\<exists>a'. bt_apply demo_btstack (Packet (HCI_EVENT_PACKET (L2CAP_EVENT_CHANNEL_CLOSED 0x41))) (demo_state 8) = Some a' \<and>
    (keyboard a' = keyboard (demo_state 8) \<or>
     keyboard a' = fst (keyboard_release_all (keyboard (demo_state 8))))"
proof -
  let ?e = "Packet (HCI_EVENT_PACKET (L2CAP_EVENT_CHANNEL_CLOSED 0x41))"
  obtain a' where a': "bt_apply demo_btstack ?e (demo_state 8) = Some a'"
    using bt_apply_ok [OF bt_reachable_wf [OF demo_reachable]] by blast
  with usb_reports_come_from_keyboard [OF demo_bt_run a'] show ?thesis by auto
qed

text \<open>
  C27. The end of a link leaves nothing behind: after a disconnection event in any reachable state, the
  application is idle without a link, both channels are reset while the LED state is kept, no entry
  of the device table is connected, the only report queued for the USB host is the release of all
  keys, and a retry is scheduled when automatic connection to a selected keyboard is on.
\<close>

theorem disconnection_leaves_idle:
  assumes "bt_reachable env a"
    and "bt_apply env (Packet (HCI_EVENT_PACKET (HCI_EVENT_DISCONNECTION_COMPLETE h r))) a = Some a'"
  shows "current_state a' = STATE_IDLE \<and> acl_handle a' = HCI_CON_HANDLE_INVALID \<and>
    \<not> hc_control_open (hid_channels a') \<and> \<not> hc_interrupt_open (hid_channels a') \<and>
    hc_control_cid (hid_channels a') = 0 \<and> hc_interrupt_cid (hid_channels a') = 0 \<and>
    hc_led_state (hid_channels a') = hc_led_state (hid_channels a) \<and>
    (\<forall>d\<in>set (dm_used (device_manager a')). \<not> dev_connected d) \<and>
    kq_contents (keyboard a') = [zero_report] \<and>
    (auto_connect_enabled a \<and> selected_device_valid a \<longrightarrow> inquiry_timer_armed a')"
proof -
  note wf = bt_reachable_wf [OF assms(1)]
  from disconnection_state [OF wf, of env h r] assms(2) have
    "current_state a' = STATE_IDLE" "acl_handle a' = HCI_CON_HANDLE_INVALID"
    "hid_channels a' = hid_channels_reset_connection (hid_channels a)" "keyboard a' = released (keyboard a)"
    "device_manager a' = device_manager_clear_connections (device_manager a)"
    "inquiry_timer_armed a' = (inquiry_timer_armed a \<or> auto_connect_enabled a \<and> selected_device_valid a)"
    by auto
  with map_used_not_connected [OF app_wfD(1) [OF wf]] released_contents [OF app_wfD(3) [OF wf]] show ?thesis
    by (simp add: hid_channels_defs)
qed

theorem disconnection_leaves_idle_witness:
  "\<exists>a' :: bt_app. kq_contents (keyboard a') = [zero_report] \<and> inquiry_timer_armed a'"
proof -
  obtain a' where a': "bt_apply demo_btstack
      (Packet (HCI_EVENT_PACKET (HCI_EVENT_DISCONNECTION_COMPLETE 0x000b 0x13))) (demo_state 9) = Some a'"
    using bt_apply_ok [OF bt_reachable_wf [OF demo_reachable]] by blast
  from disconnection_leaves_idle [OF demo_reachable a'] demo_at_9(3) show ?thesis by blast
qed

text \<open>
  C28. A disconnection event is applied to the present link whatever link it names: when a connection
  completion that nobody waits for is answered by closing that other link, its disconnection event
  makes the application forget the link it has, without closing it.
\<close>

theorem stale_disconnection_forgets_link:
  assumes "bt_reachable env a" and "current_state a = STATE_HID_CONNECTED" and "acl_handle a \<noteq> other"
  shows "\<exists>a'. run_events (bt_apply env)
      [Packet (HCI_EVENT_PACKET (HCI_EVENT_CONNECTION_COMPLETE 0 other addr)),
       Packet (HCI_EVENT_PACKET (HCI_EVENT_DISCONNECTION_COMPLETE other reason))] a = Some a' \<and>
    links_closed a' = links_closed a @ [other] \<and>
    acl_handle a' = HCI_CON_HANDLE_INVALID \<and> current_state a' = STATE_IDLE"
proof -
  from assms(2) have "current_state a \<noteq> STATE_CONNECTING" by simp
  from stale_connection [OF bt_reachable_wf [OF assms(1)] this, of env other addr] obtain b where
    b: "bt_apply env (Packet (HCI_EVENT_PACKET (HCI_EVENT_CONNECTION_COMPLETE 0 other addr))) a = Some b"
      "app_wf b" "links_closed b = links_closed a @ [other]" by blast
  from disconnection_state [OF b(2), of env other reason] b show ?thesis by auto
qed

theorem stale_disconnection_forgets_link_witness:
  "\<exists>a' :: bt_app. links_closed a' = [0x000c] \<and> current_state a' = STATE_IDLE"
proof -
  have "links_closed (demo_state 9) = []"
    using demo_at_9(5) by (auto simp: links_closed_def map_filter_def filter_empty_conv split: bt_call.splits)
  moreover have "acl_handle (demo_state 9) \<noteq> 0x000c" by (simp add: demo_at_9(2))
  ultimately show ?thesis
    using stale_disconnection_forgets_link [OF demo_reachable demo_at_9(1), of "0x000c" "[9, 9, 9, 9, 9, 9]" "0x16"]
    by auto
qed

text \<open>
  A cancelled connection never becomes one: when the user cancelled a connection attempt and it
  completes all the same, the new link is closed at once and no security request, query or channel is
  asked for on it, and a failed completion leaves the application idle.
\<close>

theorem cancelled_connection_closed:
  assumes "bt_reachable env a" and "current_state a = STATE_CONNECTING" and "connection_cancel_requested a"
  shows "\<exists>a'. bt_apply env (Packet (HCI_EVENT_PACKET (HCI_EVENT_CONNECTION_COMPLETE status h ad))) a = Some a' \<and>
    connection_calls a' = connection_calls a \<and> \<not> connection_cancel_requested a' \<and>
    \<not> connecting_device_valid a' \<and>
    (if status = 0 then links_closed a' = links_closed a @ [h] \<and> acl_handle a' = h
     else links_closed a' = links_closed a \<and> current_state a' = STATE_IDLE)"
proof -
  let ?e = "Packet (HCI_EVENT_PACKET (HCI_EVENT_CONNECTION_COMPLETE status h ad))"
  note wf = bt_reachable_wf [OF assms(1)]
  obtain a' where a': "bt_apply env ?e a = Some a'" using bt_apply_ok [OF wf] by blast
  from apply_calls [OF wf a'] assms(2,3) have "connection_calls a' = connection_calls a" by simp
  moreover have "\<not> connection_cancel_requested a' \<and> \<not> connecting_device_valid a' \<and>
    (if status = 0 then links_closed a' = links_closed a @ [h] \<and> acl_handle a' = h
     else links_closed a' = links_closed a \<and> current_state a' = STATE_IDLE)"
    using a' assms(2,3) by (auto simp: bt_apply_def hci_event_handler_def handle_hci_event_def
      on_connection_complete_def ERROR_CODE_SUCCESS_def Let_def)
  ultimately show ?thesis using a' by blast
qed

theorem cancelled_connection_closed_witness:
  "\<exists>a' :: bt_app. links_closed a' = [0x000b] \<and> connection_calls a' = []"
proof -
  let ?r = "Submit \<lparr>rq_action = BLUETOOTH_CONTROL_DISCONNECT, rq_address = replicate 6 0\<rparr>"
  let ?t = "Task ''1.0'' [] False"
  obtain a where a: "run_events (bt_apply demo_btstack) [?r, ?t] (demo_state 1) = Some a"
    using bt_events.run_progress [OF bt_reachable_wf [OF demo_reachable] allowed_run_True] by blast
  have "map_option (\<lambda>a. (current_state a, connection_cancel_requested a, links_closed a, connection_calls a))
      (run_events (bt_apply demo_btstack) [?r, ?t] (demo_state 1)) = Some (STATE_CONNECTING, True, [], [])"
    by code_simp
  with a have s: "current_state a = STATE_CONNECTING" "connection_cancel_requested a" "links_closed a = []"
    "connection_calls a = []" by simp_all
  from cancelled_connection_closed [OF bt_reachable_run [OF demo_reachable a] s(1,2), of 0 "0x000b"] s(3,4)
  show ?thesis by auto
qed

end
