(* ===== verification/Console_Task.thy ===== *)
theory Console_Task
  imports Bluetooth_Safety
begin

unbundle bit_operations_syntax

text \<open>
  The cooperative task: the console line buffer and the requests it submits, and the order in which
  waiting requests are executed.
\<close>

section \<open>Requests in order\<close>

text \<open>The requests of the queue, each taken out and executed in turn.\<close>

definition serve_next :: "btstack \<Rightarrow> bt_app \<Rightarrow> bluetooth_control_request \<Rightarrow> bt_app" where
  "serve_next env a r =
     execute_control_request env r
       (a\<lparr>control_requests := (case control_request_queue_pop (control_requests a) of
                               Some (_, q) \<Rightarrow> q
                             | None \<Rightarrow> control_requests a)\<rparr>)"

lemma run_requests_serve:
  assumes "app_wf a" and "length (crq_contents (control_requests a)) \<le> fuel"
  shows "run_control_requests env fuel a = Some (foldl (serve_next env) a (crq_contents (control_requests a)))"
  using assms
proof (induction fuel arbitrary: a)
  case 0
  then have c: "crq_contents (control_requests a) = []" by (simp del: length_crq_contents)
  have "control_request_queue_pop (control_requests a) = None"
    using crq.deq_empty [OF app_wfD(4) [OF 0(1)] c] .
  with c show ?case by (simp add: run_control_requests.simps)
next
  case (Suc fuel)
  show ?case
  proof (cases "control_request_queue_pop (control_requests a)")
    case None
    with crq.deq_NoneD [OF app_wfD(4) [OF Suc.prems(1)]] show ?thesis by (simp add: run_control_requests.simps)
  next
    case (Some p)
    obtain r q where p: "p = (r, q)" by (cases p)
    from crq.deq_SomeD [OF app_wfD(4) [OF Suc.prems(1)] Some [unfolded p]]
    have q: "crq_contents (control_requests a) = r # crq_contents q" "crq_wf q" by simp_all
    let ?a = "execute_control_request env r (a\<lparr>control_requests := q\<rparr>)"
    have "app_wf ?a" using Suc.prems(1) q(2) by (intro app_wf_execute app_wf_control_requests)
    with Suc.IH [of ?a] Suc.prems(2) q have
      "run_control_requests env fuel ?a = Some (foldl (serve_next env) ?a (crq_contents q))" by simp
    moreover have "serve_next env a r = ?a" using Some p by (simp add: serve_next_def)
    ultimately show ?thesis
      using Some p q by (simp add: run_control_requests.simps [of env "Suc fuel"])
  qed
qed

section \<open>Console lines\<close>

definition printable :: "char \<Rightarrow> bool" where
  "printable ch \<longleftrightarrow> ch \<noteq> CR \<and> ch \<noteq> LF \<and> ch \<noteq> NUL"

lemma console_input_append:
  "console_input (cs @ ds) a = Option.bind (console_input cs a) (console_input ds)"
  by (induction cs arbitrary: a) (simp_all split: Option.bind_split)

lemma console_fill:
  assumes "length (command_buffer a) = 32" and "\<forall>c\<in>set cs. printable c" and "command_length a + length cs \<le> 31"
  shows "\<exists>buf. console_input cs a = Some (a\<lparr>command_buffer := buf, command_length := command_length a + length cs\<rparr>) \<and>
    length buf = 32 \<and> take (command_length a + length cs) buf = take (command_length a) (command_buffer a) @ cs"
  using assms
proof (induction cs arbitrary: a)
  case Nil
  show ?case by (rule exI [of _ "command_buffer a"]) (use Nil in simp)
next
  case (Cons c cs)
  let ?n = "command_length a"
  let ?a = "a\<lparr>command_buffer := (command_buffer a)[?n := c], command_length := ?n + 1\<rparr>"
  have c: "console_char a c = Some ?a" using Cons.prems by (simp add: console_char_def printable_def)
  from Cons.IH [of ?a] Cons.prems obtain buf where
    buf: "console_input cs ?a = Some (?a\<lparr>command_buffer := buf, command_length := ?n + 1 + length cs\<rparr>)"
      "length buf = 32" "take (?n + 1 + length cs) buf = take (?n + 1) ((command_buffer a)[?n := c]) @ cs" by auto
  have "take (?n + 1) ((command_buffer a)[?n := c]) = take ?n (command_buffer a) @ [c]"
    using Cons.prems by (simp add: take_Suc_conv_app_nth)
  with c buf show ?case by (intro exI [of _ buf]) simp
qed

lemma command_spec_request:
  assumes "fst (command_spec s)"
  shows "\<exists>r. request_of_command (snd (command_spec s)) = Some r"
  using assms by (auto simp: command_spec_def request_of_command_def Let_def split: if_splits option.splits bool.splits prod.splits)

lemma console_enter:
  assumes wf: "app_wf a" and n: "0 < command_length a" and typed: "take (command_length a) (command_buffer a) = s"
    and s: "NUL \<notin> set s"
  shows "\<exists>a'. console_char a LF = Some a' \<and> command_length a' = 0 \<and>
    (if fst (command_spec s)
     then control_requests a' = snd (control_request_queue_push (control_requests a)
            (the (request_of_command (snd (command_spec s)))))
     else control_requests a' = control_requests a)"
proof -
  from app_wfD [OF wf] have len: "length (command_buffer a) = 32" "command_length a < 32" by simp_all
  let ?buf = "(command_buffer a)[command_length a := NUL]"
  have "?buf = s @ NUL # drop (Suc (command_length a)) (command_buffer a)"
    using len typed by (simp add: upd_conv_take_nth_drop)
  with s have parse: "control_command_parse (Some ?buf) = Some (command_spec s)"
    using parse_string_spec by simp
  show ?thesis
  proof (cases "fst (command_spec s)")
    case True
    with command_spec_request [OF True] parse n len show ?thesis
      by (cases "command_spec s") (auto simp: console_char_def submit_parsed_command_def
        bluetooth_control_submit_def Let_def split: prod.splits)
  next
    case False
    with parse n len show ?thesis
      by (cases "command_spec s") (simp add: console_char_def Let_def)
  qed
qed

lemma console_line:
  assumes wf: "app_wf a" and empty: "command_length a = 0"
    and line: "\<forall>c\<in>set line. printable c" "line \<noteq> []" "length line \<le> 31"
  shows "\<exists>a'. console_input (line @ [LF]) a = Some a' \<and> command_length a' = 0 \<and>
    crq_contents (control_requests a') = crq_contents (control_requests a) @
      (if fst (command_spec line) \<and> length (crq_contents (control_requests a)) < 8
       then [the (request_of_command (snd (command_spec line)))] else [])"
proof -
  from console_fill [OF app_wfD(6) [OF wf] line(1)] empty line(3) obtain buf where
    b: "console_input line a = Some (a\<lparr>command_buffer := buf, command_length := length line\<rparr>)"
      "length buf = 32" "take (length line) buf = line" by auto
  let ?a = "a\<lparr>command_buffer := buf, command_length := length line\<rparr>"
  have "app_wf ?a" using wf b(2) line(3) by (simp add: app_wf_def)
  moreover have "NUL \<notin> set line" using line(1) by (auto simp: printable_def)
  ultimately obtain a' where a': "console_char ?a LF = Some a'" "command_length a' = 0"
    "if fst (command_spec line)
     then control_requests a' = snd (control_request_queue_push (control_requests a)
            (the (request_of_command (snd (command_spec line)))))
     else control_requests a' = control_requests a"
    using console_enter [of ?a line] b(3) line(2) by auto
  let ?r = "the (request_of_command (snd (command_spec line)))" and ?q = "control_requests a"
  obtain ok q where push: "control_request_queue_push ?q ?r = (ok, q)" by (cases "control_request_queue_push ?q ?r")
  from crq.enq_result [OF app_wfD(4) [OF wf] push] crq.enq_accepts_iff [OF app_wfD(4) [OF wf], of ?r] push
  have "crq_contents q = crq_contents ?q @ (if length (crq_contents ?q) < 8 then [?r] else [])"
    by (simp add: CONTROL_REQUEST_QUEUE_CAPACITY_def)
  with a' push b(1) show ?thesis by (auto simp: console_input_append split: if_splits)
qed

text \<open>The character that does not fit empties the line.\<close>

lemma console_overflow:
  assumes wf: "app_wf a" and empty: "command_length a = 0"
    and front: "\<forall>c\<in>set front. printable c" "length front = 32"
  shows "\<exists>b. console_input front a = Some b \<and> app_wf b \<and> command_length b = 0 \<and>
    control_requests b = control_requests a"
proof -
  obtain xs x where f: "front = xs @ [x]" "length xs = 31" using front(2) by (cases front rule: rev_cases) auto
  with front(1) have x: "printable x" and xs: "\<forall>c\<in>set xs. printable c" by auto
  from console_fill [OF app_wfD(6) [OF wf] xs] empty f(2) obtain buf where
    b: "console_input xs a = Some (a\<lparr>command_buffer := buf, command_length := 31\<rparr>)" "length buf = 32" by auto
  with x wf show ?thesis
    by (auto simp: f(1) console_input_append console_char_def printable_def app_wf_def)
qed

section \<open>Properties\<close>

text \<open>
  C24. Every round of the task serves all waiting requests: the task returns, the requests that are in
  the queue after the console input was read are taken out and executed one by one in the order of
  their submission, and the queue is empty afterwards.
\<close>

theorem task_serves_requests_in_order:
  assumes "bt_reachable env a"
  shows "\<exists>a1. console_input (map byte_char input) (schedule_keyboard_led_report env a) = Some a1 \<and>
    bluetooth_task env version input connected a =
      Some (log_startup version connected (foldl (serve_next env) a1 (crq_contents (control_requests a1)))) \<and>
    crq_contents (control_requests (foldl (serve_next env) a1 (crq_contents (control_requests a1)))) = []"
proof -
  note wf = bt_reachable_wf [OF assms]
  from console_input_ok [OF app_wf_schedule [OF wf]] obtain a1 where
    a1: "console_input (map byte_char input) (schedule_keyboard_led_report env a) = Some a1" "app_wf a1" by blast
  have fuel: "length (crq_contents (control_requests a1)) \<le> CONTROL_REQUEST_QUEUE_CAPACITY"
    using app_wfD(4) [OF a1(2)] by (simp add: crq_wf_def)
  then have "crq_count (control_requests a1) \<le> CONTROL_REQUEST_QUEUE_CAPACITY" by simp
  from run_control_requests_ok [OF a1(2) this, of env] run_requests_serve [OF a1(2) fuel, of env] a1(1)
  show ?thesis by (auto simp: bluetooth_task_def)
qed

theorem task_serves_requests_in_order_witness:
  "\<exists>a1 a2. bluetooth_task demo_btstack ''1.0'' (map (of_nat \<circ> of_char) (''scan'' @ [LF])) True (demo_state 1) = Some a2 \<and>
    a2 = log_startup ''1.0'' True (foldl (serve_next demo_btstack) a1 (crq_contents (control_requests a1)))"
  using task_serves_requests_in_order [OF demo_reachable,
      of "map (of_nat \<circ> of_char) (''scan'' @ [LF])" 1 "''1.0''" True] by blast



text \<open>
  C26. The rest of an overlong line is taken for a command of its own: after 32 characters without a
  line end the buffered text is discarded, and whatever follows on the same line is then read as a
  complete command.
\<close>

theorem overlong_line_tail_is_a_command:
  assumes "bt_reachable env a" and "command_length a = 0"
    and "\<forall>c\<in>set (front @ line). printable c" and "length front = 32" and "line \<noteq> []" and "length line \<le> 31"
  shows "\<exists>a'. console_input (front @ line @ [LF]) a = Some a' \<and>
    crq_contents (control_requests a') = crq_contents (control_requests a) @
      (if fst (command_spec line) \<and> length (crq_contents (control_requests a)) < 8
       then [the (request_of_command (snd (command_spec line)))] else [])"
proof -
  from assms(3) have p: "\<forall>c\<in>set front. printable c" "\<forall>c\<in>set line. printable c" by auto
  from console_overflow [OF bt_reachable_wf [OF assms(1)] assms(2) p(1) assms(4)] obtain b where
    b: "console_input front a = Some b" "app_wf b" "command_length b = 0" "control_requests b = control_requests a"
    by blast
  from console_line [OF b(2,3) p(2) assms(5,6)] b show ?thesis by (auto simp: console_input_append)
qed

theorem overlong_line_tail_is_a_command_witness:
  "\<exists>a' :: bt_app. console_input (replicate 32 CHR ''x'' @ ''forget'' @ [LF]) (demo_state 1) = Some a' \<and>
    crq_contents (control_requests a') = [\<lparr>rq_action = BLUETOOTH_CONTROL_FORGET, rq_address = replicate 6 0\<rparr>]"
proof -
  note s = demo_at_1(4-6)
  have l: "\<forall>c\<in>set (replicate 32 CHR ''x'' @ ''forget''). printable c" "length (replicate 32 CHR ''x'') = 32"
    "''forget'' \<noteq> []" "length ''forget'' \<le> 31" by code_simp+
  have "command_spec ''forget'' = (True, \<lparr>cmd_type = CONTROL_COMMAND_FORGET, cmd_address = replicate 6 0\<rparr>)"
    by (simp add: command_spec_def trim_right_def blank_def Let_def)
  with overlong_line_tail_is_a_command [OF demo_reachable s(1) l] s(2,3) show ?thesis
    by (auto simp: request_of_command_def zero_request_def simp del: One_nat_def console_input.simps)
qed

end
