(* ===== verification/Device_Lines.thy ===== *)
theory Device_Lines
  imports Usb_Serial Log_Messages Address_Types
begin

text \<open>
  What becomes of the lines of \<open>device_manager_print_devices\<close> in the 128-byte messages of the serial log.
\<close>

definition demo_found :: DeviceManager where
  "demo_found = snd (snd (device_manager_upsert device_manager_init [1, 2, 3, 4, 5, 10] True 0 0x2540 None))"

lemma length_zero_pad: "length (zero_pad w s) = max w (length s)"
  by (simp add: zero_pad_def)

lemma decimal_int_pos: "1 \<le> length (decimal_int i)"
  by (cases "decimal_int i") (auto simp: decimal_int_def split: if_splits)

lemma yes_no_text: "\<exists>s. yes_no b = LStr s \<and> 2 \<le> length s"
  by (simp add: yes_no_def)

lemma device_line_text:
  assumes "length (dev_address d) = 6" and "dev_has_name d \<longrightarrow> c_string (dev_name d) \<noteq> []"
    and "l = (''[BT] - %s: RSSI=%d, CoD=0x%06lx, Name=%s, HID=%s, Bonded=%s, Connected=%s, SDP=%s, CtrlPSM=0x%04x, IntPSM=0x%04x'',
        [LAddr (dev_address d), LInt (sint (dev_rssi d)),
         LNum (unat (dev_class_of_device d)),
         LStr (if dev_has_name d then c_string (dev_name d) else ''<unknown>''),
         yes_no (dev_hid_supported d), yes_no (dev_bonded d),
         yes_no (dev_connected d),
         LStr (if dev_sdp_completed d then ''Done'' else ''No''),
         LNum (unat (dev_hid_control_psm d)),
         LNum (unat (dev_hid_interrupt_psm d))])"
  shows "\<exists>tx. printed_text l = Some (tx @ line_end) \<and> 126 \<le> length tx"
proof -
  obtain y1 y2 y3 where y: "yes_no (dev_hid_supported d) = LStr y1" "2 \<le> length y1"
    "yes_no (dev_bonded d) = LStr y2" "2 \<le> length y2" "yes_no (dev_connected d) = LStr y3" "2 \<le> length y3"
    using yes_no_text by meson
  define nm sdp where "nm = (if dev_has_name d then c_string (dev_name d) else ''<unknown>'')"
    and "sdp = (if dev_sdp_completed d then ''Done'' else ''No'')"
  have n: "1 \<le> length nm" "2 \<le> length sdp" using assms(2) by (auto simp: nm_def sdp_def Suc_le_eq)
  have a: "length (address_text upper_digit (dev_address d)) = 17"
    using assms(1) by (subst length_address_text) auto
  show ?thesis unfolding assms(3) printed_text_def line_end_def y(1,3,5) nm_def [symmetric] sdp_def [symmetric]
    using a n y(2,4,6) decimal_int_pos [of "sint (dev_rssi d)"]
    by (simp add: length_zero_pad)
qed

text \<open>
  C37. A line of the device list never arrives whole: the text for any device with a name of at least
  one character, or with none, needs more than the 127 bytes of a message, so the line end is cut off and
  the next message continues the same line.
\<close>

theorem device_line_cut:
  assumes "devices_typed m" and "\<forall>d\<in>set (take (dm_count m) (dm_devices m)). dev_has_name d \<longrightarrow> c_string (dev_name d) \<noteq> []"
    and "l \<in> set (tl (device_manager_print_devices m))"
    and "sl_wf u" and "log_count u + 127 \<le> USB_SERIAL_LOG_BUFFER_SIZE"
  shows "\<exists>tx u'. printed_text l = Some (tx @ line_end) \<and>
    Usb_Serial.usb_serial_printf True (fst l @ line_end) (snd l) u = Some u' \<and>
    log_contents u' = log_contents u @ map byte_of_char (take 127 (tx @ line_end)) \<and>
    127 < length (tx @ line_end)"
proof -
  from assms(3) obtain d where d: "d \<in> set (take (dm_count m) (dm_devices m))"
    "l = (''[BT] - %s: RSSI=%d, CoD=0x%06lx, Name=%s, HID=%s, Bonded=%s, Connected=%s, SDP=%s, CtrlPSM=0x%04x, IntPSM=0x%04x'',
        [LAddr (dev_address d), LInt (sint (dev_rssi d)), LNum (unat (dev_class_of_device d)),
         LStr (if dev_has_name d then c_string (dev_name d) else ''<unknown>''),
         yes_no (dev_hid_supported d), yes_no (dev_bonded d), yes_no (dev_connected d),
         LStr (if dev_sdp_completed d then ''Done'' else ''No''),
         LNum (unat (dev_hid_control_psm d)), LNum (unat (dev_hid_interrupt_psm d))])"
    unfolding device_manager_print_devices_def by auto
  have "length (dev_address d) = 6" using assms(1) d(1) by (auto simp: devices_typed_def dest: in_set_takeD)
  from device_line_text [OF this _ d(2)] assms(2) d(1) obtain tx where
    tx: "printed_text l = Some (tx @ line_end)" "126 \<le> length tx" by blast
  then have f: "format_text (fst l @ line_end) (snd l) = Some (tx @ line_end)" by (simp add: printed_text_def)
  have "length (log_message (tx @ line_end)) \<le> USB_SERIAL_LOG_BUFFER_SIZE - log_count u"
    using assms(5) by (simp add: log_message_def)
  with usb_serial_printf_spec [OF assms(4) f] tx show ?thesis
    by (auto simp: log_message_def line_end_def)
qed

theorem device_line_cut_witness:
  "\<exists>tx u'. printed_text (device_manager_print_devices demo_found ! 1) = Some (tx @ line_end) \<and>
    log_contents u' = log_contents usb_log_boot @ map byte_of_char (take 127 (tx @ line_end)) \<and> 127 < length (tx @ line_end)"
proof -
  have "sl_wf usb_log_boot" by (simp add: sl_wf_def usb_log_boot_def USB_SERIAL_LOG_BUFFER_SIZE_def)
  moreover have "log_count usb_log_boot + 127 \<le> USB_SERIAL_LOG_BUFFER_SIZE"
    by (simp add: usb_log_boot_def USB_SERIAL_LOG_BUFFER_SIZE_def)
  moreover have "devices_typed demo_found" by code_simp
  moreover have "\<forall>d\<in>set (take (dm_count demo_found) (dm_devices demo_found)). dev_has_name d \<longrightarrow> c_string (dev_name d) \<noteq> []"
    by code_simp
  moreover have "device_manager_print_devices demo_found ! 1 \<in> set (tl (device_manager_print_devices demo_found))"
    by code_simp
  ultimately show ?thesis using device_line_cut [of demo_found "device_manager_print_devices demo_found ! 1" usb_log_boot]
    by blast
qed

end
