(* ===== verification/Log_Growth.thy ===== *)
theory Log_Growth
  imports Log_Messages "HOL-Library.Sublist"
begin

text \<open>
  The list of messages of the Bluetooth application is only extended: every event keeps what was printed
  before and appends to it. The proofs are rules of the form "a list that was a prefix of the messages
  is one after the operation".
\<close>

definition printed :: "log_line list \<Rightarrow> bt_app \<Rightarrow> bool" where
  "printed lines a \<longleftrightarrow> prefix lines (app_log a)"

lemma printed_self: "printed (app_log a) a"
  by (simp add: printed_def)

lemma printed_cong: "app_log a = app_log b \<Longrightarrow> printed ls a = printed ls b"
  by (simp add: printed_def)

lemma printed_append [simp, intro]: "printed ls a \<Longrightarrow> printed ls (a\<lparr>app_log := app_log a @ lines\<rparr>)"
  by (simp add: printed_def)

lemma printed_printf [simp, intro]: "printed ls a \<Longrightarrow> printed ls (usb_serial_printf fmt args a)"
  by (simp add: printed_def usb_serial_printf_def)

lemma printed_updates [simp]:
  "printed ls (a\<lparr>local_address := v0\<rparr>) = printed ls a"
  "printed ls (a\<lparr>connected_device_addr := v1\<rparr>) = printed ls a"
  "printed ls (a\<lparr>connecting_device_addr := v2\<rparr>) = printed ls a"
  "printed ls (a\<lparr>connecting_device_valid := v3\<rparr>) = printed ls a"
  "printed ls (a\<lparr>connection_cancel_requested := v4\<rparr>) = printed ls a"
  "printed ls (a\<lparr>stack_working := v5\<rparr>) = printed ls a"
  "printed ls (a\<lparr>startup_logged := v6\<rparr>) = printed ls a"
  "printed ls (a\<lparr>current_state := v7\<rparr>) = printed ls a"
  "printed ls (a\<lparr>inquiry_count := v8\<rparr>) = printed ls a"
  "printed ls (a\<lparr>inquiry_timer_armed := v9\<rparr>) = printed ls a"
  "printed ls (a\<lparr>acl_handle := v10\<rparr>) = printed ls a"
  "printed ls (a\<lparr>selected_device_addr := v11\<rparr>) = printed ls a"
  "printed ls (a\<lparr>selected_device_valid := v12\<rparr>) = printed ls a"
  "printed ls (a\<lparr>auto_connect_enabled := v13\<rparr>) = printed ls a"
  "printed ls (a\<lparr>pairing_pin_pending := v14\<rparr>) = printed ls a"
  "printed ls (a\<lparr>pairing_pin_timer_armed := v15\<rparr>) = printed ls a"
  "printed ls (a\<lparr>calls := v16\<rparr>) = printed ls a"
  "printed ls (a\<lparr>device_manager := v17\<rparr>) = printed ls a"
  "printed ls (a\<lparr>hid_channels := v18\<rparr>) = printed ls a"
  "printed ls (a\<lparr>sdp_parser := v19\<rparr>) = printed ls a"
  "printed ls (a\<lparr>command_buffer := v20\<rparr>) = printed ls a"
  "printed ls (a\<lparr>command_length := v21\<rparr>) = printed ls a"
  "printed ls (a\<lparr>control_requests := v22\<rparr>) = printed ls a"
  "printed ls (a\<lparr>keyboard := v23\<rparr>) = printed ls a"
  by (simp_all add: printed_def)

lemma printed_calls [simp]:
  "printed ls (bt_call c a) = printed ls a"
  "printed ls (clear_pairing_pin a) = printed ls a"
  "printed ls (show_pairing_pin a) = printed ls a"
  "printed ls (cancel_inquiry_timer a) = printed ls a"
  "printed ls (snd (store_selected_device env ad a)) = printed ls a"
  "printed ls (delete_selected_device env a) = printed ls a"
  "printed ls (modify_device i f a) = printed ls a"
  "printed ls (reset_hid_channels a) = printed ls a"
  by (rule printed_cong; simp)+

lemma printed_keyboard [simp, intro]: "printed ls a \<Longrightarrow> printed ls (keyboard_action f a)"
  by (cases "f (keyboard a)") (simp add: keyboard_action_def printed_def)

lemma printed_transition [simp, intro]: "printed ls a \<Longrightarrow> printed ls (transition_to_state s a)"
  by (auto simp: transition_to_state_def Let_def)

lemma printed_more [simp, intro]:
  "printed ls a \<Longrightarrow> printed ls (start_idle_timer a)"
  "printed ls a \<Longrightarrow> printed ls (start_inquiry a)"
  "printed ls a \<Longrightarrow> printed ls (log_device d a)"
  "printed ls a \<Longrightarrow> printed ls (restore_saved_device env ad a)"
  "printed ls a \<Longrightarrow> printed ls (cancel_pending_connection env a)"
  "printed ls a \<Longrightarrow> printed ls (schedule_keyboard_led_report env a)"
  "printed ls a \<Longrightarrow> printed ls (release_usb_keyboard a)"
  by (simp_all add: start_idle_timer_def start_inquiry_def log_device_def restore_saved_device_def
    cancel_pending_connection_def get_link_key_def schedule_keyboard_led_report_def release_usb_keyboard_def
    bt_status_call_def Let_def split: prod.split option.split)

lemma printed_begin [simp, intro]: "printed ls a \<Longrightarrow> printed ls (snd (begin_connection env ad a))"
  by (simp add: begin_connection_def bt_status_call_def Let_def)

lemma printed_error [simp, intro]: "printed ls a \<Longrightarrow> printed ls (disconnect_acl_after_error st e a)"
  by (simp add: disconnect_acl_after_error_def Let_def)

lemma printed_open [simp, intro]:
  "printed ls a \<Longrightarrow> printed ls (open_interrupt_channel env a)"
  "printed ls a \<Longrightarrow> printed ls (open_control_channel env a)"
  "printed ls a \<Longrightarrow> printed ls (start_sdp_discovery env a)"
  by (simp_all add: open_interrupt_channel_def open_control_channel_def start_sdp_discovery_def bt_status_call_def Let_def
    split: option.split)

section \<open>Requests and the console\<close>

lemma printed_execute [simp, intro]: "printed ls a \<Longrightarrow> printed ls (execute_control_request env r a)"
  by (simp add: execute_control_request_def execute_scan_def execute_disconnect_def execute_forget_def
    execute_connect_def execute_reconnect_def Let_def split_beta split: bluetooth_control_action.split option.split)

lemma printed_run_requests: "run_control_requests env fuel a = Some a' \<Longrightarrow> printed ls a \<Longrightarrow> printed ls a'"
proof (induction fuel arbitrary: a)
  case 0
  then show ?case by (simp add: run_control_requests.simps split: option.splits prod.splits)
next
  case (Suc fuel)
  show ?case
  proof (cases "control_request_queue_pop (control_requests a)")
    case None
    with Suc.prems show ?thesis by (simp add: run_control_requests.simps)
  next
    case (Some p)
    obtain r q where p: "p = (r, q)" by (cases p)
    from Suc.IH [of "execute_control_request env r (a\<lparr>control_requests := q\<rparr>)"] Suc.prems Some p
    show ?thesis by (simp add: run_control_requests.simps [of env "Suc fuel"])
  qed
qed

lemma printed_console_char: "console_char a ch = Some a' \<Longrightarrow> printed ls a \<Longrightarrow> printed ls a'"
  by (auto simp: console_char_def submit_parsed_command_def bluetooth_control_submit_def Let_def
    split: if_splits Option.bind_splits option.splits prod.splits)

lemma printed_console: "console_input cs a = Some a' \<Longrightarrow> printed ls a \<Longrightarrow> printed ls a'"
  by (induction cs arbitrary: a) (auto split: Option.bind_splits dest: printed_console_char)

lemma printed_task:
  assumes "bluetooth_task env v i c a = Some a'" and "printed ls a"
  shows "printed ls a'"
proof -
  from assms(1) obtain b d where "console_input (map byte_char i) (schedule_keyboard_led_report env a) = Some b"
    "run_control_requests env CONTROL_REQUEST_QUEUE_CAPACITY b = Some d" "a' = log_startup v c d"
    by (auto simp: bluetooth_task_def split: Option.bind_splits)
  with assms(2) show ?thesis using printed_console printed_run_requests
    by (auto simp: log_startup_def Let_def)
qed

section \<open>Events\<close>

lemma printed_stack [simp, intro]:
  "printed ls a \<Longrightarrow> printed ls (on_stack_state env w a)"
  "printed ls a \<Longrightarrow> printed ls (on_inquiry_result env ad hr rssi cod name a)"
  by (simp_all add: on_stack_state_def on_inquiry_result_def get_link_key_def Let_def split: prod.split option.split)

lemma printed_inquiry_complete [simp, intro]: "printed ls a \<Longrightarrow> printed ls (on_inquiry_complete env a)"
  by (simp add: on_inquiry_complete_def Let_def split: option.split)

lemma printed_connection_complete [simp, intro]: "printed ls a \<Longrightarrow> printed ls (on_connection_complete s h ad a)"
  by (simp add: on_connection_complete_def Let_def split: option.split)

lemma printed_channels [simp, intro]:
  "printed ls a \<Longrightarrow> printed ls (on_channel_opened env s psm l r a)"
  "printed ls a \<Longrightarrow> printed ls (on_can_send_now env cid a)"
  "printed ls a \<Longrightarrow> printed ls (on_channel_closed cid a)"
  by (simp_all add: on_channel_opened_def on_can_send_now_def on_channel_closed_def bt_status_call_def Let_def
    split: option.split prod.split)

lemma printed_security [simp, intro]:
  "printed ls a \<Longrightarrow> printed ls (on_security_level env h s l a)"
  "printed ls a \<Longrightarrow> printed ls (on_authentication_complete h s a)"
  "printed ls a \<Longrightarrow> printed ls (on_encryption_change env h s e a)"
  "printed ls a \<Longrightarrow> printed ls (on_disconnection_complete h r a)"
  by (simp_all add: on_security_level_def on_authentication_complete_def on_encryption_change_def
    on_disconnection_complete_def handle_disconnected_state_def Let_def)

lemma printed_pairing [simp, intro]:
  "printed ls a \<Longrightarrow> printed ls (on_pin_code_request env ad a)"
  "printed ls a \<Longrightarrow> printed ls (on_link_key_request env ad a)"
  by (simp_all add: on_pin_code_request_def on_link_key_request_def get_link_key_def bt_status_call_def Let_def
    split: prod.split option.split)

lemma printed_link_key: "on_link_key_notification env ad p a = Some a' \<Longrightarrow> printed ls a \<Longrightarrow> printed ls a'"
  by (auto simp: on_link_key_notification_def get_link_key_def Let_def split: if_splits Option.bind_splits option.splits)

lemma printed_hci_event: "handle_hci_event env e a = Some a' \<Longrightarrow> printed ls a \<Longrightarrow> printed ls a'"
  by (cases e) (auto simp: handle_hci_event_def dest: printed_link_key)

lemma printed_control_data: "handle_control_data env p a = Some a' \<Longrightarrow> printed ls a \<Longrightarrow> printed ls a'"
  by (auto simp: handle_control_data_def Let_def split: if_splits Option.bind_splits)

lemma printed_hid_data: "handle_hid_data_packet env ch p a = Some a' \<Longrightarrow> printed ls a \<Longrightarrow> printed ls a'"
  by (auto simp: handle_hid_data_packet_def dest: printed_control_data
      split: if_splits Option.bind_splits hid_boot_parse_result.splits)

lemma printed_packet: "hci_event_handler env p a = Some a' \<Longrightarrow> printed ls a \<Longrightarrow> printed ls a'"
  by (cases p) (auto simp: hci_event_handler_def dest: printed_hci_event printed_hid_data)

lemma printed_sdp_lines: "printed ls a \<Longrightarrow> printed ls (a\<lparr>sdp_parser := p, app_log := app_log a @ lines\<rparr>)"
  by (simp add: printed_def)

lemma printed_sdp_attribute: "handle_sdp_attribute aid n i b a = Some a' \<Longrightarrow> printed ls a \<Longrightarrow> printed ls a'"
  by (auto simp: handle_sdp_attribute_def Let_def printed_sdp_lines split: Option.bind_splits option.splits)

lemma printed_sdp_complete [simp, intro]: "printed ls a \<Longrightarrow> printed ls (handle_sdp_complete env status a)"
  by (simp add: handle_sdp_complete_def Let_def split: option.split)

lemma printed_sdp: "handle_sdp_client_query_result env ev a = Some a' \<Longrightarrow> printed ls a \<Longrightarrow> printed ls a'"
  by (cases ev) (auto simp: handle_sdp_client_query_result_def dest: printed_sdp_attribute)

lemma printed_timers [simp, intro]:
  "printed ls a \<Longrightarrow> printed ls (inquiry_timer_handler env a)"
  "printed ls a \<Longrightarrow> printed ls (pairing_pin_timeout a)"
  by (simp_all add: inquiry_timer_handler_def pairing_pin_timeout_def Let_def)

lemma apply_prints:
  assumes "bt_apply env e a = Some a'"
  shows "prefix (app_log a) (app_log a')"
proof -
  have "printed ls a \<Longrightarrow> printed ls a'" for ls
    using assms by (cases e) (auto simp: bt_apply_def bluetooth_control_submit_def bluetooth_set_keyboard_leds_def
      Let_def split_beta dest: printed_packet printed_sdp printed_task)
  from this [OF printed_self] show ?thesis by (simp add: printed_def)
qed

end
