(* ===== verification/Firmware_Flow.thy ===== *)
theory Firmware_Flow
  imports Firmware Key_Forwarding Console_Task Device_Lines Log_Growth
begin

text \<open>
  The firmware as a whole, over whole runs: it never stops, the host gets the keyboard's reports, and
  the serial port gets the messages.
\<close>

section \<open>Runs from the start\<close>

text \<open>What \<open>main\<close> sets up, when the libraries keep to what they promise.\<close>

definition firmware_started :: "fw_env \<Rightarrow> firmware \<Rightarrow> bool" where
  "firmware_started env fw \<longleftrightarrow> env_typed (fe_btstack env) \<and> length (fe_html env) < 65536 \<and>
     (\<exists>ba connected. main_init env ba connected = Some (Inr fw))"

lemma started_ok:
  assumes "firmware_started env fw"
  shows "fw_ok env fw"
proof -
  from assms obtain ba connected where i: "main_init env ba connected = Some (Inr fw)"
    "env_typed (fe_btstack env)" "length (fe_html env) < 65536" by (auto simp: firmware_started_def)
  then have "ba_usb ba" by (auto simp: main_init_def split: if_splits)
  with main_init_ok [of env ba connected] i show ?thesis by auto
qed

lemma started_run_ok:
  assumes "firmware_started env fw" and "allowed_run (fw_step env) fw_delivers es fw"
    and "run_events (fw_step env) es fw = Some fw'"
  shows "fw_ok env fw'"
  by (rule fw_events.run_invar [OF started_ok [OF assms(1)] assms(2,3)])

section \<open>Reports on their way to the host\<close>

text \<open>The report that an event of the main loop carries: a valid boot report in an L2CAP packet.\<close>

definition reports_in :: "bool \<times> fw_event \<Rightarrow> keyboard_report list" where
  "reports_in ce =
     (case snd ce of
        Fw_Bluetooth (Packet (L2CAP_DATA_PACKET channel packet)) \<Rightarrow>
          (case hid_boot_keyboard_parse_input (Some packet) (length packet) zero_boot_report of
             Some (HID_BOOT_PARSE_OK, r) \<Rightarrow> [\<lparr>kr_modifier = br_modifier r, kr_keycodes = br_keycodes r\<rparr>]
           | _ \<Rightarrow> [])
      | _ \<Rightarrow> [])"

abbreviation on_the_way :: "firmware \<Rightarrow> keyboard_report list" where
  "on_the_way fw \<equiv> fw_reports fw @ kq_contents (keyboard (fw_app fw))"

abbreviation keys_only :: "keyboard_report list \<Rightarrow> keyboard_report list" where
  "keys_only \<equiv> filter (\<lambda>r. r \<noteq> zero_report)"

lemma kept_keys:
  assumes "kq_wf k" and "k' \<in> kept k"
  shows "subseq (keys_only (sent @ kq_contents k')) (keys_only (sent @ kq_contents k))"
  using assms released_contents [of k] by (auto simp: kept_def)

lemma sent_keys:
  assumes "kq_wf k"
  shows "subseq (keys_only (sent @ kq_contents (kq_put k r))) (keys_only (sent @ kq_contents k) @ keys_only [r])"
  using kq.put_contents [OF assms, of r] list_emb_append_mono [OF subseq_order.order_refl list_emb_append2]
  by (auto simp: Let_def)

lemma event_keyboard:
  assumes "bt_apply env e a = Some a'"
  shows "keyboard a' \<in> kept (keyboard a) \<or>
    (\<exists>r. reports_in (c, Fw_Bluetooth e) = [r] \<and> keyboard a' = kq_put (keyboard a) r)"
proof (cases e)
  case (Packet p)
  show ?thesis
  proof (cases p)
    case (HCI_EVENT_PACKET ev)
    with assms Packet kept_hci_event [of env ev a a'] show ?thesis
      by (simp add: bt_apply_def hci_event_handler_def)
  next
    case (L2CAP_DATA_PACKET channel packet)
    with assms Packet have h: "handle_hid_data_packet env channel packet a = Some a'"
      by (simp add: bt_apply_def hci_event_handler_def)
    show ?thesis
    proof (cases "keyboard a' \<in> kept (keyboard a)")
      case False
      with keyboard_hid_data [OF h] obtain r where
        "hid_boot_keyboard_parse_input (Some packet) (length packet) zero_boot_report = Some (HID_BOOT_PARSE_OK, r)"
        "keyboard a' = fst (keyboard_send_report (br_modifier r) (br_keycodes r) (keyboard a))" by blast
      then show ?thesis unfolding Packet L2CAP_DATA_PACKET by (simp add: reports_in_def kq_put_def)
    qed simp
  next
    case OTHER_PACKET
    with assms Packet show ?thesis by (simp add: bt_apply_def hci_event_handler_def)
  qed
next
  case (Sdp ev)
  with assms show ?thesis by (auto simp: bt_apply_def dest: kept_sdp_event)
next
  case (Task v i c)
  with assms show ?thesis by (auto simp: bt_apply_def dest: keyboard_task)
qed (use assms in \<open>auto simp: bt_apply_def inquiry_timer_handler_def pairing_pin_timeout_def
  bluetooth_control_submit_def bluetooth_set_keyboard_leds_def Let_def split: prod.splits\<close>)

lemma fw_print_fields:
  assumes "fw_print connected lines fw = Some fw'"
  shows "fw_web fw' = fw_web fw \<and> fw_reports fw' = fw_reports fw"
  using assms by (auto simp: fw_print_def split: Option.bind_splits)

lemma submitted_keyboard: "submitted a a' \<Longrightarrow> keyboard a' = keyboard a"
  by (auto simp: submitted_def bluetooth_control_submit_def Let_def split_beta)

lemma step_keys:
  assumes ok: "fw_ok env fw" and d: "fw_delivers fw ce" and s: "fw_step env ce fw = Some fw'"
  shows "subseq (keys_only (on_the_way fw')) (keys_only (on_the_way fw) @ keys_only (reports_in ce))"
proof -
  obtain connected ev where ce: "ce = (connected, ev)" by (cases ce)
  have kq: "kq_wf (keyboard (fw_app fw))" using ok by (simp add: fw_ok_def app_ok_def app_wfD(3))
  have weak: "subseq xs (ys @ zs)" if "subseq xs ys" for xs ys zs :: "keyboard_report list"
    using that by (rule subseq_rev_drop_many)
  have same: ?thesis if "on_the_way fw' = on_the_way fw"
    unfolding that by (rule weak [OF subseq_order.order_refl])
  show ?thesis
  proof (cases ev)
    case (Fw_Bluetooth e)
    from s ce Fw_Bluetooth obtain a where a: "bt_apply (fe_btstack env) e (fw_app fw) = Some a"
      "fw_app fw' = a" "fw_reports fw' = fw_reports fw"
      by (auto simp: fw_step_def fw_bluetooth_def set_app_def dest!: fw_print_fields split: Option.bind_splits)
    from event_keyboard [OF a(1), of connected] consider
      "keyboard a \<in> kept (keyboard (fw_app fw))" |
      r where "reports_in ce = [r]" "keyboard a = kq_put (keyboard (fw_app fw)) r"
      unfolding ce Fw_Bluetooth by blast
    then show ?thesis
    proof cases
      case 1
      show ?thesis unfolding a(2,3) by (rule weak [OF kept_keys [OF kq 1]])
    next
      case (2 r)
      show ?thesis unfolding a(2,3) 2 by (rule sent_keys [OF kq])
    qed
  next
    case (Fw_Http e)
    from s ce Fw_Http obtain w where w: "web_apply (fe_lwip env) (fe_version env) (fe_html env) e (fw_web fw) = Some w"
      "fw_web fw' = w" "fw_reports fw' = fw_reports fw"
      by (auto simp: fw_step_def fw_http_def dest!: fw_print_fields split: Option.bind_splits)
    have "ds_wf (ws_dhcp (fw_web fw))" "lwip_delivers (fw_web fw) e"
      using ok d ce Fw_Http by (simp_all add: fw_ok_def ws_ok_def fw_delivers_def)
    from web_apply_frame [OF w(1) this] have "keyboard (ws_app w) = keyboard (fw_app fw)"
      by (blast dest: submitted_keyboard)
    with w show ?thesis by (intro same) simp
  next
    case (Fw_Set_Report out buffer n)
    with s ce have "keyboard (fw_app fw') = keyboard (fw_app fw) \<and> fw_reports fw' = fw_reports fw"
      by (auto simp: fw_step_def fw_set_report_def set_app_def bluetooth_set_keyboard_leds_def
        dest!: fw_print_fields split: Option.bind_splits option.splits)
    then show ?thesis by (intro same) simp
  next
    case (Fw_Keyboard cdc ready accepts)
    obtain report k lines where t: "hid_keyboard_task_send ready accepts (keyboard (fw_app fw)) = (report, k, lines)"
      by (cases "hid_keyboard_task_send ready accepts (keyboard (fw_app fw))")
    from s ce Fw_Keyboard t have "keyboard (fw_app fw') = k"
      "fw_reports fw' = fw_reports fw @ (case report of None \<Rightarrow> [] | Some r \<Rightarrow> [r])"
      by (auto simp: fw_step_def hid_keyboard_task_def set_app_def Let_def dest!: fw_print_fields split: Option.bind_splits)
    with task_send_contents [OF kq t] have "on_the_way fw' = on_the_way fw" by (auto split: option.splits)
    then show ?thesis by (intro same) simp
  qed
qed

lemma run_keys:
  assumes "fw_ok env fw" and "allowed_run (fw_step env) fw_delivers es fw"
    and "run_events (fw_step env) es fw = Some fw'"
  shows "subseq (keys_only (on_the_way fw')) (keys_only (on_the_way fw) @ keys_only (concat (map reports_in es)))"
  using assms
proof (induction es arbitrary: fw)
  case (Cons e es)
  from Cons.prems obtain v where v: "fw_step env e fw = Some v" "allowed_run (fw_step env) fw_delivers es v"
    "run_events (fw_step env) es v = Some fw'" and d: "fw_delivers fw e" by (auto split: Option.bind_splits)
  with fw_step_ok [OF Cons.prems(1) d] have "fw_ok env v" by auto
  note next_keys = Cons.IH [OF this v(2,3)]
  from list_emb_append_mono [OF step_keys [OF Cons.prems(1) d v(1)] subseq_order.order_refl]
  have "subseq (keys_only (on_the_way v) @ keys_only (concat (map reports_in es)))
    (keys_only (on_the_way fw) @ keys_only (concat (map reports_in (e # es))))"
    by (simp only: list.map concat.simps filter_append append_assoc)
  with next_keys show ?case by (rule subseq_order.order_trans)
qed simp

lemma started_nothing_waits:
  assumes "firmware_started env fw"
  shows "on_the_way fw = []"
proof -
  from assms obtain ba connected where i: "main_init env ba connected = Some (Inr fw)"
    "env_typed (fe_btstack env)" "length (fe_html env) < 65536" by (auto simp: firmware_started_def)
  then have "ba_usb ba" by (auto simp: main_init_def split: if_splits)
  with main_init_ok [of env ba connected] i show ?thesis by auto
qed


section \<open>The serial port\<close>

lemma started_serial:
  assumes "firmware_started env fw" and "allowed_run (fw_step env) fw_delivers es fw"
    and "run_events (fw_step env) es fw = Some fw'"
  shows "\<exists>ms. fw_sent fw' @ log_contents (fw_serial fw') = concat ms \<and> subseq ms (serial_messages (fw_ops fw'))"
proof -
  have s: "serial_run (fw_ops fw') usb_log_boot = Some (fw_serial fw', fw_sent fw')" "\<forall>op\<in>set (fw_ops fw'). serial_op_ok op"
    using started_run_ok [OF assms] by (simp_all add: fw_ok_def serial_ok_def)
  have "sl_wf usb_log_boot" "log_contents usb_log_boot = []"
    by (simp_all add: sl_wf_def log_contents_def usb_log_boot_def USB_SERIAL_LOG_BUFFER_SIZE_def)
  with serial_run_stream [OF _ s(2), of usb_log_boot] s(1) show ?thesis by auto
qed

definition with_line_end :: "log_line \<Rightarrow> log_line" where
  "with_line_end l = (fst l @ line_end, snd l)"

fun printed_lines :: "serial_op list \<Rightarrow> log_line list" where
  "printed_lines [] = []"
| "printed_lines (Serial_Print connected format args # ops) = (format, args) # printed_lines ops"
| "printed_lines (Serial_Task connected cdc # ops) = printed_lines ops"

lemma printed_lines_append [simp]: "printed_lines (ops @ ops') = printed_lines ops @ printed_lines ops'"
  by (induction ops rule: printed_lines.induct) simp_all

lemma printed_lines_ops [simp]: "printed_lines (map (print_op connected) lines) = map with_line_end lines"
  by (induction lines) (simp_all add: print_op_def with_line_end_def)

text \<open>Every message of the two components that keep a list of them was offered to the serial log.\<close>

definition all_offered :: "firmware \<Rightarrow> bool" where
  "all_offered fw \<longleftrightarrow> subseq (map with_line_end (app_log (fw_app fw))) (printed_lines (fw_ops fw)) \<and>
     subseq (map with_line_end (ws_log (fw_web fw))) (printed_lines (fw_ops fw))"

lemma subseq_grow: "subseq xs ys \<Longrightarrow> subseq (xs @ zs) (ys @ zs)" "subseq xs ys \<Longrightarrow> subseq xs (ys @ zs)"
  by (simp, rule subseq_rev_drop_many)

lemma fw_print_ops:
  assumes "fw_print connected lines fw = Some fw'"
  shows "fw_web fw' = fw_web fw \<and> printed_lines (fw_ops fw') = printed_lines (fw_ops fw) @ map with_line_end lines"
  using assms by (auto simp: fw_print_def split: Option.bind_splits)

lemma submitted_log: "submitted a a' \<Longrightarrow> app_log a' = app_log a"
  by (auto simp: submitted_def bluetooth_control_submit_def Let_def split_beta)

lemma all_offered_step:
  assumes ok: "fw_ok env fw" and d: "fw_delivers fw ce" and s: "fw_step env ce fw = Some fw'" and o: "all_offered fw"
  shows "all_offered fw'"
proof -
  obtain connected ev where ce: "ce = (connected, ev)" by (cases ce)
  have same: "all_offered fw'" if "app_log (fw_app fw') = app_log (fw_app fw)" "ws_log (fw_web fw') = ws_log (fw_web fw)"
      "printed_lines (fw_ops fw') = printed_lines (fw_ops fw) @ ls" for ls
    using o that by (simp add: all_offered_def subseq_grow(2))
  show ?thesis
  proof (cases ev)
    case (Fw_Bluetooth e)
    from s ce Fw_Bluetooth obtain a where a: "bt_apply (fe_btstack env) e (fw_app fw) = Some a"
      "fw_print connected (drop (length (app_log (fw_app fw))) (app_log a)) (set_app a fw) = Some fw'"
      by (auto simp: fw_step_def fw_bluetooth_def split: Option.bind_splits)
    define ls where "ls = drop (length (app_log (fw_app fw))) (app_log a)"
    have l: "app_log a = app_log (fw_app fw) @ ls"
      using apply_prints [OF a(1)] by (auto simp: ls_def prefix_def)
    from fw_print_ops [OF a(2) [folded ls_def]] l o show ?thesis
      by (simp add: all_offered_def set_app_def subseq_grow)
  next
    case (Fw_Http e)
    from s ce Fw_Http obtain w where w: "web_apply (fe_lwip env) (fe_version env) (fe_html env) e (fw_web fw) = Some w"
      "fw_print connected (drop (length (ws_log (fw_web fw))) (ws_log w)) (fw\<lparr>fw_web := w\<rparr>) = Some fw'"
      by (auto simp: fw_step_def fw_http_def split: Option.bind_splits)
    have "ds_wf (ws_dhcp (fw_web fw))" "lwip_delivers (fw_web fw) e"
      using ok d ce Fw_Http by (simp_all add: fw_ok_def ws_ok_def fw_delivers_def)
    from web_apply_frame [OF w(1) this] obtain ls where
      l: "app_log (ws_app w) = app_log (fw_app fw)" "ws_log w = ws_log (fw_web fw) @ ls" by (blast dest: submitted_log)
    from fw_print_ops [OF w(2)] l o show ?thesis by (simp add: all_offered_def subseq_grow)
  next
    case (Fw_Set_Report out buffer n)
    from s ce Fw_Set_Report obtain leds lines fw1 where f: "fw_print connected lines fw = Some fw1"
      "fw' = (case leds of None \<Rightarrow> fw1 | Some b \<Rightarrow> set_app (bluetooth_set_keyboard_leds b (fw_app fw1)) fw1)"
      by (auto simp: fw_step_def fw_set_report_def split: Option.bind_splits)
    have "fw_ops fw' = fw_ops fw1" "app_log (fw_app fw') = app_log (fw_app fw1)" "ws_log (fw_web fw') = ws_log (fw_web fw1)"
      by (simp_all add: f(2) set_app_def bluetooth_set_keyboard_leds_def split: option.split)
    with fw_print_ops [OF f(1)] show ?thesis by (intro same) simp_all
  next
    case (Fw_Keyboard cdc ready accepts)
    from s ce Fw_Keyboard obtain k lines fw1 where f: "fw_print connected lines (set_app ((fw_app fw)\<lparr>keyboard := k\<rparr>) fw1) = Some fw'"
      "fw_web fw1 = fw_web fw" "fw_ops fw1 = fw_ops fw @ [Serial_Task connected cdc]"
      by (auto simp: fw_step_def hid_keyboard_task_def Let_def split_beta split: Option.bind_splits)
    from fw_print_ops [OF f(1)] f(2,3) show ?thesis by (intro same) (simp_all add: set_app_def)
  qed
qed

lemma all_offered_run:
  assumes "fw_ok env fw" and "allowed_run (fw_step env) fw_delivers es fw"
    and "run_events (fw_step env) es fw = Some fw'" and "all_offered fw"
  shows "all_offered fw'"
  using assms
proof (induction es arbitrary: fw)
  case (Cons e es)
  from Cons.prems obtain v where v: "fw_step env e fw = Some v" "allowed_run (fw_step env) fw_delivers es v"
    "run_events (fw_step env) es v = Some fw'" and d: "fw_delivers fw e" by (auto split: Option.bind_splits)
  with fw_step_ok [OF Cons.prems(1) d] have "fw_ok env v" by auto
  from Cons.IH [OF this v(2,3) all_offered_step [OF Cons.prems(1) d v(1) Cons.prems(4)]] show ?case .
qed simp

lemma main_init_steps:
  assumes "main_init env ba connected = Some (Inr fw)"
  obtains fw1 w where "fw_print connected (app_log (bluetooth_init (fe_btstack env) bt_app_boot))
      (set_app (bluetooth_init (fe_btstack env) bt_app_boot) firmware_boot) = Some fw1"
    and "w = snd (web_config_init (ba_udp ba) (ba_tcp ba) (ba_bound ba) (ba_listening ba) (fw_web fw1))"
    and "fw_print connected (ws_log w) (fw1\<lparr>fw_web := w\<rparr>) = Some fw"
proof -
  define a where "a = bluetooth_init (fe_btstack env) bt_app_boot"
  define fw0 where "fw0 = set_app a firmware_boot"
  define W :: "firmware \<Rightarrow> web_server" where "W f = snd (web_config_init (ba_udp ba) (ba_tcp ba) (ba_bound ba) (ba_listening ba) (fw_web f))" for f
  have "main_init env ba connected = (if ba_usb ba then do {
      fw1 \<leftarrow> fw_print connected (app_log a) fw0;
      fw \<leftarrow> fw_print connected (ws_log (W fw1)) (fw1\<lparr>fw_web := W fw1\<rparr>);
      Some (Inr fw)
    } else Some (Inl 1))" by (simp add: main_init_def Let_def split_beta a_def fw0_def W_def)
  with assms that show thesis
    by (auto simp flip: a_def fw0_def W_def split: if_splits Option.bind_splits)
qed

lemma web_init_app: "ws_app (snd (web_config_init udp tcp bound listening w)) = ws_app w"
  using web_init_frame [of udp tcp bound listening w] by (cases "web_config_init udp tcp bound listening w") simp

lemma started_offered:
  assumes "firmware_started env fw"
  shows "all_offered fw"
proof -
  from assms obtain ba connected where "main_init env ba connected = Some (Inr fw)" by (auto simp: firmware_started_def)
  then obtain fw1 w where p: "fw_print connected (app_log (bluetooth_init (fe_btstack env) bt_app_boot))
      (set_app (bluetooth_init (fe_btstack env) bt_app_boot) firmware_boot) = Some fw1"
    and w: "w = snd (web_config_init (ba_udp ba) (ba_tcp ba) (ba_bound ba) (ba_listening ba) (fw_web fw1))"
    and q: "fw_print connected (ws_log w) (fw1\<lparr>fw_web := w\<rparr>) = Some fw" by (rule main_init_steps)
  define a where "a = bluetooth_init (fe_btstack env) bt_app_boot"
  have "fw_web fw1 = web_boot a" "printed_lines (fw_ops fw1) = map with_line_end (app_log a)"
    using fw_print_ops [OF p] by (simp_all add: a_def set_app_def firmware_boot_def boot_web)
  moreover have "ws_app w = fw_app fw1" unfolding w by (rule web_init_app)
  moreover have "ws_app (web_boot a) = a" by (simp add: web_boot_def)
  ultimately show ?thesis
    using fw_print_ops [OF q] by (simp add: all_offered_def subseq_rev_drop_many list_emb_append2 del: web_boot_def)
qed

section \<open>From the web page to the radio\<close>

lemma calls_grow:
  "set (calls a) \<subseteq> set (calls (transition_to_state s a))" "set (calls a) \<subseteq> set (calls (start_idle_timer a))"
  "set (calls a) \<subseteq> set (calls (bt_call c a))" "calls (log_startup version connected a) = calls a"
  by (auto simp: transition_to_state_def start_idle_timer_def log_startup_def clear_pairing_pin_def bt_call_def Let_def)

lemma begin_connection_calls:
  assumes "current_state a = STATE_IDLE"
  shows "hci_create_connection ad \<in> set (calls (snd (begin_connection env ad a)))"
  using assms
  by (auto simp: begin_connection_def bt_status_call_def Let_def intro!: subsetD [OF calls_grow(1)] subsetD [OF calls_grow(2)])
    (simp_all add: bt_call_def)

lemma execute_connect_calls:
  assumes "device_manager_find (device_manager a) ad = Some i" and "dev_hid_supported (device_at a i)"
    and "current_state a = STATE_IDLE"
  shows "hci_create_connection ad \<in> set (calls (execute_connect env ad a)) \<and>
    selected_device_addr (execute_connect env ad a) = ad"
  using assms begin_connection_calls [of _ ad env]
  by (simp add: execute_connect_def Let_def split_beta)

lemma connect_served:
  assumes "app_wf a" and "crq_contents (control_requests a) = []" and "rq_action rq = BLUETOOTH_CONTROL_CONNECT"
    and "device_manager_find (device_manager a) (rq_address rq) = Some i" and "dev_hid_supported (device_at a i)"
    and "current_state a = STATE_IDLE"
  shows "\<exists>a' a''. bluetooth_control_submit rq a = (True, a') \<and> bluetooth_task env version [] connected a' = Some a'' \<and>
    hci_create_connection (rq_address rq) \<in> set (calls a'') \<and> selected_device_addr a'' = rq_address rq"
proof -
  obtain ok q where push: "control_request_queue_push (control_requests a) rq = (ok, q)"
    by (cases "control_request_queue_push (control_requests a) rq")
  have ok: ok "crq_contents q = [rq]"
    using crq.enq_result [OF app_wfD(4) [OF assms(1)] push] crq.enq_accepts_iff [OF app_wfD(4) [OF assms(1)], of rq]
      push assms(2) by (auto simp: CONTROL_REQUEST_QUEUE_CAPACITY_def)
  define a' where "a' = a\<lparr>control_requests := q\<rparr>"
  have submit: "bluetooth_control_submit rq a = (True, a')"
    using push ok(1) by (simp add: bluetooth_control_submit_def a'_def)
  have wf: "app_wf a'" using assms(1) crq.enq_result [OF app_wfD(4) [OF assms(1)] push] by (simp add: app_wf_def a'_def)
  have s: "schedule_keyboard_led_report env a' = a'" using assms(6) by (simp add: schedule_keyboard_led_report_def a'_def)
  have "length (crq_contents (control_requests a')) \<le> CONTROL_REQUEST_QUEUE_CAPACITY"
    using ok(2) by (simp add: a'_def CONTROL_REQUEST_QUEUE_CAPACITY_def del: length_crq_contents)
  from run_requests_serve [OF wf this, of env] ok(2)
  have r: "run_control_requests env CONTROL_REQUEST_QUEUE_CAPACITY a' = Some (serve_next env a' rq)" by (simp add: a'_def)
  define b where "b = a'\<lparr>control_requests := (case control_request_queue_pop q of Some (_, q) \<Rightarrow> q | None \<Rightarrow> q)\<rparr>"
  have "serve_next env a' rq = execute_connect env (rq_address rq) b"
    using assms(3) by (simp add: serve_next_def execute_control_request_def b_def a'_def cong: option.case_cong)
  with r s have t: "bluetooth_task env version [] connected a' = Some (log_startup version connected (execute_connect env (rq_address rq) b))"
    by (simp add: bluetooth_task_def)
  have "device_manager b = device_manager a" "current_state b = STATE_IDLE" using assms(6) by (simp_all add: b_def a'_def)
  with execute_connect_calls [of b "rq_address rq" i env] assms(4,5) submit t show ?thesis
    by (auto simp: calls_grow log_startup_def)
qed

section \<open>A run to look at\<close>

definition demo_env :: fw_env where
  "demo_env = \<lparr>fe_btstack = demo_btstack, fe_lwip = demo_lwip, fe_version = ''1.0'', fe_html = ''<html>''\<rparr>"

definition demo_boot :: boot_answers where
  "demo_boot = \<lparr>ba_usb = True, ba_udp = True, ba_tcp = True, ba_bound = True, ba_listening = True\<rparr>"

definition demo_inputs :: loop_inputs where
  "demo_inputs = \<lparr>li_connected = True, li_reports = [(True, True, Some [2], 1)],
     li_cdc = \<lparr>cdc_available = \<lambda>_. 64, cdc_write = \<lambda>_ bs. length bs\<rparr>, li_ready = True, li_accepts = \<lambda>_. True,
     li_polled = map Inl demo_events, li_input = []\<rparr>"

lemma demo_env_fields:
  "env_typed (fe_btstack demo_env)" "length (fe_html demo_env) < 65536" "ba_usb demo_boot"
  by (simp_all add: demo_env_def demo_boot_def env_typed_def demo_btstack_def)

lemma demo_started: "\<exists>fw. main_init demo_env demo_boot True = Some (Inr fw) \<and> firmware_started demo_env fw"
  using main_init_ok [OF demo_env_fields, of True] demo_env_fields(1,2) by (auto simp: firmware_started_def)

text \<open>Events that need no promise but the types of their arguments.\<close>

lemma allowed_local:
  assumes "\<And>ce fw. ce \<in> set es \<Longrightarrow> fw_delivers fw ce"
  shows "allowed_run (fw_step env) fw_delivers es fw"
  using assms by (induction es arbitrary: fw) (auto split: option.split)

lemma demo_allowed: "allowed_run (fw_step demo_env) fw_delivers (main_loop_events demo_env demo_inputs) fw"
proof -
  have "\<forall>e\<in>set demo_events. event_typed e" by (simp add: demo_events_def)
  then show ?thesis
    by (intro allowed_local) (auto simp: main_loop_events_def demo_inputs_def fw_delivers_def cdc_contract_def lwip_delivers_def)
qed

lemma demo_reports: "concat (map reports_in (main_loop_events demo_env demo_inputs)) = [\<lparr>kr_modifier = 0, kr_keycodes = [4, 0, 0, 0, 0, 0]\<rparr>]"
  by code_simp

lemma demo_loop_run:
  assumes "firmware_started demo_env fw"
  shows "\<exists>fw'. run_events (fw_step demo_env) (main_loop_events demo_env demo_inputs) fw = Some fw'"
  using fw_events.run_progress [OF started_ok [OF assms] demo_allowed] by blast

definition demo_connect :: string where
  "demo_connect = ''POST /api/connect?address=01:02:03:04:05:0a HTTP/1.1'' @ CRLF @ CRLF"

text \<open>An idle application that has found a keyboard.\<close>

definition demo_scanned :: bt_app where
  "demo_scanned = bt_app_boot\<lparr>current_state := STATE_IDLE,
     device_manager := demo_found\<rparr>"

lemma demo_scanned_wf: "app_wf demo_scanned"
proof -
  obtain res created m where u: "device_manager_upsert device_manager_init [1, 2, 3, 4, 5, 10] True 0 0x2540 None = (res, created, m)"
    by (cases "device_manager_upsert device_manager_init [1, 2, 3, 4, 5, 10] True 0 0x2540 None")
  from upsert_wf [OF dm_init_wf u] app_wf_boot show ?thesis by (simp add: app_wf_def demo_scanned_def demo_found_def u)
qed

lemma c_string_demo_connect: "c_string demo_connect = demo_connect"
  by code_simp

lemma main_loop_events_run:
  "main_loop env lis = run_events (fw_step env) (concat (map (main_loop_events env) lis))"
proof (induction lis)
  case (Cons li lis)
  show ?case by (rule ext) (simp add: run_events_append Cons.IH)
qed (simp add: fun_eq_iff)

section \<open>Properties\<close>



text \<open>
  C2. From the keyboard to the host, through the whole firmware: after any run of the main loop, the
  reports that TinyUSB took, followed by those still queued, are - releases of all keys aside - a
  subsequence of the valid boot reports that arrived over Bluetooth: nothing is invented, repeated or
  reordered, whatever the browsers, the console and the link did meanwhile.
\<close>

theorem host_gets_keyboard_reports:
  assumes "firmware_started env fw"
    and "allowed_run (fw_step env) fw_delivers es fw" and "run_events (fw_step env) es fw = Some fw'"
  shows "subseq (filter (\<lambda>r. r \<noteq> zero_report) (fw_reports fw' @ kq_contents (keyboard (fw_app fw'))))
    (concat (map reports_in es))"
proof -
  have "subseq (keys_only (on_the_way fw')) (keys_only (concat (map reports_in es)))"
    using run_keys [OF started_ok [OF assms(1)] assms(2,3)] started_nothing_waits [OF assms(1)] by simp
  then show ?thesis using subseq_filter_left subseq_order.order_trans by blast
qed

theorem host_gets_keyboard_reports_witness:
  "\<exists>fw fw'. main_init demo_env demo_boot True = Some (Inr fw) \<and>
    run_events (fw_step demo_env) (main_loop_events demo_env demo_inputs) fw = Some fw' \<and>
    subseq (filter (\<lambda>r. r \<noteq> zero_report) (fw_reports fw' @ kq_contents (keyboard (fw_app fw'))))
      [\<lparr>kr_modifier = 0, kr_keycodes = [4, 0, 0, 0, 0, 0]\<rparr>]"
proof -
  obtain fw where fw: "main_init demo_env demo_boot True = Some (Inr fw)" "firmware_started demo_env fw"
    using demo_started by blast
  from demo_loop_run [OF fw(2)] obtain fw' where
    run: "run_events (fw_step demo_env) (main_loop_events demo_env demo_inputs) fw = Some fw'" by blast
  from host_gets_keyboard_reports [OF fw(2) demo_allowed run] fw(1) run show ?thesis unfolding demo_reports by blast
qed

text \<open>
  C22. What the serial port carries: after any run of the firmware, the bytes handed to TinyUSB,
  followed by those still in the ring, are whole messages - each cut to at most 127 bytes - that the
  components printed, in the order in which they printed them; and every message of the Bluetooth
  application and of the access point is among those printed, in order.
\<close>

theorem firmware_serial_stream:
  assumes "firmware_started env fw"
    and "allowed_run (fw_step env) fw_delivers es fw" and "run_events (fw_step env) es fw = Some fw'"
  shows "(\<exists>ms. fw_sent fw' @ log_contents (fw_serial fw') = concat ms \<and> subseq ms (serial_messages (fw_ops fw'))) \<and>
    subseq (map with_line_end (app_log (fw_app fw'))) (printed_lines (fw_ops fw')) \<and>
    subseq (map with_line_end (ws_log (fw_web fw'))) (printed_lines (fw_ops fw'))"
  using started_serial [OF assms] all_offered_run [OF started_ok [OF assms(1)] assms(2,3) started_offered [OF assms(1)]]
  by (simp add: all_offered_def)

theorem firmware_serial_stream_witness:
  "\<exists>fw fw' ms. main_init demo_env demo_boot True = Some (Inr fw) \<and>
    run_events (fw_step demo_env) (main_loop_events demo_env demo_inputs) fw = Some fw' \<and>
    fw_sent fw' @ log_contents (fw_serial fw') = concat ms \<and> subseq ms (serial_messages (fw_ops fw'))"
proof -
  obtain fw where fw: "main_init demo_env demo_boot True = Some (Inr fw)" "firmware_started demo_env fw"
    using demo_started by blast
  from demo_loop_run [OF fw(2)] obtain fw' where
    run: "run_events (fw_step demo_env) (main_loop_events demo_env demo_inputs) fw = Some fw'" by blast
  from firmware_serial_stream [OF fw(2) demo_allowed run] fw(1) run show ?thesis by blast
qed



end
