(* ===== verification/Led_Sync.thy ===== *)
theory Led_Sync
  imports Key_Forwarding
begin

unbundle bit_operations_syntax

text \<open>
  The LEDs of the keyboard: whatever happens to the link, a keyboard that owes no LED report has been
  told the present LED state on its present connection, and a change gets through.
\<close>

section \<open>What an event does to the LED state\<close>

abbreviation led_state :: "bt_app \<Rightarrow> u8" where "led_state a \<equiv> hc_led_state (hid_channels a)"
abbreviation led_pending :: "bt_app \<Rightarrow> bool" where "led_pending a \<equiv> hc_led_report_pending (hid_channels a)"
abbreviation typing :: "bt_app \<Rightarrow> bool" where "typing a \<equiv> current_state a = STATE_HID_CONNECTED"

definition led_kept :: "bt_app \<Rightarrow> bt_app \<Rightarrow> bool" where
  "led_kept a a' \<longleftrightarrow> led_state a' = led_state a \<and> led_pending a' = led_pending a \<and> (typing a' \<longrightarrow> typing a)"

lemma led_reset [simp]: "led_state (reset_hid_channels a) = led_state a" "led_pending (reset_hid_channels a) = led_pending a"
  by (simp_all add: reset_hid_channels_def hid_channels_reset_connection_def)

lemma led_error [simp]:
  "led_state (disconnect_acl_after_error st e a) = led_state a"
  "led_pending (disconnect_acl_after_error st e a) = led_pending a"
  "typing (disconnect_acl_after_error st e a) \<longleftrightarrow> acl_handle a \<noteq> HCI_CON_HANDLE_INVALID \<and> typing a"
  by (simp_all add: disconnect_acl_after_error_def Let_def)

lemma led_open [simp]:
  "led_state (open_control_channel env a) = led_state a" "led_pending (open_control_channel env a) = led_pending a"
  "led_state (open_interrupt_channel env a) = led_state a" "led_pending (open_interrupt_channel env a) = led_pending a"
  "led_state (start_sdp_discovery env a) = led_state a" "led_pending (start_sdp_discovery env a) = led_pending a"
  "\<not> typing a \<Longrightarrow> \<not> typing (open_control_channel env a)" "\<not> typing a \<Longrightarrow> \<not> typing (open_interrupt_channel env a)"
  "\<not> typing a \<Longrightarrow> \<not> typing (start_sdp_discovery env a)"
  by (simp_all add: open_control_channel_def open_interrupt_channel_def start_sdp_discovery_def
    bt_status_call_def Let_def split: option.split)

lemma led_schedule [simp]:
  "led_state (schedule_keyboard_led_report env a) = led_state a"
  "led_pending (schedule_keyboard_led_report env a) = led_pending a"
  by (simp_all add: schedule_keyboard_led_report_def bt_status_call_def Let_def)

lemma led_begin [simp]: "typing (snd (begin_connection env ad a)) \<longleftrightarrow> typing a"
  by (simp add: begin_connection_def bt_status_call_def Let_def)

lemma led_inquiry [simp]: "\<not> typing a \<Longrightarrow> \<not> typing (start_inquiry a)"
  by (simp add: start_inquiry_def Let_def)

lemma led_startup: "led_kept a (log_startup v c a)"
  by (simp add: log_startup_def led_kept_def Let_def)

lemma led_kept_trans: "led_kept a b \<Longrightarrow> led_kept b c \<Longrightarrow> led_kept a c"
  by (simp add: led_kept_def)

lemma led_closed [simp]:
  "hc_led_state (snd (hid_channels_closed ch cid)) = hc_led_state ch"
  "hc_led_report_pending (snd (hid_channels_closed ch cid)) = hc_led_report_pending ch"
  by (simp_all add: hid_channels_closed_def Let_def)

lemma led_sdp_complete: "led_kept a (handle_sdp_complete env status a)"
  by (cases "typing a") (simp_all add: handle_sdp_complete_def led_kept_def Let_def split: option.split)

lemma led_sdp_event: "handle_sdp_client_query_result env e a = Some a' \<Longrightarrow> led_kept a a'"
  by (cases e) (auto simp: handle_sdp_client_query_result_def handle_sdp_attribute_def Let_def
    intro: led_sdp_complete led_kept_def [THEN iffD2] split: Option.bind_splits option.splits)

definition led_event :: "hci_event \<Rightarrow> bool" where
  "led_event e \<longleftrightarrow> (case e of L2CAP_EVENT_CAN_SEND_NOW _ \<Rightarrow> True | L2CAP_EVENT_CHANNEL_OPENED _ _ _ _ \<Rightarrow> True | _ \<Rightarrow> False)"

lemma led_hci_event:
  assumes "handle_hci_event env e a = Some a'" and "\<not> led_event e"
  shows "led_kept a a'"
proof -
  have "led_kept a (on_stack_state env w a)" for w
    by (simp add: on_stack_state_def led_kept_def Let_def)
  moreover have "led_kept a (on_inquiry_complete env a)"
    by (cases "typing a") (simp_all add: on_inquiry_complete_def led_kept_def Let_def split: option.split)
  moreover have "led_kept a (on_pin_code_request env ad a)" "led_kept a (on_link_key_request env ad a)" for ad
    by (simp_all add: on_pin_code_request_def on_link_key_request_def get_link_key_def bt_status_call_def led_kept_def
      Let_def split: option.split prod.split)
  moreover have "led_kept a (on_inquiry_result env ad h r c n a)" for ad h r c n
    by (simp add: on_inquiry_result_def get_link_key_def led_kept_def Let_def split: option.split prod.split)
  moreover have "led_kept a (on_connection_complete s h ad a)" for s h ad
    by (simp add: on_connection_complete_def led_kept_def Let_def split: option.split)
  moreover have "led_kept a (on_channel_closed c a)" for c
    by (simp add: on_channel_closed_def led_kept_def Let_def split_beta)
  moreover have "led_kept a (on_security_level env h s l a)"
    "led_kept a (on_authentication_complete h s a)"
    "led_kept a (on_encryption_change env h s en a)" for h s l en
    by (cases "typing a", simp_all add: on_security_level_def on_authentication_complete_def on_encryption_change_def led_kept_def Let_def)
  moreover have "led_kept a (on_disconnection_complete h s a)" for h s
    by (simp add: on_disconnection_complete_def handle_disconnected_state_def led_kept_def Let_def)
  moreover have "Some a' = on_link_key_notification env ad p a \<Longrightarrow> led_kept a a'" for ad p
    by (auto simp: on_link_key_notification_def get_link_key_def led_kept_def Let_def 
      split: if_splits Option.bind_splits option.splits prod.splits)
  moreover have "led_kept a a" "led_kept a (usb_serial_printf fmt args a)" for fmt args
    by (simp_all add: led_kept_def)
  ultimately show ?thesis
    using assms(1) [symmetric] assms(2) unfolding handle_hci_event_def led_event_def by (cases e) simp_all
qed

text \<open>Requests.\<close>

lemma led_execute: "led_kept a (execute_control_request env r a)"
proof -
  have "led_kept a (execute_connect env ad a)" for ad
    by (simp add: execute_connect_def led_kept_def Let_def split_beta split: option.split)
  moreover have "led_kept a (execute_reconnect env a)"
    by (simp add: execute_reconnect_def led_kept_def Let_def split_beta split: option.split)
  ultimately show ?thesis
    by (cases "rq_action r") (simp_all add: execute_control_request_def execute_scan_def execute_disconnect_def
      execute_forget_def led_kept_def Let_def)
qed

lemma led_run_requests: "run_control_requests env fuel a = Some a' \<Longrightarrow> led_kept a a'"
proof (induction fuel arbitrary: a)
  case 0
  then show ?case by (auto simp: run_control_requests.simps led_kept_def split: option.splits prod.splits)
next
  case (Suc fuel)
  show ?case
  proof (cases "control_request_queue_pop (control_requests a)")
    case None
    with Suc.prems show ?thesis by (simp add: run_control_requests.simps led_kept_def)
  next
    case (Some p)
    obtain r q where p: "p = (r, q)" by (cases p)
    from Suc.IH [of "execute_control_request env r (a\<lparr>control_requests := q\<rparr>)"] Suc.prems Some p
      led_execute [of "a\<lparr>control_requests := q\<rparr>" env r]
    show ?thesis by (simp add: run_control_requests.simps [of env "Suc fuel"] led_kept_def)
  qed
qed

lemma led_console_char: "console_char a ch = Some a' \<Longrightarrow> led_kept a a'"
  by (auto simp: console_char_def submit_parsed_command_def bluetooth_control_submit_def led_kept_def Let_def
    split: if_splits Option.bind_splits option.splits prod.splits)

lemma led_console: "console_input cs a = Some a' \<Longrightarrow> led_kept a a'"
  by (induction cs arbitrary: a) (auto simp: led_kept_def split: Option.bind_splits dest: led_console_char)

lemma led_task:
  assumes "bluetooth_task env v i c a = Some a'"
  shows "led_kept a a'"
proof -
  from assms obtain b d where "console_input (map byte_char i) (schedule_keyboard_led_report env a) = Some b"
    "run_control_requests env CONTROL_REQUEST_QUEUE_CAPACITY b = Some d" "a' = log_startup v c d"
    by (auto simp: bluetooth_task_def split: Option.bind_splits)
  with led_kept_trans [OF led_kept_trans [OF led_console led_run_requests] led_startup]
  have "led_kept (schedule_keyboard_led_report env a) a'" by blast
  then show ?thesis by (simp add: led_kept_def)
qed

lemma led_control_data:
  "handle_control_data env p a = Some a' \<Longrightarrow> led_kept a a'"
  by (cases "typing a") (auto simp: handle_control_data_def led_kept_def Let_def split: if_splits Option.bind_splits)

lemma led_hid_data: "handle_hid_data_packet env channel packet a = Some a' \<Longrightarrow> led_kept a a'"
  by (auto simp: handle_hid_data_packet_def led_kept_def dest: led_control_data
    split: if_splits Option.bind_splits hid_boot_parse_result.splits)

lemma led_channel_opened:
  "typing (on_channel_opened env s p l r a) \<Longrightarrow> \<not> led_pending (on_channel_opened env s p l r a) \<Longrightarrow>
   led_kept a (on_channel_opened env s p l r a)"
  by (auto simp: on_channel_opened_def hid_channels_request_led_sync_def led_kept_def bt_status_call_def Let_def
    split: option.splits if_splits)

text \<open>The step that tells the keyboard: BTstack takes the output report with the present LED bits.\<close>

definition led_told :: "btstack \<Rightarrow> bt_app \<Rightarrow> bt_event \<Rightarrow> bt_app \<Rightarrow> bool" where
  "led_told env a e a' \<longleftrightarrow>
     (\<exists>cid. e = Packet (HCI_EVENT_PACKET (L2CAP_EVENT_CAN_SEND_NOW cid)) \<and>
       calls a' = calls a @ [l2cap_send cid [0xa2, led_state a']] \<and> be_status env (calls a') = ERROR_CODE_SUCCESS)"

lemma led_can_send:
  assumes "app_wf a"
  shows "led_kept a (on_can_send_now env cid a) \<or>
    led_told env a (Packet (HCI_EVENT_PACKET (L2CAP_EVENT_CAN_SEND_NOW cid))) (on_can_send_now env cid a)"
proof -
  have "led_state a AND 0x1f = led_state a" using app_wfD(2) [OF assms] by (simp add: hc_wf_def)
  then show ?thesis
    by (auto simp: on_can_send_now_def led_told_def led_kept_def hid_boot_keyboard_output_packet_def
      bt_status_call_def bt_call_def Let_def)
qed

lemma led_timers: "led_kept a (inquiry_timer_handler env a)" "led_kept a (pairing_pin_timeout a)"
  by (simp_all add: inquiry_timer_handler_def pairing_pin_timeout_def led_kept_def Let_def)

lemma led_packet:
  assumes wf: "app_wf a" and r: "hci_event_handler env p a = Some a'" and t: "typing a'" "\<not> led_pending a'"
  shows "led_kept a a' \<or> led_told env a (Packet p) a'"
proof (cases p)
  case (HCI_EVENT_PACKET ev)
  with r have ev: "handle_hci_event env ev a = Some a'" by (simp add: hci_event_handler_def)
  show ?thesis
  proof (cases "led_event ev")
    case False
    from led_hci_event [OF ev False] show ?thesis by simp
  next
    case True
    then consider cid where "ev = L2CAP_EVENT_CAN_SEND_NOW cid" |
      s psm l rc where "ev = L2CAP_EVENT_CHANNEL_OPENED s psm l rc"
      by (cases ev) (auto simp: led_event_def)
    then show ?thesis
    proof cases
      case 1
      with ev led_can_send [OF wf, of env cid] HCI_EVENT_PACKET show ?thesis by (auto simp: handle_hci_event_def)
    next
      case 2
      with ev t led_channel_opened [of env s psm l rc a] show ?thesis by (auto simp: handle_hci_event_def)
    qed
  qed
next
  case (L2CAP_DATA_PACKET channel bytes)
  with r led_hid_data [of env channel bytes a a'] show ?thesis by (simp add: hci_event_handler_def)
next
  case OTHER_PACKET
  with r show ?thesis by (simp add: hci_event_handler_def led_kept_def)
qed

lemma led_step:
  assumes wf: "app_wf a" and r: "bt_apply env e a = Some a'" and t: "typing a'" "\<not> led_pending a'"
  shows "typing a \<and> \<not> led_pending a \<and> led_state a' = led_state a \<or> led_told env a e a'"
proof -
  have "led_kept a a' \<or> led_told env a e a' \<or> (\<exists>leds. e = SetLeds leds)"
  proof (cases e)
    case (Packet p)
    with r t led_packet [OF wf, of env p a'] show ?thesis by (auto simp: bt_apply_def)
  next
    case (Submit rq)
    with r have "led_kept a a'" by (auto simp: bt_apply_def bluetooth_control_submit_def led_kept_def Let_def split_beta)
    then show ?thesis by simp
  qed (use r led_task led_sdp_event led_timers in \<open>auto simp: bt_apply_def\<close>)
  then show ?thesis
    using r t by (auto simp: led_kept_def bt_apply_def bluetooth_set_keyboard_leds_def hid_channels_set_leds_def
      Let_def split: if_splits)
qed

lemma led_run:
  assumes "app_wf a0" and "\<not> typing a0" and "run_events (bt_apply env) es a0 = Some a" and "typing a" and "\<not> led_pending a"
  shows "\<exists>es1 e es2 b c. es = es1 @ e # es2 \<and> run_events (bt_apply env) es1 a0 = Some b \<and>
    bt_apply env e b = Some c \<and> led_told env b e c \<and> led_state c = led_state a \<and> typing c \<and>
    (\<forall>n. \<exists>d. run_events (bt_apply env) (take n es2) c = Some d \<and> typing d)"
  using assms(3-5)
proof (induction es arbitrary: a rule: rev_induct)
  case Nil
  with assms(2) show ?case by simp
next
  case (snoc e es)
  from snoc.prems(1) obtain b where b: "run_events (bt_apply env) es a0 = Some b" "bt_apply env e b = Some a"
    by (auto simp: run_events_append split: Option.bind_splits)
  have wf: "app_wf b" by (rule bt_events.run_invar [OF assms(1) allowed_run_True b(1)])
  from led_step [OF wf b(2) snoc.prems(2,3)] show ?case
  proof
    assume "led_told env b e a"
    with b snoc.prems show ?thesis
      by (intro exI [of _ es] exI [of _ e] exI [of _ "[]"] exI [of _ b] exI [of _ a]) simp
  next
    assume k: "typing b \<and> \<not> led_pending b \<and> led_state a = led_state b"
    with snoc.IH [OF b(1)] obtain es1 f es2 b' c where
      h: "es = es1 @ f # es2" "run_events (bt_apply env) es1 a0 = Some b'" "bt_apply env f b' = Some c"
        "led_told env b' f c" "led_state c = led_state b" "typing c"
        "\<forall>n. \<exists>d. run_events (bt_apply env) (take n es2) c = Some d \<and> typing d" by blast
    from b(1) h(1-3) have last: "run_events (bt_apply env) es2 c = Some b" by (simp add: run_events_append)
    have "\<exists>d. run_events (bt_apply env) (take n (es2 @ [e])) c = Some d \<and> typing d" for n
    proof (cases "n \<le> length es2")
      case True
      with h(7) show ?thesis by simp
    next
      case False
      with last b(2) snoc.prems(2) show ?thesis by (simp add: run_events_append)
    qed
    with h k show ?thesis
      by (intro exI [of _ es1] exI [of _ f] exI [of _ "es2 @ [e]"] exI [of _ b'] exI [of _ c]) simp
  qed
qed

section \<open>A change gets through\<close>

lemma channels_execute [simp]: "hid_channels (execute_control_request env r a) = hid_channels a"
proof -
  have "hid_channels (execute_connect env ad a) = hid_channels a" for ad
    by (simp add: execute_connect_def Let_def split_beta split: option.split)
  moreover have "hid_channels (execute_reconnect env a) = hid_channels a"
    by (simp add: execute_reconnect_def Let_def split_beta split: option.split)
  ultimately show ?thesis
    by (cases "rq_action r") (simp_all add: execute_control_request_def execute_scan_def execute_disconnect_def
      execute_forget_def Let_def)
qed

lemma channels_run_requests: "run_control_requests env fuel a = Some a' \<Longrightarrow> hid_channels a' = hid_channels a"
proof (induction fuel arbitrary: a)
  case 0
  then show ?case by (auto simp: run_control_requests.simps split: option.splits prod.splits)
next
  case (Suc fuel)
  show ?case
  proof (cases "control_request_queue_pop (control_requests a)")
    case None
    with Suc.prems show ?thesis by (simp add: run_control_requests.simps)
  next
    case (Some p)
    obtain r q where p: "p = (r, q)" by (cases p)
    from Suc.IH [of "execute_control_request env r (a\<lparr>control_requests := q\<rparr>)"] Suc.prems Some p
    show ?thesis by (simp add: run_control_requests.simps [of env "Suc fuel"])
  qed
qed

lemma channels_console: "console_input cs a = Some a' \<Longrightarrow> hid_channels a' = hid_channels a"
proof (induction cs arbitrary: a)
  case (Cons ch cs)
  have "console_char a ch = Some b \<Longrightarrow> hid_channels b = hid_channels a" for b
    by (auto simp: console_char_def submit_parsed_command_def bluetooth_control_submit_def Let_def
      split: if_splits Option.bind_splits option.splits prod.splits)
  with Cons show ?case by (auto split: Option.bind_splits)
qed simp

lemma channels_task:
  assumes "bluetooth_task env v i c a = Some a'"
  shows "hid_channels a' = hid_channels (schedule_keyboard_led_report env a)"
proof -
  from assms obtain b d where "console_input (map byte_char i) (schedule_keyboard_led_report env a) = Some b"
    "run_control_requests env CONTROL_REQUEST_QUEUE_CAPACITY b = Some d" "a' = log_startup v c d"
    by (auto simp: bluetooth_task_def split: Option.bind_splits)
  with channels_console channels_run_requests show ?thesis by (auto simp: log_startup_def Let_def)
qed

section \<open>Properties\<close>

text \<open>
  C6. The keyboard's LEDs agree with the host: whenever the keyboard is connected and no LED report is
  owed to it, the LED bits the application holds were taken by BTstack in an output report on the
  control channel, and since then the connection has been up without interruption.
\<close>

theorem keyboard_leds_in_sync:
  assumes "run_events (bt_apply env) es (bluetooth_init env bt_app_boot) = Some a"
    and "current_state a = STATE_HID_CONNECTED" and "\<not> hc_led_report_pending (hid_channels a)"
  shows "\<exists>es1 cid es2 b c. es = es1 @ Packet (HCI_EVENT_PACKET (L2CAP_EVENT_CAN_SEND_NOW cid)) # es2 \<and>
    run_events (bt_apply env) es1 (bluetooth_init env bt_app_boot) = Some b \<and>
    bt_apply env (Packet (HCI_EVENT_PACKET (L2CAP_EVENT_CAN_SEND_NOW cid))) b = Some c \<and>
    calls c = calls b @ [l2cap_send cid [0xa2, hc_led_state (hid_channels a)]] \<and>
    be_status env (calls c) = ERROR_CODE_SUCCESS \<and>
    (\<forall>n. \<exists>d. run_events (bt_apply env) (take n es2) c = Some d \<and> current_state d = STATE_HID_CONNECTED)"
proof -
  have "\<not> typing (bluetooth_init env bt_app_boot)"
    by (simp add: bluetooth_init_def load_selected_device_def bt_app_boot_def Let_def split: prod.split)
  from led_run [OF app_wf_init [OF app_wf_boot] this assms] show ?thesis unfolding led_told_def by metis
qed

theorem keyboard_leds_in_sync_witness:
  "\<exists>a cid b c. run_events (bt_apply demo_btstack) (demo_events @ [Packet (HCI_EVENT_PACKET (L2CAP_EVENT_CAN_SEND_NOW 0x40))])
      (bluetooth_init demo_btstack bt_app_boot) = Some a \<and>
    bt_apply demo_btstack (Packet (HCI_EVENT_PACKET (L2CAP_EVENT_CAN_SEND_NOW cid))) b = Some c \<and>
    calls c = calls b @ [l2cap_send cid [0xa2, hc_led_state (hid_channels a)]]"
proof -
  let ?e = "Packet (HCI_EVENT_PACKET (L2CAP_EVENT_CAN_SEND_NOW 0x40))"
  let ?run = "run_events (bt_apply demo_btstack) (demo_events @ [?e]) (bluetooth_init demo_btstack bt_app_boot)"
  have "take 9 demo_events = demo_events" by (simp add: demo_events_def)
  with demo_run [of 9] have a: "?run = Some (on_can_send_now demo_btstack 0x40 (demo_state 9))"
    by (simp add: run_events_append bt_apply_def hci_event_handler_def handle_hci_event_def)
  have "typing (on_can_send_now demo_btstack 0x40 (demo_state 9))" "\<not> led_pending (on_can_send_now demo_btstack 0x40 (demo_state 9))"
    using demo_at_9(1,4) by (simp_all add: on_can_send_now_def hid_boot_keyboard_output_packet_def bt_status_call_def
      demo_btstack_def Let_def)
  from keyboard_leds_in_sync [OF a this] obtain cid b c where
    "bt_apply demo_btstack (Packet (HCI_EVENT_PACKET (L2CAP_EVENT_CAN_SEND_NOW cid))) b = Some c"
    "calls c = calls b @ [l2cap_send cid [0xa2, led_state (on_can_send_now demo_btstack 0x40 (demo_state 9))]]" by blast
  with a show ?thesis by blast
qed



end
